(* ===== verification/Prelude.thy ===== *)
theory Prelude
  imports Main "HOL-Library.Word" "HOL-Library.AList"
begin

text \<open>
  Shared vocabulary of the development: bytes and Go strings, the fixed-width integer
  codecs of \<open>encoding/binary\<close>, Go's 64-bit \<open>int\<close> wrap-around, \<open>io.ReadFull\<close> over a
  finite stream, and the rewrite collections the component theories extend.
  A Go string is a list of characters (HOL's \<open>char\<close> is one byte), a Go \<open>[]byte\<close> a list
  of \<open>8 word\<close>; the conversions between them are \<open>bytes_of_str\<close> and \<open>str_of_bytes\<close>.
\<close>

named_theorems wire_simps \<open>unfolding of the wire codecs\<close>
named_theorems step_defs \<open>definitions of the state-changing operations\<close>

type_synonym byte = "8 word"
type_synonym bytes = "8 word list"
type_synonym u16 = "16 word"
type_synonym u64 = "64 word"

section \<open>Strings and bytes\<close>

definition byte_of_char :: "char \<Rightarrow> byte" where
  "byte_of_char c = word_of_nat (of_char c)"

definition char_of_byte :: "byte \<Rightarrow> char" where
  "char_of_byte b = char_of (unat b)"

definition bytes_of_str :: "string \<Rightarrow> bytes" where
  "bytes_of_str s = map byte_of_char s"

definition str_of_bytes :: "bytes \<Rightarrow> string" where
  "str_of_bytes bs = map char_of_byte bs"

lemma char_of_byte_of_char [simp]: "char_of_byte (byte_of_char c) = c"
proof -
  have "(of_char c :: nat) < 256"
    using of_char_mod_256 [of c, where 'a = nat] mod_less_divisor [of 256 "of_char c"] by linarith
  then have "unat (word_of_nat (of_char c) :: byte) = of_char c"
    by (simp add: unat_of_nat)
  then show ?thesis by (simp add: char_of_byte_def byte_of_char_def)
qed

lemma byte_of_char_of_byte [simp]: "byte_of_char (char_of_byte b) = b"
proof -
  have "unat b < 256" using unsigned_less [of b] by simp
  then have "(of_char (char_of (unat b)) :: nat) = unat b" by simp
  then show ?thesis by (simp add: char_of_byte_def byte_of_char_def)
qed

lemma str_of_bytes_of_str [simp]: "str_of_bytes (bytes_of_str s) = s"
  by (simp add: str_of_bytes_def bytes_of_str_def o_def)

lemma bytes_of_str_of_bytes [simp]: "bytes_of_str (str_of_bytes b) = b"
  by (simp add: str_of_bytes_def bytes_of_str_def o_def)

lemma length_bytes_of_str [simp]: "length (bytes_of_str s) = length s"
  by (simp add: bytes_of_str_def)

lemma length_str_of_bytes [simp]: "length (str_of_bytes b) = length b"
  by (simp add: str_of_bytes_def)

section \<open>Go's 64-bit int\<close>

text \<open>
  Lengths and offsets of in-memory data are \<open>int\<close>; where the code computes a value that
  can leave the 64-bit range the result is reduced with \<open>wrap64\<close>, which is two's
  complement wrap-around.
\<close>

definition wrap64 :: "int \<Rightarrow> int" where
  "wrap64 i = (i + 2 ^ 63) mod 2 ^ 64 - 2 ^ 63"

lemma wrap64_id [simp]: "- (2 ^ 63) \<le> i \<Longrightarrow> i < 2 ^ 63 \<Longrightarrow> wrap64 i = i"
  by (simp add: wrap64_def)

lemma sint_i32: "- (2 ^ 31) \<le> i \<Longrightarrow> i < 2 ^ 31 \<Longrightarrow> sint (word_of_int i :: 32 word) = i"
  by (simp add: signed_of_int signed_take_bit_int_eq_self)

lemma wrap64_range: "- (2 ^ 63) \<le> wrap64 i \<and> wrap64 i < 2 ^ 63"
proof -
  have "0 \<le> (i + 2 ^ 63) mod 2 ^ 64" and "(i + 2 ^ 63) mod 2 ^ 64 < 2 ^ 64"
    by (rule pos_mod_sign, simp) (rule pos_mod_bound, simp)
  then show ?thesis by (simp add: wrap64_def)
qed

lemma nat_sub_add [simp]: "0 \<le> (a::int) \<Longrightarrow> a \<le> b \<Longrightarrow> nat (b - a) + nat a = nat b"
  by (simp add: nat_diff_distrib')

section \<open>encoding/binary\<close>

definition le16 :: "u16 \<Rightarrow> bytes" where
  "le16 v = [ucast v, ucast (drop_bit 8 v)]"

definition get_le16 :: "byte \<Rightarrow> byte \<Rightarrow> u16" where
  "get_le16 b0 b1 = or (ucast b0) (push_bit 8 (ucast b1))"

definition be16 :: "u16 \<Rightarrow> bytes" where
  "be16 v = [ucast (drop_bit 8 v), ucast v]"

definition get_be16 :: "byte \<Rightarrow> byte \<Rightarrow> u16" where
  "get_be16 b0 b1 = or (ucast b1) (push_bit 8 (ucast b0))"

lemma split16: "or (ucast (ucast v :: byte)) (push_bit 8 (ucast (ucast (drop_bit 8 v) :: byte))) = (v :: u16)"
  by (rule bit_word_eqI)
    (auto simp: bit_or_iff bit_push_bit_iff bit_ucast_iff bit_drop_bit_eq)

lemma get_le16_le16 [wire_simps]: "get_le16 (ucast v) (ucast (drop_bit 8 v)) = v"
  by (simp add: get_le16_def split16)

lemma get_be16_be16 [wire_simps]: "get_be16 (ucast (drop_bit 8 v)) (ucast v) = v"
  by (simp add: get_be16_def split16)

lemma length_le16 [simp]: "length (le16 v) = 2" and length_be16 [simp]: "length (be16 v) = 2"
  by (simp_all add: le16_def be16_def)

lemma unat_u16_of_nat: "n < 65536 \<Longrightarrow> unat (word_of_nat n :: u16) = n"
  by (simp add: unat_of_nat)

lemma unat_byte_of_nat: "n < 256 \<Longrightarrow> unat (word_of_nat n :: byte) = n"
  by (simp add: unsigned_of_nat take_bit_nat_eq_self)

lemma unat_u16_less: "unat (v :: u16) < 65536"
  using unsigned_less [of v] by simp

lemma unat_byte_less: "unat (b :: byte) < 256"
  using unsigned_less [of b] by simp

text \<open>Big-endian fields of any width, most significant byte first.\<close>

fun be_enc :: "nat \<Rightarrow> nat \<Rightarrow> bytes" where
  "be_enc 0 x = []"
| "be_enc (Suc n) x = be_enc n (x div 256) @ [word_of_nat x]"

definition be_dec :: "bytes \<Rightarrow> nat" where
  "be_dec bs = foldl (\<lambda>acc b. acc * 256 + unat b) 0 bs"

lemma length_be_enc [simp]: "length (be_enc n x) = n"
  by (induction n arbitrary: x) auto

lemma be_dec_snoc: "be_dec (bs @ [b]) = be_dec bs * 256 + unat b"
  by (simp add: be_dec_def)

lemma be_dec_be_enc: "be_dec (be_enc n x) = x mod 256 ^ n"
proof (induction n arbitrary: x)
  case 0
  then show ?case by (simp add: be_dec_def)
next
  case (Suc n)
  have "unat (word_of_nat x :: byte) = x mod 256" by (simp add: unat_of_nat)
  then show ?case
    by (simp add: be_dec_snoc Suc.IH mod_mult2_eq mult.commute)
qed

text \<open>\<open>PutUint64\<close> and \<open>Uint64\<close> on 64-bit words.\<close>

definition be64 :: "u64 \<Rightarrow> bytes" where
  "be64 v = be_enc 8 (unat v)"

definition get_be64 :: "bytes \<Rightarrow> u64" where
  "get_be64 bs = word_of_nat (be_dec bs)"

lemma length_be64 [simp]: "length (be64 v) = 8"
  by (simp add: be64_def)

lemma get_be64_be64 [wire_simps]: "get_be64 (be64 v) = v"
proof -
  have "unat v < 256 ^ 8" using unsigned_less [of v] by simp
  then show ?thesis by (simp add: get_be64_def be64_def be_dec_be_enc)
qed

section \<open>Reading and slicing\<close>

datatype io_err = EOF | UnexpectedEOF | ErrClosedPipe | ErrWrite

text \<open>
  \<open>io.ReadFull\<close> on a stream whose remaining content is \<open>s\<close>: it loops over \<open>Read\<close> until
  the buffer is full, so only the content matters. With nothing to read it is \<open>EOF\<close>, with
  too little \<open>ErrUnexpectedEOF\<close>; the bytes read are gone in both cases.
\<close>

definition read_full :: "nat \<Rightarrow> bytes \<Rightarrow> (io_err + bytes) \<times> bytes" where
  "read_full n s =
     (if n \<le> length s then (Inr (take n s), drop n s)
      else (Inl (if s = [] then EOF else UnexpectedEOF), []))"

lemma read_full_append [simp]: "length xs = n \<Longrightarrow> read_full n (xs @ ys) = (Inr xs, ys)"
  by (simp add: read_full_def)

lemma read_full_0 [simp]: "read_full 0 s = (Inr [], s)"
  by (simp add: read_full_def)

lemma read_full_Inr:
  "read_full n s = (Inr xs, s') \<longleftrightarrow> s = xs @ s' \<and> length xs = n"
  by (auto simp: read_full_def split: if_splits)

lemma read_full_Inl:
  "read_full n s = (Inl e, s') \<Longrightarrow> s' = [] \<and> length s < n"
  by (auto simp: read_full_def split: if_splits)

text \<open>The Go slice \<open>xs[a:b]\<close> for \<open>a \<le> b \<le> len\<close>.\<close>

text \<open>The number of elements at the end of a list that satisfy \<open>P\<close>: a counter reset by the others.\<close>

definition trailing :: "('a \<Rightarrow> bool) \<Rightarrow> 'a list \<Rightarrow> nat" where
  "trailing P xs = length (takeWhile P (rev xs))"

lemma trailing_Nil [simp]: "trailing P [] = 0"
  and trailing_snoc [simp]: "trailing P (xs @ [x]) = (if P x then Suc (trailing P xs) else 0)"
  by (simp_all add: trailing_def)

lemma trailing_le: "trailing P xs \<le> length xs"
  unfolding trailing_def by (metis length_rev length_takeWhile_le)

lemma trailing_ge: "n \<le> trailing P xs \<longleftrightarrow> n \<le> length xs \<and> (\<forall>x \<in> set (drop (length xs - n) xs). P x)"
proof (induction xs arbitrary: n rule: rev_induct)
  case Nil
  then show ?case by simp
next
  case (snoc x xs)
  show ?case
  proof (cases n)
    case 0
    then show ?thesis by simp
  next
    case (Suc m)
    have "drop (length (xs @ [x]) - n) (xs @ [x]) = drop (length xs - m) xs @ [x]"
      by (simp add: Suc)
    with snoc.IH [of m] show ?thesis by (auto simp: Suc)
  qed
qed

lemma takeWhile_until: "x \<notin> set p \<Longrightarrow> takeWhile (\<lambda>c. c \<noteq> x) (p @ x # r) = p"
  by (induction p) auto

lemma dropWhile_until: "x \<notin> set p \<Longrightarrow> dropWhile (\<lambda>c. c \<noteq> x) (p @ x # r) = x # r"
  by (induction p) auto

lemma takeWhile_none: "x \<notin> set p \<Longrightarrow> takeWhile (\<lambda>c. c \<noteq> x) p = p"
  and dropWhile_none: "x \<notin> set p \<Longrightarrow> dropWhile (\<lambda>c. c \<noteq> x) p = []"
  by (induction p) auto

lemma dropWhile_absent: "x \<notin> set p \<Longrightarrow> dropWhile (\<lambda>c. c = x) p = p"
  by (cases p) auto

definition go_slice :: "'a list \<Rightarrow> nat \<Rightarrow> nat \<Rightarrow> 'a list" where
  "go_slice xs a b = take (b - a) (drop a xs)"

lemma length_go_slice [simp]: "b \<le> length xs \<Longrightarrow> length (go_slice xs a b) = b - a"
  by (simp add: go_slice_def)

section \<open>Association lists as Go maps\<close>

text \<open>
  A Go map that is iterated or counted is an association list with distinct keys.
\<close>

lemmas go_map_simps [simp] = update_conv' delete_conv'

lemma distinct_go_map [simp]:
  "distinct (map fst m) \<Longrightarrow> distinct (map fst (AList.update k v m))"
  "distinct (map fst m) \<Longrightarrow> distinct (map fst (AList.delete k m))"
  by (simp_all add: distinct_update distinct_delete)

lemma update_fresh: "k \<notin> fst ` set m \<Longrightarrow> AList.update k v m = m @ [(k, v)]"
  by (induction m) auto

lemma set_delete: "set (AList.delete k m) = {p \<in> set m. fst p \<noteq> k}"
  by (induction m) auto

lemma map_of_filter_key:
  "map_of (filter (\<lambda>p. P (fst p)) m) k = (if P k then map_of m k else None)"
  by (induction m) auto

lemma map_of_filter_distinct:
  "distinct (map fst m) \<Longrightarrow> map_of (filter Q m) k =
     (case map_of m k of None \<Rightarrow> None | Some v \<Rightarrow> if Q (k, v) then Some v else None)"
proof (induction m)
  case Nil
  then show ?case by simp
next
  case (Cons p m)
  then have "k = fst p \<Longrightarrow> map_of m k = None"
    by (auto simp: map_of_eq_None_iff)
  with Cons show ?case
    by (cases p) (auto split: option.splits)
qed

end
