(* ===== verification/Interfaces.thy ===== *)
theory Interfaces
  imports Prelude
begin

text \<open>
  The contracts components rely on, as locales: a replayable buffer addressed by absolute
  offset, a length-delimited wire codec, a byte source (\<open>io.Reader\<close>), a bounded random
  choice and a time-to-live sweep. Each is interpreted on the model's own operations in
  the theory that provides them; what a client needs is proved here once.
\<close>

section \<open>A buffer addressed by absolute offset\<close>

locale replay_buffer =
  fixes bwrite :: "bytes \<Rightarrow> 'b \<Rightarrow> ('e + int) \<times> 'b"
    and advance :: "int \<Rightarrow> 'b \<Rightarrow> 'b"
    and read_from :: "int \<Rightarrow> nat \<Rightarrow> 'b \<Rightarrow> bytes \<times> int \<times> 'e option"
    and rep :: "'b \<Rightarrow> bytes \<Rightarrow> bool"
    and closed :: "'b \<Rightarrow> bool"
    and low :: "'b \<Rightarrow> int"
  assumes write_rep: "rep b W \<Longrightarrow> \<not> closed b \<Longrightarrow> rep (snd (bwrite p b)) (W @ p)"
    and write_closed: "closed b \<Longrightarrow> snd (bwrite p b) = b"
    and advance_rep: "rep b W \<Longrightarrow> rep (advance off b) W"
    and read_data: "rep b W \<Longrightarrow> low b \<le> off \<Longrightarrow> fst (read_from off n b) = take n (drop (nat off) W)"
    and read_low: "off < low b \<Longrightarrow> fst (read_from off n b) = []"
    and read_offset: "fst (snd (read_from off n b)) = off + int (length (fst (read_from off n b)))"
    and low_nonneg: "rep b W \<Longrightarrow> 0 \<le> low b"
begin

text \<open>
  One reader following the buffer: the writer appends, the reader takes what is there and
  acknowledges it, or comes back at an offset it has already passed. \<open>got\<close> is what the
  reader holds.
\<close>

inductive follows :: "'b \<Rightarrow> bytes \<Rightarrow> int \<Rightarrow> bytes \<Rightarrow> bool" where
  start: "rep b W \<Longrightarrow> follows b W 0 []"
| wrote: "follows b W off got \<Longrightarrow> \<not> closed b \<Longrightarrow> follows (snd (bwrite p b)) (W @ p) off got"
| served: "follows b W off got \<Longrightarrow> read_from off n b = (data, off', None) \<Longrightarrow>
    follows (advance off' b) W off' (got @ data)"
| resumed: "follows b W off got \<Longrightarrow> 0 \<le> o' \<Longrightarrow> o' \<le> off \<Longrightarrow>
    follows b W o' (take (nat o') got)"

lemma read_prefix:
  assumes "rep b W" and "0 \<le> off" and "off \<le> int (length W)"
    and "read_from off n b = (data, off', e)"
  shows "take (nat off) W @ data = take (nat off') W \<and> off \<le> off' \<and> off' \<le> int (length W)"
proof (cases "off < low b")
  case True
  then show ?thesis using assms read_low [OF True, of n] read_offset [of off n b] by simp
next
  case False
  then have d: "data = take n (drop (nat off) W)" and o: "off' = off + int (length data)"
    using read_data [OF assms(1), of off n] read_offset [of off n b] assms(4) by auto
  have "nat off' = nat off + length data" unfolding o using assms(2) by (simp add: nat_add_distrib)
  then show ?thesis using d o assms(2,3) by (auto simp: take_add min_def)
qed

lemma follows_prefix:
  "follows b W off got \<Longrightarrow> rep b W \<and> 0 \<le> off \<and> off \<le> int (length W) \<and> got = take (nat off) W"
proof (induction rule: follows.induct)
  case (start b W)
  then show ?case by simp
next
  case (wrote b W off got p)
  then have "nat off \<le> length W" by linarith
  with wrote show ?case by (simp add: write_rep)
next
  case (served b W off got n data off')
  then show ?case using read_prefix [of b W off n data off' None] advance_rep by auto
next
  case (resumed b W off got o')
  then show ?case by (simp add: min_def nat_mono)
qed

end

section \<open>A reassembly queue keyed by sequence number\<close>

locale reassembly =
  fixes push :: "int \<Rightarrow> 'a \<Rightarrow> 'q \<Rightarrow> 'q"
    and pop :: "'q \<Rightarrow> ('a \<times> 'q) option"
    and pending :: "'q \<Rightarrow> int \<Rightarrow> 'a option"
    and nxt :: "'q \<Rightarrow> int"
    and live :: "'q \<Rightarrow> bool"
    and lim :: int
  assumes push_pending: "live q \<Longrightarrow> pending (push i d q) = (pending q)(i \<mapsto> d)"
    and push_nxt: "live q \<Longrightarrow> nxt (push i d q) = nxt q"
    and push_live: "live q \<Longrightarrow> live (push i d q)"
    and pop_Some: "live q \<Longrightarrow> nxt q < lim \<Longrightarrow> pending q (nxt q) = Some d \<Longrightarrow>
      \<exists>q'. pop q = Some (d, q') \<and> pending q' = (pending q)(nxt q := None) \<and>
        nxt q' = nxt q + 1 \<and> live q'"
    and pop_None: "live q \<Longrightarrow> pending q (nxt q) = None \<Longrightarrow> pop q = None"
begin

text \<open>
  A run of the queue against a sender whose chunk number \<open>i\<close> is \<open>chunk i\<close>: chunks are
  pushed in any order and any number of times, and popped whenever the next one is there.
\<close>

inductive run :: "(int \<Rightarrow> 'a) \<Rightarrow> 'q \<Rightarrow> 'a list \<Rightarrow> bool" for chunk where
  start: "live q \<Longrightarrow> nxt q = 0 \<Longrightarrow> pending q = Map.empty \<Longrightarrow> run chunk q []"
| pushed: "run chunk q out \<Longrightarrow> run chunk (push i (chunk i) q) out"
| popped: "run chunk q out \<Longrightarrow> nxt q < lim \<Longrightarrow> pop q = Some (d, q') \<Longrightarrow> run chunk q' (out @ [d])"

lemma run_inv:
  "run chunk q out \<Longrightarrow> live q \<and> 0 \<le> nxt q \<and> out = map (chunk \<circ> int) [0..<nat (nxt q)] \<and>
     (\<forall>i d. pending q i = Some d \<longrightarrow> d = chunk i)"
proof (induction rule: run.induct)
  case (start q)
  then show ?case by simp
next
  case (pushed q out i)
  then show ?case by (auto simp: push_pending push_nxt push_live split: if_splits)
next
  case (popped q out d q')
  then obtain d0 where d0: "pending q (nxt q) = Some d0"
    using pop_None [of q] by (cases "pending q (nxt q)") auto
  with pop_Some [of q d0] popped have q': "d = d0" "pending q' = (pending q)(nxt q := None)"
    "nxt q' = nxt q + 1" "live q'" by auto
  have "nat (nxt q') = Suc (nat (nxt q))"
    using popped.IH by (simp only: q') (simp add: nat_add_distrib)
  moreover have "d = chunk (int (nat (nxt q)))"
    using popped.IH d0 by (simp add: q'(1))
  ultimately show ?case
    using popped.IH q'(2-) by (simp add: q'(3))
qed

fun pops :: "nat \<Rightarrow> 'q \<Rightarrow> 'a list" where
  "pops 0 q = []"
| "pops (Suc n) q = (case pop q of None \<Rightarrow> [] | Some (d, q') \<Rightarrow> d # pops n q')"

lemma pops_all:
  assumes "live q" and "nxt q + int n \<le> lim"
    and "\<forall>i < n. pending q (nxt q + int i) = Some (chunk (nxt q + int i))"
  shows "pops n q = map (\<lambda>i. chunk (nxt q + int i)) [0..<n]"
  using assms
proof (induction n arbitrary: q)
  case 0
  then show ?case by simp
next
  case (Suc n)
  have p0: "pending q (nxt q) = Some (chunk (nxt q))" using Suc.prems(3) [rule_format, of 0] by simp
  moreover from Suc.prems(2) have "nxt q < lim" by simp
  ultimately obtain q' where q': "pop q = Some (chunk (nxt q), q')"
    "pending q' = (pending q)(nxt q := None)" "nxt q' = nxt q + 1" "live q'"
    using pop_Some Suc.prems(1) by blast
  have "\<forall>i < n. pending q' (nxt q' + int i) = Some (chunk (nxt q' + int i))"
  proof (intro allI impI)
    fix i assume "i < n"
    with Suc.prems(3) have "pending q (nxt q + int (Suc i)) = Some (chunk (nxt q + int (Suc i)))"
      by blast
    then show "pending q' (nxt q' + int i) = Some (chunk (nxt q' + int i))"
      by (simp add: q' algebra_simps)
  qed
  then have "pops n q' = map (\<lambda>i. chunk (nxt q' + int i)) [0..<n]"
    using Suc.IH [of q'] q' Suc.prems(2) by simp
  moreover have "map (\<lambda>i. chunk (nxt q + int i)) [0..<Suc n] =
      chunk (nxt q) # map (\<lambda>i. chunk (nxt q' + int i)) [0..<n]"
    unfolding q'(3) by (simp add: upt_conv_Cons map_Suc_upt [symmetric] algebra_simps del: upt_Suc)
  ultimately show ?case by (simp add: q'(1))
qed

definition push_all :: "(int \<times> 'a) list \<Rightarrow> 'q \<Rightarrow> 'q" where
  "push_all xs q = fold (\<lambda>(i, d). push i d) xs q"

lemma push_all_laws:
  "live q \<Longrightarrow> live (push_all xs q) \<and> nxt (push_all xs q) = nxt q \<and>
     pending (push_all xs q) = pending q ++ map_of (rev xs)"
proof (induction xs arbitrary: q)
  case Nil
  then show ?case by (simp add: push_all_def)
next
  case (Cons x xs)
  obtain i d where x: "x = (i, d)" by (cases x)
  from Cons.IH [of "push i d q"] Cons.prems show ?case
    by (simp add: push_all_def x push_live push_nxt push_pending fun_upd_def map_add_def fun_eq_iff split: option.splits)
qed

end

section \<open>A length-delimited wire codec\<close>

text \<open>
  \<open>enc\<close> produces the bytes of one message, \<open>dec\<close> consumes one message from the front of a
  stream and leaves the rest; \<open>view\<close> is what the reader gets of a message.
\<close>

locale wire_codec =
  fixes enc :: "'m \<Rightarrow> bytes"
    and dec :: "bytes \<Rightarrow> ('e + 'v) \<times> bytes"
    and ok :: "'m \<Rightarrow> bool"
    and view :: "'m \<Rightarrow> 'v"
  assumes dec_enc: "ok x \<Longrightarrow> dec (enc x @ rest) = (Inr (view x), rest)"
begin

fun dec_many :: "nat \<Rightarrow> bytes \<Rightarrow> ('e + 'v list) \<times> bytes" where
  "dec_many 0 s = (Inr [], s)"
| "dec_many (Suc n) s =
     (case dec s of (Inl e, s') \<Rightarrow> (Inl e, s')
      | (Inr v, s') \<Rightarrow> (case dec_many n s' of (Inl e, s'') \<Rightarrow> (Inl e, s'')
          | (Inr vs, s'') \<Rightarrow> (Inr (v # vs), s'')))"

lemma dec_many_concat:
  "list_all ok xs \<Longrightarrow>
   dec_many (length xs) (concat (map enc xs) @ rest) = (Inr (map view xs), rest)"
  by (induction xs) (simp_all add: dec_enc)

lemma prefix_unique:
  "ok x \<Longrightarrow> ok y \<Longrightarrow> enc x @ r = enc y @ r' \<Longrightarrow> view x = view y \<and> r = r'"
  using dec_enc [of x r] dec_enc [of y r'] by simp

end

section \<open>A byte source\<close>

text \<open>
  The contract of \<open>io.Reader\<close> as its users rely on it: a read returns at most as many bytes
  as asked for, and what it returns is gone from the front of what is still to come
  (\<open>content\<close>); \<open>None\<close> is a read that has nothing to return.
\<close>

locale byte_source =
  fixes rd :: "nat \<Rightarrow> 's \<Rightarrow> bytes option \<times> 's"
    and content :: "'s \<Rightarrow> bytes"
    and ok :: "'s \<Rightarrow> bool"
  assumes rd_Some: "ok s \<Longrightarrow> rd n s = (Some d, s') \<Longrightarrow>
      ok s' \<and> content s = d @ content s' \<and> length d \<le> n"
    and rd_None: "ok s \<Longrightarrow> rd n s = (None, s') \<Longrightarrow> ok s' \<and> content s' = content s"
begin

fun reads :: "nat list \<Rightarrow> 's \<Rightarrow> bytes \<times> 's" where
  "reads [] s = ([], s)"
| "reads (n # ns) s =
     (case rd n s of (None, s') \<Rightarrow> reads ns s'
      | (Some d, s') \<Rightarrow> (case reads ns s' of (ds, t) \<Rightarrow> (d @ ds, t)))"

lemma reads_content:
  "ok s \<Longrightarrow> reads ns s = (ds, t) \<Longrightarrow> ok t \<and> content s = ds @ content t \<and> length ds \<le> sum_list ns"
proof (induction ns arbitrary: s ds t)
  case Nil
  then show ?case by simp
next
  case (Cons n ns)
  obtain r s' where r: "rd n s = (r, s')" by (cases "rd n s")
  show ?case
  proof (cases r)
    case None
    with r Cons.prems(2) have "reads ns s' = (ds, t)" by simp
    moreover have "ok s' \<and> content s' = content s" using rd_None Cons.prems(1) r None by simp
    ultimately show ?thesis using Cons.IH [of s' ds t] by fastforce
  next
    case (Some d)
    obtain ds' t' where d': "reads ns s' = (ds', t')" by (cases "reads ns s'")
    with r Some Cons.prems(2) have e: "ds = d @ ds'" "t = t'" by auto
    have "ok s' \<and> content s = d @ content s' \<and> length d \<le> n" using rd_Some Cons.prems(1) r Some by simp
    with Cons.IH [OF _ d'] e show ?thesis by auto
  qed
qed

end

text \<open>
  A source that runs dry: while nothing is missing (\<open>full\<close>), every read with a non-empty buffer
  makes a measure smaller, and at zero there is nothing left. Then enough reads of any sizes
  return everything.
\<close>

locale draining_source = byte_source rd content ok
  for rd :: "nat \<Rightarrow> 's \<Rightarrow> bytes option \<times> 's" and content :: "'s \<Rightarrow> bytes" and ok :: "'s \<Rightarrow> bool" +
  fixes full :: "'s \<Rightarrow> bool" and todo :: "'s \<Rightarrow> nat"
  assumes rd_full: "ok s \<Longrightarrow> full s \<Longrightarrow> 0 < n \<Longrightarrow> rd n s = (r, s') \<Longrightarrow>
      full s' \<and> (if todo s = 0 then todo s' = 0 else todo s' < todo s)"
    and todo_0: "ok s \<Longrightarrow> todo s = 0 \<Longrightarrow> content s = []"
begin

lemma reads_drain:
  "ok s \<Longrightarrow> full s \<Longrightarrow> \<forall>n \<in> set ns. 0 < n \<Longrightarrow> todo s \<le> length ns \<Longrightarrow> reads ns s = (ds, t) \<Longrightarrow> todo t = 0"
proof (induction ns arbitrary: s ds t)
  case Nil
  then show ?case by simp
next
  case (Cons n ns)
  obtain r s' where r: "rd n s = (r, s')" by (cases "rd n s")
  have ok': "ok s'" using rd_Some rd_None Cons.prems(1) r by (cases r) blast+
  note st = rd_full [OF Cons.prems(1,2) _ r]
  then have less: "todo s' \<le> length ns" using Cons.prems(3,4) by (cases "todo s = 0") auto
  obtain ds' where "reads ns s' = (ds', t)" using Cons.prems(5) r by (cases r) (auto split: prod.splits)
  with Cons.IH [OF ok' _ _ less] st Cons.prems(3) show ?case by simp
qed

lemma reads_all:
  assumes "ok s" and "full s" and "\<forall>n \<in> set ns. 0 < n" and "todo s \<le> length ns"
  shows "fst (reads ns s) = content s"
proof -
  obtain ds t where dt: "reads ns s = (ds, t)" by (cases "reads ns s")
  then show ?thesis using reads_content [OF assms(1) dt] todo_0 [of t] reads_drain [OF assms dt] by simp
qed

end

section \<open>A table swept entry by entry\<close>

text \<open>
  Go ranges over a map and deletes or rewrites entries on the way; \<open>one e s\<close> is what the loop
  body does for entry \<open>e\<close>, and \<open>dead\<close> says which entries it deletes. The loop then keeps
  exactly the entries that are not dead.
\<close>

locale swept_table =
  fixes tbl :: "'s \<Rightarrow> ('k \<times> 'v) list"
    and one :: "'k \<times> 'v \<Rightarrow> 's \<Rightarrow> 's"
    and dead :: "'k \<times> 'v \<Rightarrow> bool"
  assumes one_tbl: "tbl (one e s) = (if dead e then AList.delete (fst e) (tbl s) else tbl s)"
begin

definition sweep :: "'s \<Rightarrow> 's" where
  "sweep s = fold one (tbl s) s"

lemma sweep_lookup:
  assumes "distinct (map fst (tbl s))"
  shows "map_of (tbl (sweep s)) k =
    (case map_of (tbl s) k of None \<Rightarrow> None | Some v \<Rightarrow> if dead (k, v) then None else Some v)"
proof -
  have f: "map_of (tbl (fold one es s)) k =
      (if \<exists>e \<in> set es. dead e \<and> fst e = k then None else map_of (tbl s) k)" for es s
    by (induction es arbitrary: s) (auto simp: one_tbl)
  show ?thesis
  proof (cases "map_of (tbl s) k")
    case None
    then show ?thesis by (simp add: sweep_def f)
  next
    case (Some v)
    then have "(\<exists>e \<in> set (tbl s). dead e \<and> fst e = k) \<longleftrightarrow> dead (k, v)"
      using assms by (auto simp: map_of_eq_Some_iff dest: eq_key_imp_eq_value)
    with Some show ?thesis by (simp add: sweep_def f)
  qed
qed

lemma sweep_distinct: "distinct (map fst (tbl s)) \<Longrightarrow> distinct (map fst (tbl (sweep s)))"
proof -
  have "distinct (map fst (tbl (fold one es t)))" if "distinct (map fst (tbl t))" for es t
    using that by (induction es arbitrary: t) (auto simp: one_tbl distinct_delete)
  then show "distinct (map fst (tbl s)) \<Longrightarrow> distinct (map fst (tbl (sweep s)))"
    by (simp add: sweep_def)
qed

end

section \<open>A random choice from a range\<close>

text \<open>
  \<open>pick lo hi d\<close> picks from the closed range with the draw \<open>d\<close>, a number below
  \<open>hi - lo + 1\<close> from the random source, and gives \<open>lo\<close> when the range is empty.
\<close>

locale ranged_choice =
  fixes pick :: "int \<Rightarrow> int \<Rightarrow> int \<Rightarrow> int"
    and room :: "int \<Rightarrow> int \<Rightarrow> bool"
  assumes empty: "room lo hi \<Longrightarrow> hi \<le> lo \<Longrightarrow> pick lo hi d = lo"
    and shift: "room lo hi \<Longrightarrow> lo < hi \<Longrightarrow> 0 \<le> d \<Longrightarrow> d \<le> hi - lo \<Longrightarrow> pick lo hi d = lo + d"
begin

definition draw_ok :: "int \<Rightarrow> int \<Rightarrow> int \<Rightarrow> bool" where
  "draw_ok lo hi d \<longleftrightarrow> 0 \<le> d \<and> (lo < hi \<longrightarrow> d \<le> hi - lo)"

lemma in_range: "room lo hi \<Longrightarrow> draw_ok lo hi d \<Longrightarrow> lo \<le> pick lo hi d \<and> pick lo hi d \<le> max lo hi"
  by (cases "lo < hi") (auto simp: draw_ok_def shift empty)

lemma reaches: "room lo hi \<Longrightarrow> lo \<le> x \<Longrightarrow> x \<le> hi \<Longrightarrow> \<exists>d. draw_ok lo hi d \<and> pick lo hi d = x"
proof (cases "lo < hi")
  case True
  assume "room lo hi" "lo \<le> x" "x \<le> hi"
  with True have "draw_ok lo hi (x - lo) \<and> pick lo hi (x - lo) = x" by (simp add: draw_ok_def shift)
  then show ?thesis by blast
next
  case False
  assume "room lo hi" "lo \<le> x" "x \<le> hi"
  with False have "draw_ok lo hi 0 \<and> pick lo hi 0 = x" by (simp add: draw_ok_def empty)
  then show ?thesis by blast
qed

end

end
