(* ===== verification/Download_Buffer.thy ===== *)
theory Download_Buffer
  imports Interfaces
begin

text \<open>
  Model of \<open>internal/session/download_buffer.go\<close>: the bounded sliding-window buffer a
  session's download direction writes into and the GET handler reads from by absolute
  offset. Every exported method runs under the buffer's mutex, so each is one atomic
  function of the state. The \<open>notify\<close> channel of capacity one is the boolean
  \<open>notify\<close> (a token is waiting or not). Slices are modelled by their content; the
  three ways \<open>compactLocked\<close> releases memory differ in capacity only, which Go's \<open>cap\<close>
  would show and no other operation of the buffer reads.
\<close>

section \<open>State and operations\<close>

record download_buffer =
  buf :: bytes
  discarded :: int
  delivered :: int
  maxRetain :: int
  is_done :: bool
  notify :: bool

datatype session_err = ErrSessionClosed | ErrOffsetTooOld

definition DefaultDownloadBufferBytes :: int where
  "DefaultDownloadBufferBytes = 4 * 1024 * 1024"

definition NewDownloadBufferSized :: "int \<Rightarrow> download_buffer" where
  "NewDownloadBufferSized n =
     \<lparr>buf = [], discarded = 0, delivered = 0,
      maxRetain = (if n \<le> 0 then DefaultDownloadBufferBytes else n),
      is_done = False, notify = False\<rparr>"

definition NewDownloadBuffer :: download_buffer where
  "NewDownloadBuffer = NewDownloadBufferSized DefaultDownloadBufferBytes"

definition compactLocked :: "download_buffer \<Rightarrow> download_buffer" where
  "compactLocked db =
     (if delivered db \<le> discarded db then db
      else let dropTo = delivered db - maxRetain db in
        if dropTo \<le> discarded db then db
        else let d = dropTo - discarded db in
          if d \<le> 0 \<or> int (length (buf db)) < d then db
          else db\<lparr>buf := drop (nat d) (buf db), discarded := dropTo\<rparr>)"

definition Write :: "bytes \<Rightarrow> download_buffer \<Rightarrow> (session_err + int) \<times> download_buffer" where
  "Write p db =
     (if is_done db then (Inl ErrSessionClosed, db)
      else let db1 = db\<lparr>buf := buf db @ p\<rparr>;
               db2 = (if wrap64 (2 * maxRetain db1) < int (length (buf db1))
                      then compactLocked db1 else db1)
           in (Inr (int (length p)), db2\<lparr>notify := True\<rparr>))"

definition Advance :: "int \<Rightarrow> download_buffer \<Rightarrow> download_buffer" where
  "Advance off db =
     (let end = discarded db + int (length (buf db));
          off' = (if end < off then end else off)
      in if off' \<le> delivered db then db
         else compactLocked (db\<lparr>delivered := off'\<rparr>))"

definition Close :: "download_buffer \<Rightarrow> download_buffer" where
  "Close db = db\<lparr>is_done := True, notify := True\<rparr>"

text \<open>
  \<open>ReadFrom\<close> returns the bytes copied into the caller's buffer of \<open>plen\<close> bytes, the new
  absolute offset and the error, which is \<open>None\<close> when there is simply no data yet.
\<close>

definition ReadFrom :: "int \<Rightarrow> nat \<Rightarrow> download_buffer \<Rightarrow> bytes \<times> int \<times> session_err option" where
  "ReadFrom offset plen db =
     (if offset < discarded db then ([], offset, Some ErrOffsetTooOld)
      else let loc = offset - discarded db in
        if int (length (buf db)) \<le> loc
        then (if is_done db then ([], offset, Some ErrSessionClosed) else ([], offset, None))
        else let data = take plen (drop (nat loc) (buf db))
             in (data, offset + int (length data), None))"

definition Len :: "download_buffer \<Rightarrow> int" where
  "Len db = int (length (buf db))"

definition IsDone :: "download_buffer \<Rightarrow> bool" where
  "IsDone db = is_done db"

text \<open>Receiving from \<open>Notify()\<close>: the token is consumed, or the receiver keeps waiting.\<close>

definition recv_notify :: "download_buffer \<Rightarrow> (unit \<times> download_buffer) option" where
  "recv_notify db = (if notify db then Some ((), db\<lparr>notify := False\<rparr>) else None)"

lemmas db_defs [step_defs] =
  Write_def Advance_def Close_def ReadFrom_def recv_notify_def compactLocked_def

section \<open>Invariant\<close>

text \<open>The absolute offset one past the last byte written.\<close>

definition end_off :: "download_buffer \<Rightarrow> int" where
  "end_off db = discarded db + int (length (buf db))"

definition db_inv :: "download_buffer \<Rightarrow> bool" where
  "db_inv db \<longleftrightarrow> 0 \<le> discarded db \<and> 0 < maxRetain db \<and> 0 \<le> delivered db \<and>
     delivered db \<le> end_off db \<and> discarded db \<le> max 0 (delivered db - maxRetain db)"

lemma compactLocked_fields [simp]:
  "delivered (compactLocked db) = delivered db"
  "maxRetain (compactLocked db) = maxRetain db"
  "is_done (compactLocked db) = is_done db"
  "notify (compactLocked db) = notify db"
  "end_off (compactLocked db) = end_off db"
  by (auto simp: compactLocked_def Let_def end_off_def)

lemma compactLocked_discarded:
  "db_inv db \<Longrightarrow>
   discarded (compactLocked db) = max (discarded db) (delivered db - maxRetain db)"
  by (auto simp: compactLocked_def Let_def db_inv_def end_off_def)

lemma compactLocked_inv: "db_inv db \<Longrightarrow> db_inv (compactLocked db)"
  using compactLocked_discarded [of db] by (auto simp: db_inv_def max_def split: if_splits)

lemma New_inv: "db_inv (NewDownloadBufferSized n)"
  by (auto simp: db_inv_def NewDownloadBufferSized_def DefaultDownloadBufferBytes_def end_off_def)

lemma db_inv_notify [simp]:
  "db_inv (db\<lparr>notify := b\<rparr>) = db_inv db" "db_inv (db\<lparr>is_done := c\<rparr>) = db_inv db"
  by (simp_all add: db_inv_def end_off_def)

lemma Write_inv: "db_inv db \<Longrightarrow> db_inv (snd (Write p db))"
proof -
  assume inv: "db_inv db"
  then have "db_inv (db\<lparr>buf := buf db @ p\<rparr>)" by (simp add: db_inv_def end_off_def)
  then show ?thesis using inv by (simp add: Write_def Let_def compactLocked_inv)
qed

lemma Advance_inv: "db_inv db \<Longrightarrow> db_inv (Advance off db)"
proof (cases "min off (end_off db) \<le> delivered db")
  case True
  then show "db_inv db \<Longrightarrow> db_inv (Advance off db)"
    by (auto simp: Advance_def Let_def end_off_def)
next
  case False
  moreover assume "db_inv db"
  ultimately have "db_inv (db\<lparr>delivered := min off (end_off db)\<rparr>)"
    by (auto simp: db_inv_def end_off_def)
  then have "db_inv (compactLocked (db\<lparr>delivered := min off (end_off db)\<rparr>))"
    by (rule compactLocked_inv)
  with False show "db_inv (Advance off db)"
    by (auto simp: Advance_def Let_def end_off_def min_def split: if_splits)
qed

lemma Close_inv: "db_inv db \<Longrightarrow> db_inv (Close db)"
  by (simp add: Close_def)

section \<open>Abstract contents\<close>

text \<open>
  \<open>represents db W\<close>: \<open>W\<close> is everything ever written, the buffer holds its part from
  \<open>discarded\<close> on.
\<close>

definition represents :: "download_buffer \<Rightarrow> bytes \<Rightarrow> bool" where
  "represents db W \<longleftrightarrow> db_inv db \<and> discarded db \<le> int (length W) \<and>
     buf db = drop (nat (discarded db)) W"

lemma represents_end: "represents db W \<Longrightarrow> end_off db = int (length W)"
  by (auto simp: represents_def end_off_def db_inv_def)

lemma represents_inv: "represents db W \<Longrightarrow> db_inv db"
  by (simp add: represents_def)

lemma New_represents: "represents (NewDownloadBufferSized n) []"
  using New_inv by (simp add: represents_def NewDownloadBufferSized_def)

lemma compactLocked_represents: "represents db W \<Longrightarrow> represents (compactLocked db) W"
proof -
  assume R: "represents db W"
  then have inv: "db_inv (compactLocked db)" by (simp add: represents_def compactLocked_inv)
  have "nat (dropTo - discarded db) + nat (discarded db) = nat dropTo"
    if "discarded db < dropTo" for dropTo
    using that R by (simp add: represents_def db_inv_def)
  with R inv show ?thesis
    by (auto simp: represents_def compactLocked_def Let_def db_inv_def end_off_def)
qed

lemma Write_represents:
  assumes "represents db W" and "\<not> is_done db"
  shows "represents (snd (Write p db)) (W @ p)"
proof -
  have "represents (db\<lparr>buf := buf db @ p\<rparr>) (W @ p)"
    using assms by (auto simp: represents_def db_inv_def end_off_def)
  moreover have "represents (d\<lparr>notify := b\<rparr>) V = represents d V" for d b V
    by (simp add: represents_def)
  ultimately show ?thesis
    using assms(2) by (simp add: Write_def Let_def compactLocked_represents)
qed

lemma Write_closed: "is_done db \<Longrightarrow> Write p db = (Inl ErrSessionClosed, db)"
  by (simp add: Write_def)

lemma Advance_represents: "represents db W \<Longrightarrow> represents (Advance off db) W"
proof -
  assume R: "represents db W"
  let ?o = "min off (end_off db)"
  show ?thesis
  proof (cases "?o \<le> delivered db")
    case True
    with R show ?thesis by (auto simp: Advance_def Let_def end_off_def min_def split: if_splits)
  next
    case False
    with R have "represents (db\<lparr>delivered := ?o\<rparr>) W"
      by (auto simp: represents_def db_inv_def end_off_def)
    then have "represents (compactLocked (db\<lparr>delivered := ?o\<rparr>)) W"
      by (rule compactLocked_represents)
    with False show ?thesis
      by (auto simp: Advance_def Let_def end_off_def min_def split: if_splits)
  qed
qed

lemma Close_represents: "represents db W \<Longrightarrow> represents (Close db) W"
  by (simp add: represents_def Close_def)

lemma ReadFrom_represents:
  assumes "represents db W" and "discarded db \<le> off"
  shows "fst (ReadFrom off n db) = take n (drop (nat off) W)"
proof -
  have "nat (off - discarded db) + nat (discarded db) = nat off"
    using assms by (simp add: represents_def db_inv_def)
  then show ?thesis
    using assms by (auto simp: ReadFrom_def Let_def represents_def db_inv_def)
qed

lemma Write_fields:
  "maxRetain (snd (Write p db)) = maxRetain db"
  "delivered (snd (Write p db)) = delivered db"
  "is_done (snd (Write p db)) = is_done db"
  by (simp_all add: Write_def Let_def)

lemma Advance_fields:
  "maxRetain (Advance off db) = maxRetain db"
  "is_done (Advance off db) = is_done db"
  by (simp_all add: Advance_def Let_def)

lemma Advance_delivered:
  "delivered (Advance off db) = max (delivered db) (min off (end_off db))"
  by (auto simp: Advance_def Let_def end_off_def)

lemma ReadFrom_offset:
  "ReadFrom off n db = (data, off', e) \<Longrightarrow> off' = off + int (length data)"
  by (auto simp: ReadFrom_def Let_def split: if_splits)

lemma discarded_window: "db_inv db \<Longrightarrow> discarded db \<le> max 0 (delivered db - maxRetain db)"
  by (simp add: db_inv_def)

interpretation db: replay_buffer Write Advance ReadFrom represents is_done discarded
proof (unfold_locales, goal_cases)
  case (1 b W p)
  then show ?case by (rule Write_represents)
next
  case (2 b p)
  then show ?case by (simp add: Write_closed)
next
  case (3 b W off)
  then show ?case by (rule Advance_represents)
next
  case (4 b W off n)
  then show ?case by (rule ReadFrom_represents)
next
  case (5 off b n)
  then show ?case by (simp add: ReadFrom_def)
next
  case (6 off n b)
  then show ?case by (simp add: ReadFrom_def Let_def)
next
  case (7 b W)
  then show ?case by (simp add: represents_def db_inv_def)
qed

lemma ReadFrom_in_window:
  assumes "represents db W" and "delivered db - maxRetain db \<le> off" and "0 \<le> off"
    and "off < int (length W)"
  shows "ReadFrom off n db =
    (take n (drop (nat off) W), off + int (min n (length W - nat off)), None)"
proof -
  have fl: "discarded db \<le> off"
    using assms(2,3) discarded_window [OF represents_inv [OF assms(1)]] by linarith
  have "end_off db = int (length W)" using assms(1) by (rule represents_end)
  with fl assms(4) have "snd (snd (ReadFrom off n db)) = None"
    by (auto simp: ReadFrom_def Let_def end_off_def)
  moreover have "fst (ReadFrom off n db) = take n (drop (nat off) W)"
    using assms(1) fl by (rule ReadFrom_represents)
  ultimately show ?thesis
    using ReadFrom_offset [of off n db] by (cases "ReadFrom off n db") (auto simp: min_def)
qed

section \<open>Properties\<close>



text \<open>
  Memory bound. Once the reader has acknowledged everything written, the buffer keeps
  at most the replay window; in general it keeps at most the window plus the bytes not yet
  acknowledged, whatever the history.
\<close>

theorem advance_memory_bound:
  assumes "db_inv db" and "delivered db < off"  and "delivered db < end_off db"
  shows "Len (Advance off db) \<le>
    maxRetain db + (end_off db - delivered (Advance off db))"
proof -
  let ?db = "db\<lparr>delivered := min off (end_off db)\<rparr>"
  have inv: "db_inv ?db" using assms by (auto simp: db_inv_def end_off_def)
  have "Advance off db = compactLocked ?db"
    using assms by (auto simp: Advance_def Let_def end_off_def min_def)
  moreover have "end_off (compactLocked ?db) = end_off db"
    using compactLocked_fields(5) [of ?db] by (simp only: end_off_def) simp
  ultimately show ?thesis
    using compactLocked_discarded [OF inv] by (auto simp: Len_def end_off_def)
qed

theorem advance_memory_bound_witness:
  "Len (Advance 3 (snd (Write [1, 2, 3] (NewDownloadBufferSized 1)))) \<le> 1"
proof -
  let ?db = "snd (Write [1, 2, 3] (NewDownloadBufferSized 1))"
  have d: "delivered ?db = 0" "maxRetain ?db = 1" by (simp_all add: Write_fields NewDownloadBufferSized_def)
  have e: "end_off ?db = 3"
    by (simp add: Write_def Let_def NewDownloadBufferSized_def end_off_def wrap64_def compactLocked_def)
  show ?thesis
    using advance_memory_bound [of ?db 3] Write_inv [OF New_inv] d e
    by (simp add: Advance_delivered)
qed

text \<open>
  A writer that is never acknowledged loses nothing: as long as no \<open>Advance\<close> moved the
  watermark off zero, \<open>Write\<close> discards no byte, so every offset stays readable.
\<close>

theorem write_keeps_unacknowledged:
  assumes "represents db W" and "delivered db = 0" and "\<not> is_done db"
  shows "discarded (snd (Write p db)) = 0 \<and> buf (snd (Write p db)) = W @ p"
proof -
  have R: "represents (snd (Write p db)) (W @ p)" using assms by (simp add: Write_represents)
  then have "db_inv (snd (Write p db))" by (rule represents_inv)
  then have "discarded (snd (Write p db)) = 0"
    using discarded_window [of "snd (Write p db)"] assms(2)
    by (auto simp: Write_fields db_inv_def)
  with R show ?thesis by (simp add: represents_def)
qed

theorem write_keeps_unacknowledged_witness:
  "buf (snd (Write [9, 9, 9] (NewDownloadBufferSized 1))) = [9, 9, 9]"
  using write_keeps_unacknowledged [OF New_represents [of 1], of "[9, 9, 9]"]
  by (simp add: NewDownloadBufferSized_def)

end
