(* ===== verification/Session.thy ===== *)
theory Session
  imports Download_Buffer
begin

text \<open>
  Model of \<open>internal/session/manager.go\<close>: a tunnel session (upload reassembly queue,
  stream-up pipe, download buffer, life-cycle flags) and the manager's table of sessions
  with its time-to-live sweep. Each method body between \<open>Lock\<close> and \<open>Unlock\<close> is one
  function of the state; a call that blocks has a result saying so (\<open>UWait\<close>, \<open>PBlock\<close>)
  and leaves the state as it is. A Go channel that is only ever closed is a boolean. The
  \<open>sync.Once\<close> guards of \<open>MarkConnected\<close> and \<open>Close\<close> have fired exactly when their channel
  is closed. Sessions are shared by reference, so the manager keeps them in a heap (a list
  indexed by reference) and its table maps an id to a reference.
\<close>

section \<open>io.Pipe\<close>

text \<open>
  The synchronous in-memory pipe of package \<open>io\<close>: a \<open>Write\<close> in progress (\<open>pend\<close>) is
  handed to readers until it is used up; closing either end makes every later read fail,
  with \<open>EOF\<close> when only the writer closed.
\<close>

record pipe =
  pend :: "bytes option"
  wclosed :: bool
  rclosed :: bool

datatype pipe_result = PData bytes | PErr io_err | PBlock

definition new_pipe :: pipe where
  "new_pipe = \<lparr>pend = None, wclosed = False, rclosed = False\<rparr>"

definition pipe_write :: "bytes \<Rightarrow> pipe \<Rightarrow> pipe_result \<times> pipe" where
  "pipe_write d p =
     (if wclosed p \<or> rclosed p then (PErr ErrClosedPipe, p)
      else if pend p \<noteq> None then (PBlock, p)
      else (PData d, p\<lparr>pend := Some d\<rparr>))"

definition pipe_read :: "nat \<Rightarrow> pipe \<Rightarrow> pipe_result \<times> pipe" where
  "pipe_read n p =
     (if wclosed p \<or> rclosed p then (PErr (if rclosed p then ErrClosedPipe else EOF), p)
      else case pend p of None \<Rightarrow> (PBlock, p)
        | Some d \<Rightarrow> (PData (take n d), p\<lparr>pend := (if drop n d = [] then None else Some (drop n d))\<rparr>))"

section \<open>Session\<close>

type_synonym sid = bytes

record session =
  sess_id :: sid
  created_at :: int
  upload_buf :: "(int \<rightharpoonup> bytes) option"
  next_seq :: int
  upload_done :: bool
  stream_pipe :: "pipe option"
  stream_mode :: bool
  download_buf :: download_buffer
  has_upload :: bool
  has_download :: bool
  accepted :: bool
  connected :: bool
  closed :: bool

definition NewSessionWithDownloadBuf :: "sid \<Rightarrow> int \<Rightarrow> int \<Rightarrow> session" where
  "NewSessionWithDownloadBuf i downloadBufferBytes now =
     \<lparr>sess_id = i, created_at = now, upload_buf = Some Map.empty, next_seq = 0,
      upload_done = False, stream_pipe = None, stream_mode = False,
      download_buf = NewDownloadBufferSized downloadBufferBytes,
      has_upload = False, has_download = False, accepted = False,
      connected = False, closed = False\<rparr>"

definition NewSession :: "sid \<Rightarrow> int \<Rightarrow> session" where
  "NewSession i now = NewSessionWithDownloadBuf i DefaultDownloadBufferBytes now"

text \<open>
  The upload map is \<open>None\<close> when it is Go's nil map; storing into a nil map panics, which is
  the result \<open>None\<close> of \<open>PushUpload\<close>.
\<close>

definition PushUpload :: "int \<Rightarrow> bytes \<Rightarrow> session \<Rightarrow> session option" where
  "PushUpload sq data s =
     (if upload_done s then Some s
      else case upload_buf s of None \<Rightarrow> None
        | Some m \<Rightarrow> Some (s\<lparr>upload_buf := Some (m(sq \<mapsto> data))\<rparr>))"

datatype upload_result = UChunk bytes | UStop | UWait

definition lookup_upload :: "session \<Rightarrow> int \<Rightarrow> bytes option" where
  "lookup_upload s i = (case upload_buf s of None \<Rightarrow> None | Some m \<Rightarrow> m i)"

definition ReadUpload :: "session \<Rightarrow> upload_result \<times> session" where
  "ReadUpload s =
     (if stream_mode s then (UStop, s)
      else if upload_done s then (UStop, s)
      else case lookup_upload s (next_seq s) of
          Some data \<Rightarrow> (UChunk data,
            s\<lparr>upload_buf := map_option (\<lambda>m. m(next_seq s := None)) (upload_buf s),
              next_seq := wrap64 (next_seq s + 1)\<rparr>)
        | None \<Rightarrow> (UWait, s))"

definition MarkConnected :: "session \<Rightarrow> session" where
  "MarkConnected s = s\<lparr>connected := True\<rparr>"

text \<open>
  \<open>WaitConnected\<close> selects between two channels; when both are closed Go picks either, so
  it has a set of results, empty while it blocks.
\<close>

definition WaitConnected :: "session \<Rightarrow> bool set" where
  "WaitConnected s = (if connected s then {True} else {}) \<union> (if closed s then {False} else {})"

definition SessionClose :: "session \<Rightarrow> session" where
  "SessionClose s =
     (if closed s then s
      else s\<lparr>closed := True, upload_done := True, upload_buf := None,
             stream_pipe := map_option (\<lambda>p. p\<lparr>wclosed := True, rclosed := True\<rparr>) (stream_pipe s),
             download_buf := Close (download_buf s)\<rparr>)"

definition IsStreamMode :: "session \<Rightarrow> bool" where
  "IsStreamMode s = stream_mode s"

definition ensureStreamPipe :: "session \<Rightarrow> session" where
  "ensureStreamPipe s =
     (if stream_pipe s = None then s\<lparr>stream_pipe := Some new_pipe, stream_mode := True\<rparr> else s)"

definition StreamUploadWriter :: "session \<Rightarrow> pipe option \<times> session" where
  "StreamUploadWriter s = (let s' = ensureStreamPipe s in (stream_pipe s', s'))"

definition StreamReader :: "session \<Rightarrow> pipe option \<times> session" where
  "StreamReader s = (let s' = ensureStreamPipe s in (stream_pipe s', s'))"

definition CloseStreamUpload :: "session \<Rightarrow> session" where
  "CloseStreamUpload s = s\<lparr>stream_pipe := map_option (\<lambda>p. p\<lparr>wclosed := True\<rparr>) (stream_pipe s)\<rparr>"

definition IsClosed :: "session \<Rightarrow> bool" where
  "IsClosed s = closed s"

lemmas session_defs [step_defs] =
  PushUpload_def ReadUpload_def MarkConnected_def SessionClose_def ensureStreamPipe_def
  StreamUploadWriter_def StreamReader_def CloseStreamUpload_def

section \<open>Invariant of a session\<close>

definition session_inv :: "session \<Rightarrow> bool" where
  "session_inv s \<longleftrightarrow> (upload_buf s = None \<longrightarrow> upload_done s) \<and> (upload_done s \<longleftrightarrow> closed s) \<and>
     (stream_mode s \<longleftrightarrow> stream_pipe s \<noteq> None) \<and> (closed s \<longrightarrow> is_done (download_buf s)) \<and>
     db_inv (download_buf s)"

lemma session_inv_new: "session_inv (NewSessionWithDownloadBuf i n now)"
  using New_inv by (simp add: session_inv_def NewSessionWithDownloadBuf_def)

lemma session_inv_steps:
  assumes "session_inv s"
  shows "PushUpload sq data s = Some s' \<Longrightarrow> session_inv s'"
    and "session_inv (snd (ReadUpload s))"
    and "session_inv (MarkConnected s)"
    and "session_inv (SessionClose s)"
    and "session_inv (ensureStreamPipe s)"
    and "session_inv (CloseStreamUpload s)"
    and "session_inv (s\<lparr>download_buf := snd (Write p (download_buf s))\<rparr>)"
    and "session_inv (s\<lparr>download_buf := Advance off (download_buf s)\<rparr>)"
  using assms
  by (auto simp: session_inv_def Let_def Write_fields Advance_fields
      Write_inv Advance_inv Close_inv Close_def session_defs split: if_splits option.splits)

text \<open>Absence of the nil-map panic: \<open>PushUpload\<close> always returns, after a close too.\<close>

lemma PushUpload_no_panic: "session_inv s \<Longrightarrow> \<exists>s'. PushUpload sq data s = Some s'"
  by (auto simp: PushUpload_def session_inv_def split: option.splits)

section \<open>The upload queue as a reassembly queue\<close>

definition push_seq :: "int \<Rightarrow> bytes \<Rightarrow> session \<Rightarrow> session" where
  "push_seq i d s = (case PushUpload i d s of Some s' \<Rightarrow> s' | None \<Rightarrow> s)"

definition pop_seq :: "session \<Rightarrow> (bytes \<times> session) option" where
  "pop_seq s = (case ReadUpload s of (UChunk d, s') \<Rightarrow> Some (d, s') | _ \<Rightarrow> None)"

definition packet_live :: "session \<Rightarrow> bool" where
  "packet_live s \<longleftrightarrow> session_inv s \<and> \<not> closed s \<and> \<not> stream_mode s \<and> - (2 ^ 63) \<le> next_seq s"

lemma packet_liveD:
  "packet_live s \<Longrightarrow> \<exists>m. upload_buf s = Some m \<and> \<not> upload_done s \<and> \<not> stream_mode s"
  by (auto simp: packet_live_def session_inv_def)

interpretation uq: reassembly push_seq pop_seq lookup_upload next_seq packet_live "2 ^ 63 - 1"
proof (unfold_locales, goal_cases)
  case (1 q i d)
  then show ?case
    by (auto dest!: packet_liveD simp: push_seq_def PushUpload_def lookup_upload_def fun_eq_iff)
next
  case (2 q i d)
  then show ?case by (auto dest!: packet_liveD simp: push_seq_def PushUpload_def)
next
  case (3 q i d)
  then show ?case
    by (auto dest: packet_liveD simp: packet_live_def session_inv_def push_seq_def PushUpload_def split: option.splits)
next
  case (4 q d)
  then have w: "wrap64 (next_seq q + 1) = next_seq q + 1" by (simp add: packet_live_def)
  show ?case using 4 packet_liveD [OF 4(1)] session_inv_steps(2) [of q]
    by (auto simp: pop_seq_def ReadUpload_def lookup_upload_def w packet_live_def fun_eq_iff)
next
  case (5 q)
  then show ?case by (auto dest!: packet_liveD simp: pop_seq_def ReadUpload_def)
qed

lemma packet_live_new: "packet_live (NewSessionWithDownloadBuf i n now)"
  using session_inv_new [of i n now] by (simp add: packet_live_def NewSessionWithDownloadBuf_def)

lemma new_queue:
  "next_seq (NewSessionWithDownloadBuf i n now) = 0"
  "lookup_upload (NewSessionWithDownloadBuf i n now) = Map.empty"
  by (simp_all add: NewSessionWithDownloadBuf_def lookup_upload_def fun_eq_iff)

text \<open>
  A schedule of the server's upload side: \<open>Some i\<close> is the arrival of the POST carrying chunk
  \<open>i\<close>, \<open>None\<close> an attempt of the relay to read the next chunk.
\<close>

fun upload_run :: "(int \<Rightarrow> bytes) \<Rightarrow> int option list \<Rightarrow> session \<Rightarrow> bytes list \<Rightarrow> session \<times> bytes list" where
  "upload_run chunk [] s out = (s, out)"
| "upload_run chunk (Some i # es) s out = upload_run chunk es (push_seq i (chunk i) s) out"
| "upload_run chunk (None # es) s out =
     (case pop_seq s of None \<Rightarrow> upload_run chunk es s out
      | Some (d, s') \<Rightarrow> upload_run chunk es s' (out @ [d]))"

lemma upload_run_follows:
  assumes "uq.run chunk s out" and "next_seq s + int (length es) \<le> 2 ^ 63 - 1"
  shows "uq.run chunk (fst (upload_run chunk es s out)) (snd (upload_run chunk es s out))"
  using assms
proof (induction chunk es s out rule: upload_run.induct)
  case (1 chunk s out)
  then show ?case by simp
next
  case (2 chunk i es s out)
  from "2.prems" have "packet_live s" using uq.run_inv by blast
  with "2.prems"(2) have "next_seq (push_seq i (chunk i) s) + int (length es) \<le> 2 ^ 63 - 1"
    by (simp add: uq.push_nxt)
  then show ?case using "2.IH" uq.pushed "2.prems"(1) by simp
next
  case (3 chunk es s out)
  from "3.prems"(1) have live: "packet_live s" by (rule uq.run_inv [THEN conjunct1])
  show ?case
  proof (cases "pop_seq s")
    case None
    then show ?thesis using "3.IH"(1) "3.prems" by simp
  next
    case (Some p)
    then obtain d s' where p: "pop_seq s = Some (d, s')" by (cases p) auto
    with live "3.prems"(2) obtain d' where "lookup_upload s (next_seq s) = Some d'"
      using uq.pop_None by fastforce
    with uq.pop_Some [OF live _ this] p "3.prems"(2) have "next_seq s' = next_seq s + 1" by auto
    then show ?thesis
      using "3.IH"(2) [OF p refl] uq.popped [OF "3.prems"(1) _ p] "3.prems"(2) p by simp
  qed
qed

lemma upload_run_pushes:
  "upload_run chunk (map Some is @ es) s out =
   upload_run chunk es (uq.push_all (map (\<lambda>i. (i, chunk i)) is) s) out"
  by (induction "is" arbitrary: s) (simp_all add: uq.push_all_def)

lemma upload_run_idle: "pop_seq s = None \<Longrightarrow> upload_run chunk (replicate n None) s out = (s, out)"
  by (induction n) simp_all

lemma upload_run_pops: "snd (upload_run chunk (replicate n None) s out) = out @ uq.pops n s"
  by (induction n arbitrary: s out) (auto simp: upload_run_idle split: option.splits)

section \<open>Properties of the upload direction\<close>

text \<open>
  C9. Upload order. However the POSTs of a packet-up session arrive (any order, duplicated,
  with reads attempted in between), the chunks handed to the relay are chunk 0, chunk 1, ...
  of the sender in order: nothing is skipped, reordered or delivered twice.
\<close>

theorem upload_in_order:
  assumes "int (length es) < 2 ^ 63"
  shows "\<exists>k. snd (upload_run chunk es (NewSessionWithDownloadBuf i n now) []) =
    map (chunk \<circ> int) [0..<k]"
proof -
  have "uq.run chunk (NewSessionWithDownloadBuf i n now) []"
    by (rule uq.start [OF packet_live_new new_queue])
  then have "uq.run chunk (fst (upload_run chunk es (NewSessionWithDownloadBuf i n now) []))
      (snd (upload_run chunk es (NewSessionWithDownloadBuf i n now) []))"
    by (rule upload_run_follows) (use assms in \<open>simp add: new_queue\<close>)
  from uq.run_inv [OF this] show ?thesis by blast
qed

theorem upload_in_order_witness:
  "\<exists>k. snd (upload_run (\<lambda>i. [word_of_int i]) [Some 2, None, Some 0, Some 0, None, Some 1, None, None]
     (NewSessionWithDownloadBuf [] 0 0) []) = map ((\<lambda>i. [word_of_int i :: byte]) \<circ> int) [0..<k]"
  by (rule upload_in_order) simp

text \<open>
  C10. Upload completeness. If every chunk below \<open>k\<close> has arrived (in any order, with any
  repetitions, and whatever other chunks of the stream came too), \<open>k\<close> reads return exactly
  chunks 0 to \<open>k - 1\<close>: the relay gets the whole stream, without waiting.
\<close>

theorem upload_complete:
  assumes "\<forall>i < k. int i \<in> set arrivals" and "int k < 2 ^ 63"
  shows "snd (upload_run chunk (map Some arrivals @ replicate k None)
    (NewSessionWithDownloadBuf sid n now) []) = map (chunk \<circ> int) [0..<k]"
proof -
  let ?s = "NewSessionWithDownloadBuf sid n now"
  let ?t = "uq.push_all (map (\<lambda>i. (i, chunk i)) arrivals) ?s"
  note laws = uq.push_all_laws [OF packet_live_new, of "map (\<lambda>i. (i, chunk i)) arrivals" sid n now]
  have "lookup_upload ?t (int i) = Some (chunk (int i))" if "i < k" for i
    using laws that assms(1)
    by (simp add: new_queue rev_map map_of_map_restrict)
  then show ?thesis
    using uq.pops_all [of ?t k chunk] laws assms(2)
    by (simp add: new_queue o_def upload_run_pushes upload_run_pops)
qed

theorem upload_complete_witness:
  "snd (upload_run (\<lambda>i. [word_of_int i]) (map Some [1, 0, 1] @ replicate 2 None)
     (NewSessionWithDownloadBuf [] 0 0) []) = [[0 :: byte], [1]]"
  using upload_complete [of 2 "[1, 0, 1]" "\<lambda>i. [word_of_int i]" "[]" 0 0]
  by (simp add: upt_rec less_2_cases_iff)

text \<open>
  Safety after close. On any session reached by the operations, a late \<open>PushUpload\<close> never
  panics on the released map and changes nothing, a reader gets the stop result instead of
  waiting, a download write reports the closed session, and a second \<open>Close\<close> does nothing.
\<close>

theorem closed_session_safe:
  assumes "session_inv s"
  shows "PushUpload sq data (SessionClose s) = Some (SessionClose s) \<and>
    ReadUpload (SessionClose s) = (UStop, SessionClose s) \<and>
    fst (Write p (download_buf (SessionClose s))) = Inl ErrSessionClosed \<and>
    SessionClose (SessionClose s) = SessionClose s"
proof -
  have "session_inv (SessionClose s)" and c: "closed (SessionClose s)"
    using session_inv_steps(4) [OF assms] by (auto simp: SessionClose_def)
  then have "upload_done (SessionClose s)" and "is_done (download_buf (SessionClose s))"
    by (simp_all add: session_inv_def)
  with c show ?thesis
    by (simp add: PushUpload_def ReadUpload_def Write_closed)
      (simp add: SessionClose_def)
qed

theorem closed_session_safe_witness:
  "PushUpload 3 [1] (SessionClose (NewSession [] 0)) = Some (SessionClose (NewSession [] 0))"
  using closed_session_safe [OF session_inv_new [of "[]" DefaultDownloadBufferBytes 0]]
  by (simp add: NewSession_def)

section \<open>Manager\<close>

record manager =
  heap :: "session list"
  sessions :: "(sid \<times> nat) list"
  ttl :: int
  DownloadBufferBytes :: int

definition NewManager :: "int \<Rightarrow> manager" where
  "NewManager t = \<lparr>heap = [], sessions = [], ttl = t, DownloadBufferBytes = 0\<rparr>"

definition GetOrCreate :: "int \<Rightarrow> sid \<Rightarrow> manager \<Rightarrow> nat \<times> manager" where
  "GetOrCreate now i m =
     (case map_of (sessions m) i of Some r \<Rightarrow> (r, m)
      | None \<Rightarrow> let r = length (heap m);
                    s = NewSessionWithDownloadBuf i (DownloadBufferBytes m) now
                in (r, m\<lparr>heap := heap m @ [s], sessions := AList.update i r (sessions m)\<rparr>))"

definition Get :: "sid \<Rightarrow> manager \<Rightarrow> nat option" where
  "Get i m = map_of (sessions m) i"

definition Remove :: "sid \<Rightarrow> manager \<Rightarrow> manager" where
  "Remove i m =
     (case map_of (sessions m) i of None \<Rightarrow> m
      | Some r \<Rightarrow> m\<lparr>heap := (heap m)[r := SessionClose (heap m ! r)],
                     sessions := AList.delete i (sessions m)\<rparr>)"

definition Count :: "manager \<Rightarrow> int" where
  "Count m = int (length (sessions m))"

text \<open>One tick of \<open>cleanupLoop\<close>: the range over the map, one entry after the other.\<close>

definition cleanup_entry :: "int \<Rightarrow> sid \<times> nat \<Rightarrow> manager \<Rightarrow> manager" where
  "cleanup_entry now e m =
     (let (i, r) = e; s = heap m ! r in
        if connected s
        then (if IsClosed s then m\<lparr>sessions := AList.delete i (sessions m)\<rparr> else m)
        else if ttl m < now - created_at s
        then m\<lparr>heap := (heap m)[r := SessionClose s], sessions := AList.delete i (sessions m)\<rparr>
        else m)"

definition cleanup :: "int \<Rightarrow> manager \<Rightarrow> manager" where
  "cleanup now m = fold (cleanup_entry now) (sessions m) m"

lemmas manager_defs [step_defs] = GetOrCreate_def Remove_def cleanup_entry_def cleanup_def

definition manager_inv :: "manager \<Rightarrow> bool" where
  "manager_inv m \<longleftrightarrow> distinct (map fst (sessions m)) \<and>
     (\<forall>(i, r) \<in> set (sessions m). r < length (heap m) \<and> sess_id (heap m ! r) = i) \<and>
     list_all session_inv (heap m)"

lemma manager_inv_new: "manager_inv (NewManager t)"
  by (simp add: manager_inv_def NewManager_def)

lemma manager_inv_lookup:
  "manager_inv m \<Longrightarrow> map_of (sessions m) i = Some r \<Longrightarrow>
     r < length (heap m) \<and> sess_id (heap m ! r) = i \<and> session_inv (heap m ! r)"
  by (auto simp: manager_inv_def list_all_length dest!: map_of_SomeD)

lemma SessionClose_id [simp]:
  "sess_id (SessionClose s) = sess_id s" "closed (SessionClose s)"
  "accepted (SessionClose s) = accepted s"
  "connected (SessionClose s) = connected s" "created_at (SessionClose s) = created_at s"
  by (auto simp: SessionClose_def)

lemma manager_inv_update:
  assumes "manager_inv m" and "session_inv (f (heap m ! r))" and "sess_id (f (heap m ! r)) = sess_id (heap m ! r)"
  shows "manager_inv (m\<lparr>heap := (heap m)[r := f (heap m ! r)]\<rparr>)"
  using assms
  by (cases "r < length (heap m)")
    (auto simp: manager_inv_def list_all_length nth_list_update)

lemma manager_inv_delete:
  "manager_inv m \<Longrightarrow> manager_inv (m\<lparr>sessions := AList.delete i (sessions m)\<rparr>)"
  by (auto simp: manager_inv_def set_delete)

lemma Remove_inv: "manager_inv m \<Longrightarrow> manager_inv (Remove i m)"
  using manager_inv_delete [of "m\<lparr>heap := (heap m)[r := SessionClose (heap m ! r)]\<rparr>" i for r]
    manager_inv_update [of m SessionClose] session_inv_steps(4) manager_inv_lookup
  by (fastforce simp: Remove_def split: option.splits)

lemma GetOrCreate_inv:
  assumes "manager_inv m"
  shows "manager_inv (snd (GetOrCreate now i m))"
proof (cases "map_of (sessions m) i")
  case (Some r)
  then show ?thesis using assms by (simp add: GetOrCreate_def)
next
  case None
  then have "i \<notin> fst ` set (sessions m)" by (simp add: map_of_eq_None_iff)
  then have u: "AList.update i r (sessions m) = sessions m @ [(i, r)]" for r
    by (rule update_fresh)
  have "snd (GetOrCreate now i m) = m\<lparr>heap := heap m @ [NewSessionWithDownloadBuf i (DownloadBufferBytes m) now],
      sessions := sessions m @ [(i, length (heap m))]\<rparr>"
    by (simp add: GetOrCreate_def Let_def None u)
  with \<open>i \<notin> fst ` set (sessions m)\<close> assms session_inv_new show ?thesis
    by (auto simp: manager_inv_def nth_append NewSessionWithDownloadBuf_def)
qed

text \<open>What the sweep removes: closed sessions, and sessions that never got a download in time.\<close>

definition expired :: "int \<Rightarrow> int \<Rightarrow> session \<Rightarrow> bool" where
  "expired now t s \<longleftrightarrow> \<not> connected s \<and> t < now - created_at s"

definition stale :: "int \<Rightarrow> int \<Rightarrow> session \<Rightarrow> bool" where
  "stale now t s \<longleftrightarrow> connected s \<and> closed s \<or> expired now t s"

lemma cleanup_entry_eq:
  "cleanup_entry now (i, r) m = m\<lparr>heap := (if expired now (ttl m) (heap m ! r)
       then (heap m)[r := SessionClose (heap m ! r)] else heap m),
     sessions := (if stale now (ttl m) (heap m ! r) then AList.delete i (sessions m) else sessions m)\<rparr>"
  by (simp add: cleanup_entry_def Let_def stale_def expired_def IsClosed_def)

lemma cleanup_entry_inv:
  assumes "manager_inv m" and "(i, r) \<in> set (sessions m)"
  shows "manager_inv (cleanup_entry now (i, r) m)"
proof -
  let ?m1 = "m\<lparr>heap := (if expired now (ttl m) (heap m ! r)
       then (heap m)[r := SessionClose (heap m ! r)] else heap m)\<rparr>"
  have "session_inv (heap m ! r)"
    using assms by (auto simp: manager_inv_def list_all_length)
  then have "manager_inv ?m1"
    using manager_inv_update [of m SessionClose r] assms(1) session_inv_steps(4) by simp
  from manager_inv_delete [OF this, of i] \<open>manager_inv ?m1\<close> show ?thesis
    by (simp add: cleanup_entry_eq)
qed

lemma manager_refs_distinct:
  "manager_inv m \<Longrightarrow> (i, r) \<in> set (sessions m) \<Longrightarrow> (j, r) \<in> set (sessions m) \<Longrightarrow> i = j"
  unfolding manager_inv_def by (metis (mono_tags, lifting) case_prodD)

lemma cleanup_fold:
  assumes "manager_inv m" and "set xs \<subseteq> set (sessions m)" and "distinct (map fst xs)"
  shows "manager_inv (fold (cleanup_entry now) xs m) \<and>
    set (sessions (fold (cleanup_entry now) xs m)) =
      {e \<in> set (sessions m). e \<in> set xs \<longrightarrow> \<not> stale now (ttl m) (heap m ! snd e)} \<and>
    (\<forall>r. heap (fold (cleanup_entry now) xs m) ! r =
      (if r \<in> snd ` set xs \<and> r < length (heap m) \<and> expired now (ttl m) (heap m ! r) then SessionClose (heap m ! r)
       else heap m ! r))"
  using assms
proof (induction xs arbitrary: m)
  case Nil
  then show ?case by simp
next
  case (Cons x xs)
  obtain i r where x: "x = (i, r)" by (cases x)
  let ?m = "cleanup_entry now (i, r) m"
  have mem: "(i, r) \<in> set (sessions m)" using Cons.prems(2) x by simp
  have inv: "manager_inv ?m" using Cons.prems(1) mem by (rule cleanup_entry_inv)
  have keep: "set (sessions ?m) = {e \<in> set (sessions m). e = (i, r) \<longrightarrow> \<not> stale now (ttl m) (heap m ! r)}"
    using Cons.prems(1) mem
    by (auto simp: cleanup_entry_eq set_delete manager_inv_def dest: eq_key_imp_eq_value)
  have other: "snd e \<noteq> r" if "e \<in> set xs" for e
  proof
    assume "snd e = r"
    then have e: "e = (fst e, r)" by (metis prod.collapse)
    have "e \<in> set (sessions m)" using that Cons.prems(2) by auto
    with e mem Cons.prems(1) have "i = fst e" by (metis manager_refs_distinct)
    with that Cons.prems(3) x show False by auto
  qed
  have same: "heap ?m ! q = heap m ! q" if "q \<noteq> r" for q
    using that by (simp add: cleanup_entry_eq)
  have flds: "ttl ?m = ttl m" "length (heap ?m) = length (heap m)" by (simp_all add: cleanup_entry_eq)
  have at: "heap ?m ! r = (if r < length (heap m) \<and> expired now (ttl m) (heap m ! r)
      then SessionClose (heap m ! r) else heap m ! r)"
    by (simp add: cleanup_entry_eq list_update_beyond)
  have "x \<notin> set xs" using Cons.prems(3) by force
  then have "set xs \<subseteq> set (sessions ?m)" using keep Cons.prems(2) x by auto
  note IH = Cons.IH [OF inv this]
  have F: "fold (cleanup_entry now) (x # xs) m = fold (cleanup_entry now) xs ?m" by (simp add: x)
  have d: "distinct (map fst xs)" using Cons.prems(3) by simp
  let ?f = "fold (cleanup_entry now) xs ?m"
  have "set (sessions ?f) = {e \<in> set (sessions m). e \<in> set (x # xs) \<longrightarrow> \<not> stale now (ttl m) (heap m ! snd e)}"
  proof (rule set_eqI)
    fix e
    have "e \<in> set xs \<Longrightarrow> heap ?m ! snd e = heap m ! snd e" using other same by blast
    then show "e \<in> set (sessions ?f) \<longleftrightarrow>
        e \<in> {e \<in> set (sessions m). e \<in> set (x # xs) \<longrightarrow> \<not> stale now (ttl m) (heap m ! snd e)}"
      using IH d keep x flds(1) by auto
  qed
  moreover have "heap ?f ! q = (if q \<in> snd ` set (x # xs) \<and> q < length (heap m) \<and> expired now (ttl m) (heap m ! q)
      then SessionClose (heap m ! q) else heap m ! q)" for q
  proof (cases "q = r")
    case True
    then have "q \<notin> snd ` set xs" using other by auto
    then have "heap ?f ! q = heap ?m ! q" using IH d by simp
    with True at x show ?thesis by simp
  next
    case False
    then show ?thesis using IH d same [OF False] flds x by simp
  qed
  ultimately show ?case using IH d unfolding F by blast
qed

section \<open>Properties of the manager\<close>

text \<open>
  The sweep is exact. One tick of the cleanup loop keeps the table well formed and drops
  exactly the sessions that are closed after having been connected or that outlived the
  time-to-live without a download; every other session stays under its id with the same
  reference and untouched content, and a dropped unconnected session has been closed.
\<close>

theorem cleanup_exact:
  assumes "manager_inv m"
  shows "manager_inv (cleanup now m) \<and>
    (\<forall>i r. Get i (cleanup now m) = Some r \<longleftrightarrow> Get i m = Some r \<and> \<not> stale now (ttl m) (heap m ! r)) \<and>
    (\<forall>i r. Get i m = Some r \<longrightarrow> heap (cleanup now m) ! r =
      (if expired now (ttl m) (heap m ! r) then SessionClose (heap m ! r) else heap m ! r))"
proof -
  note f = cleanup_fold [OF assms order_refl, of now]
  have d: "distinct (map fst (sessions m))" using assms by (simp add: manager_inv_def)
  then have inv: "manager_inv (cleanup now m)" using f by (simp add: cleanup_def)
  then have d': "distinct (map fst (sessions (cleanup now m)))" by (simp add: manager_inv_def)
  have "Get i (cleanup now m) = Some r \<longleftrightarrow> Get i m = Some r \<and> \<not> stale now (ttl m) (heap m ! r)" for i r
    using f d d' by (auto simp: Get_def cleanup_def map_of_eq_Some_iff)
  moreover have "heap (cleanup now m) ! r =
      (if expired now (ttl m) (heap m ! r) then SessionClose (heap m ! r) else heap m ! r)"
    if "Get i m = Some r" for i r
  proof -
    have "(i, r) \<in> set (sessions m)" using that d by (simp add: Get_def map_of_eq_Some_iff)
    then have "r \<in> snd ` set (sessions m)" and "r < length (heap m)"
      using manager_inv_lookup [OF assms, of i r] that by (force simp: Get_def)+
    with f d show ?thesis by (simp add: cleanup_def)
  qed
  ultimately show ?thesis using inv by blast
qed

theorem cleanup_exact_witness:
  "Get [1] (cleanup 100 (snd (GetOrCreate 0 [1] (NewManager 30)))) = None"
proof -
  let ?m = "snd (GetOrCreate 0 [1] (NewManager 30))"
  have "manager_inv ?m" by (rule GetOrCreate_inv [OF manager_inv_new])
  from cleanup_exact [OF this, of 100] show ?thesis
    by (auto simp: Get_def GetOrCreate_def NewManager_def Let_def stale_def expired_def
        NewSessionWithDownloadBuf_def simp flip: not_Some_eq)
qed

text \<open>
  Session identity. \<open>GetOrCreate\<close> is stable (asking again for the same id gives the same
  session and changes nothing), two ids never share a session, and no existing session is
  altered by it, so the tunnels of different clients stay isolated.
\<close>

theorem get_or_create_isolated:
  assumes "manager_inv m" and "GetOrCreate now i m = (r, m')"
  shows "manager_inv m' \<and> GetOrCreate now' i m' = (r, m') \<and> sess_id (heap m' ! r) = i \<and>
    (\<forall>j q. j \<noteq> i \<longrightarrow> Get j m' = Some q \<longrightarrow> q \<noteq> r \<and> Get j m = Some q \<and> heap m' ! q = heap m ! q)"
proof -
  have inv: "manager_inv m'" using GetOrCreate_inv [OF assms(1)] assms(2) by (metis snd_conv)
  have own: "Get i m' = Some r"
    using assms(2) by (auto simp: GetOrCreate_def Get_def Let_def split: option.splits)
  then have again: "GetOrCreate now' i m' = (r, m')" by (simp add: GetOrCreate_def Get_def)
  have id: "sess_id (heap m' ! r) = i" using manager_inv_lookup [OF inv] own by (simp add: Get_def)
  have "q \<noteq> r \<and> Get j m = Some q \<and> heap m' ! q = heap m ! q" if "j \<noteq> i" "Get j m' = Some q" for j q
  proof -
    have "sess_id (heap m' ! q) = j" using manager_inv_lookup [OF inv] that(2) by (simp add: Get_def)
    then have "q \<noteq> r" using id that(1) by auto
    moreover have g: "Get j m = Some q"
      using that assms(2) by (auto simp: GetOrCreate_def Get_def Let_def split: option.splits)
    moreover have "q < length (heap m)" using manager_inv_lookup [OF assms(1)] g by (simp add: Get_def)
    then have "heap m' ! q = heap m ! q"
      using assms(2) by (auto simp: GetOrCreate_def Let_def nth_append split: option.splits)
    ultimately show ?thesis by blast
  qed
  with inv again id show ?thesis by blast
qed

theorem get_or_create_isolated_witness:
  "GetOrCreate 9 [1] (snd (GetOrCreate 5 [1] (NewManager 30))) = (0, snd (GetOrCreate 5 [1] (NewManager 30)))"
  using get_or_create_isolated [OF manager_inv_new, of 5 "[1]" 30 0 "snd (GetOrCreate 5 [1] (NewManager 30))" 9]
  by (simp add: GetOrCreate_def NewManager_def Let_def)

end
