(* ===== verification/Strconv.thy ===== *)
theory Strconv
  imports Prelude
begin

text \<open>
  The parts of Go's \<open>strconv\<close>, \<open>fmt\<close> and \<open>encoding/hex\<close> the program uses on numbers:
  decimal and hexadecimal formatting, \<open>ParseInt\<close> and \<open>Atoi\<close> in base 10, and the \<open>%d\<close>
  verb of \<open>Sscanf\<close> on an unsigned operand.
\<close>

section \<open>Digits\<close>

definition digit_char :: "nat \<Rightarrow> char" where
  "digit_char d = char_of (48 + d)"

definition is_digit :: "char \<Rightarrow> bool" where
  "is_digit c \<longleftrightarrow> 48 \<le> (of_char c :: nat) \<and> (of_char c :: nat) \<le> 57"

definition digit_val :: "char \<Rightarrow> nat" where
  "digit_val c = of_char c - 48"

lemma is_digit_digit_char [simp]: "d < 10 \<Longrightarrow> is_digit (digit_char d)"
  by (simp add: is_digit_def digit_char_def)

lemma digit_val_digit_char [simp]: "d < 10 \<Longrightarrow> digit_val (digit_char d) = d"
  by (simp add: digit_val_def digit_char_def)

section \<open>Decimal\<close>

fun show_nat :: "nat \<Rightarrow> string" where
  "show_nat n = (if n < 10 then [digit_char n] else show_nat (n div 10) @ [digit_char (n mod 10)])"

declare show_nat.simps [simp del]

definition dec_val :: "string \<Rightarrow> nat" where
  "dec_val s = foldl (\<lambda>a c. a * 10 + digit_val c) 0 s"

lemma dec_val_snoc [simp]: "dec_val (s @ [c]) = dec_val s * 10 + digit_val c"
  by (simp add: dec_val_def)

lemma dec_val_show_nat [simp]: "dec_val (show_nat n) = n"
proof (induction n rule: show_nat.induct)
  case (1 n)
  show ?case
  proof (cases "n < 10")
    case True
    then show ?thesis by (subst show_nat.simps) (simp add: dec_val_def)
  next
    case False
    with 1 show ?thesis by (subst show_nat.simps) simp
  qed
qed

lemma show_nat_digits: "list_all is_digit (show_nat n)"
proof (induction n rule: show_nat.induct)
  case (1 n)
  then show ?case by (subst show_nat.simps) simp
qed

lemma show_nat_nonempty [simp]: "show_nat n \<noteq> []"
  by (subst show_nat.simps) simp

lemma show_nat_hd_digit: "is_digit (hd (show_nat n))"
  using show_nat_digits [of n] by (cases "show_nat n") (auto simp: list_all_iff)

definition FormatInt :: "int \<Rightarrow> string" where
  "FormatInt i = (if i < 0 then CHR ''-'' # show_nat (nat (- i)) else show_nat (nat i))"

text \<open>
  \<open>strconv.ParseInt(s, 10, 64)\<close>, which is \<open>Atoi\<close> too on a 64-bit platform: an optional
  sign, then one or more digits, in range. \<open>None\<close> is the error.
\<close>

definition parse_unsigned :: "string \<Rightarrow> nat option" where
  "parse_unsigned s = (if s \<noteq> [] \<and> list_all is_digit s then Some (dec_val s) else None)"

definition ParseInt :: "string \<Rightarrow> int option" where
  "ParseInt s =
     (let neg = (s \<noteq> [] \<and> hd s = CHR ''-'');
          body = (if s \<noteq> [] \<and> (hd s = CHR ''-'' \<or> hd s = CHR ''+'') then tl s else s)
      in case parse_unsigned body of None \<Rightarrow> None
         | Some n \<Rightarrow>
             if neg then (if n \<le> 2 ^ 63 then Some (- int n) else None)
             else (if n < 2 ^ 63 then Some (int n) else None))"

lemma digit_not_sign: "is_digit c \<Longrightarrow> c \<noteq> CHR ''-'' \<and> c \<noteq> CHR ''+''"
  by (auto simp: is_digit_def)

lemma ParseInt_show_nat: "n < 2 ^ 63 \<Longrightarrow> ParseInt (show_nat n) = Some (int n)"
  using digit_not_sign [OF show_nat_hd_digit [of n]] show_nat_digits [of n]
  by (simp add: ParseInt_def parse_unsigned_def)

lemma ParseInt_FormatInt: "- (2 ^ 63) \<le> i \<Longrightarrow> i < 2 ^ 63 \<Longrightarrow> ParseInt (FormatInt i) = Some i"
proof (cases "i < 0")
  case True
  assume "- (2 ^ 63) \<le> i"
  then have "nat (- i) \<le> 2 ^ 63" using True by simp
  then show ?thesis using True show_nat_digits [of "nat (- i)"]
    by (simp add: FormatInt_def ParseInt_def parse_unsigned_def)
next
  case False
  assume "i < 2 ^ 63"
  then have "nat i < 2 ^ 63" using False by simp
  from ParseInt_show_nat [OF this] show ?thesis using False by (simp add: FormatInt_def)
qed

section \<open>Hexadecimal\<close>

definition hex_char :: "nat \<Rightarrow> char" where
  "hex_char d = (if d < 10 then char_of (48 + d) else char_of (87 + d))"

text \<open>\<open>%x\<close> of an integer: lower case, no leading zeros.\<close>

fun show_hex :: "nat \<Rightarrow> string" where
  "show_hex n = (if n < 16 then [hex_char n] else show_hex (n div 16) @ [hex_char (n mod 16)])"

declare show_hex.simps [simp del]

text \<open>\<open>%x\<close> of a byte slice and \<open>hex.EncodeToString\<close>: two digits a byte.\<close>

definition hex_bytes :: "bytes \<Rightarrow> string" where
  "hex_bytes bs = concat (map (\<lambda>b. [hex_char (unat b div 16), hex_char (unat b mod 16)]) bs)"

definition hex_val :: "char \<Rightarrow> nat option" where
  "hex_val c = (let n = (of_char c :: nat) in
     if 48 \<le> n \<and> n \<le> 57 then Some (n - 48)
     else if 97 \<le> n \<and> n \<le> 102 then Some (n - 87)
     else if 65 \<le> n \<and> n \<le> 70 then Some (n - 55) else None)"

text \<open>\<open>hex.DecodeString\<close>: an odd length or a character outside the digits is an error.\<close>

fun hex_decode :: "string \<Rightarrow> bytes option" where
  "hex_decode [] = Some []"
| "hex_decode [c] = None"
| "hex_decode (c # d # s) =
     (case hex_val c of None \<Rightarrow> None | Some x \<Rightarrow>
      case hex_val d of None \<Rightarrow> None | Some y \<Rightarrow>
      case hex_decode s of None \<Rightarrow> None | Some bs \<Rightarrow> Some (word_of_nat (16 * x + y) # bs))"

lemma hex_val_hex_char [simp]: "d < 16 \<Longrightarrow> hex_val (hex_char d) = Some d"
  by (simp add: hex_val_def hex_char_def Let_def)

lemma hex_decode_hex_bytes: "hex_decode (hex_bytes bs) = Some bs"
proof (induction bs)
  case Nil
  then show ?case by (simp add: hex_bytes_def)
next
  case (Cons b bs)
  have "unat b div 16 < 16" using unat_byte_less [of b] by simp
  moreover have "word_of_nat (16 * (unat b div 16) + unat b mod 16) = b" by simp
  ultimately show ?case using Cons by (simp add: hex_bytes_def)
qed

lemma hex_bytes_inj: "hex_bytes a = hex_bytes b \<Longrightarrow> a = b"
  by (metis hex_decode_hex_bytes option.inject)

section \<open>Sscanf with unsigned decimal operands\<close>

text \<open>
  The white space \<open>fmt\<close> skips before an operand, as the number of bytes of the space rune
  at the front of the input (0 if there is none): ASCII blanks other than newline and the
  Unicode spaces in their UTF-8 form.
\<close>

definition space_len :: "string \<Rightarrow> nat" where
  "space_len s = (let b = map (of_char :: char \<Rightarrow> nat) s in
     if b \<noteq> [] \<and> (hd b = 32 \<or> hd b = 9 \<or> 11 \<le> hd b \<and> hd b \<le> 13) then 1
     else if take 2 b = [0xC2, 0x85] \<or> take 2 b = [0xC2, 0xA0] then 2
     else if take 3 b = [0xE1, 0x9A, 0x80] \<or> take 3 b = [0xE2, 0x81, 0x9F]
       \<or> take 3 b = [0xE3, 0x80, 0x80] then 3
     else if take 2 b = [0xE2, 0x80] \<and> 3 \<le> length b
       \<and> (0x80 \<le> b ! 2 \<and> b ! 2 \<le> 0x8A \<or> b ! 2 \<in> {0xA8, 0xA9, 0xAF}) then 3
     else 0)"

text \<open>\<open>SkipSpace\<close> when a newline is not a space: a newline met on the way is an error.\<close>

function skip_space :: "string \<Rightarrow> string option" where
  "skip_space s =
     (if s \<noteq> [] \<and> of_char (hd s) = (10 :: nat) then None
      else if space_len s = 0 \<or> s = [] then Some s
      else skip_space (drop (space_len s) s))"
  by pat_completeness auto
termination
  by (relation "measure length") auto

declare skip_space.simps [simp del]

text \<open>
  \<open>%d\<close> into an unsigned operand of the given number of values: skip space, take the longest
  run of digits, fail when there is none or the value does not fit.
\<close>

definition scan_uint :: "nat \<Rightarrow> string \<Rightarrow> (nat \<times> string) option" where
  "scan_uint bound s =
     (case skip_space s of None \<Rightarrow> None
      | Some s' \<Rightarrow> let ds = takeWhile is_digit s' in
          if ds = [] \<or> bound \<le> dec_val ds then None
          else Some (dec_val ds, dropWhile is_digit s'))"

lemma space_len_digit: "is_digit c \<Longrightarrow> space_len (c # s) = 0"
  by (auto simp: space_len_def is_digit_def Let_def)

lemma skip_space_digit: "is_digit c \<Longrightarrow> skip_space (c # s) = Some (c # s)"
  by (subst skip_space.simps) (auto simp: space_len_digit is_digit_def)

lemma scan_uint_show_nat:
  assumes "n < bound" and "rest = [] \<or> \<not> is_digit (hd rest)"
  shows "scan_uint bound (show_nat n @ rest) = Some (n, rest)"
proof -
  obtain c ds where c: "show_nat n = c # ds" by (cases "show_nat n") auto
  have dig: "list_all is_digit (show_nat n)" by (rule show_nat_digits)
  then have tw: "takeWhile is_digit (show_nat n @ rest) = show_nat n"
    and dw: "dropWhile is_digit (show_nat n @ rest) = rest"
    using assms(2) by (cases rest; simp add: list_all_iff takeWhile_append2 dropWhile_append2)+
  have "skip_space (show_nat n @ rest) = Some (show_nat n @ rest)"
    using dig unfolding c by (simp add: skip_space_digit)
  then show ?thesis using assms(1) tw dw by (simp add: scan_uint_def Let_def)
qed

end
