(* ===== verification/Framing.thy ===== *)
theory Framing
  imports Interfaces Strconv
begin

text \<open>
  Model of \<open>internal/protocol/protocol.go\<close>, \<open>framing.go\<close>, \<open>client.go\<close> and \<open>server.go\<close>:
  the frame format, the CONNECT payload, and the two sides of the proxy handshake. A tunnel
  connection is the bytes still to come from the peer (\<open>inb\<close>), the bytes written so far
  (\<open>outb\<close>) and how many more calls of \<open>Write\<close> succeed (\<open>wlim\<close>, all of them when \<open>None\<close>);
  a failing write writes nothing. Error values keep the structure of the wrapped Go errors.
\<close>

section \<open>Connections\<close>

record conn =
  inb :: bytes
  outb :: bytes
  wlim :: "nat option"

definition conn_write :: "bytes \<Rightarrow> conn \<Rightarrow> io_err option \<times> conn" where
  "conn_write p c =
     (if wlim c = Some 0 then (Some ErrWrite, c)
      else (None, c\<lparr>outb := outb c @ p, wlim := map_option (\<lambda>n. n - 1) (wlim c)\<rparr>))"

definition conn_read_full :: "nat \<Rightarrow> conn \<Rightarrow> (io_err + bytes) \<times> conn" where
  "conn_read_full n c = (let (r, s) = read_full n (inb c) in (r, c\<lparr>inb := s\<rparr>))"

section \<open>Constants and types\<close>

definition CmdConnect :: byte where "CmdConnect = 0x01"
definition CmdACK :: byte where "CmdACK = 0x02"
definition CmdData :: byte where "CmdData = 0x03"
definition CmdUDP :: byte where "CmdUDP = 0x04"
definition CmdClose :: byte where "CmdClose = 0xFF"

definition StatusOK :: byte where "StatusOK = 0x00"
definition StatusRefused :: byte where "StatusRefused = 0x01"
definition StatusUnreachable :: byte where "StatusUnreachable = 0x02"

definition AddrIPv4 :: byte where "AddrIPv4 = 0x01"
definition AddrDomain :: byte where "AddrDomain = 0x03"
definition AddrIPv6 :: byte where "AddrIPv6 = 0x04"

lemmas proto_consts [wire_simps] =
  CmdConnect_def CmdACK_def CmdData_def CmdUDP_def CmdClose_def
  StatusOK_def StatusRefused_def StatusUnreachable_def
  AddrIPv4_def AddrDomain_def AddrIPv6_def

record request =
  req_command :: byte
  req_host :: string
  req_port :: u16

text \<open>\<open>net.JoinHostPort\<close> brackets a host that contains a colon.\<close>

definition JoinHostPort :: "string \<Rightarrow> string \<Rightarrow> string" where
  "JoinHostPort host port =
     (if CHR '':'' \<in> set host
      then ''['' @ host @ '']:'' @ port else host @ '':'' @ port)"

definition Address :: "request \<Rightarrow> string" where
  "Address r = JoinHostPort (req_host r) (show_nat (unat (req_port r)))"

section \<open>Frames\<close>

record frame =
  ftype :: byte
  fpayload :: bytes

datatype frame_err =
    FrameTooLarge int
  | WriteFrameHeader io_err
  | WriteFramePayload io_err
  | ReadFrameHeader io_err
  | InvalidFrameLength int
  | ReadFramePayload io_err

definition maxFrameSize :: int where "maxFrameSize = 65535"

definition headerSize :: nat where "headerSize = 3"

definition frame_header :: "frame \<Rightarrow> bytes" where
  "frame_header f = le16 (word_of_int (1 + int (length (fpayload f)))) @ [ftype f]"

definition WriteFrame :: "frame \<Rightarrow> conn \<Rightarrow> frame_err option \<times> conn" where
  "WriteFrame f c =
     (let totalLen = 1 + int (length (fpayload f)) in
      if maxFrameSize < totalLen then (Some (FrameTooLarge totalLen), c)
      else case conn_write (frame_header f) c of
          (Some e, c1) \<Rightarrow> (Some (WriteFrameHeader e), c1)
        | (None, c1) \<Rightarrow>
            if 0 < length (fpayload f)
            then (case conn_write (fpayload f) c1 of
                (Some e, c2) \<Rightarrow> (Some (WriteFramePayload e), c2)
              | (None, c2) \<Rightarrow> (None, c2))
            else (None, c1))"

definition ReadFrame :: "conn \<Rightarrow> (frame_err + frame) \<times> conn" where
  "ReadFrame c =
     (case conn_read_full headerSize c of
        (Inl e, c1) \<Rightarrow> (Inl (ReadFrameHeader e), c1)
      | (Inr h, c1) \<Rightarrow>
          let totalLen = int (unat (get_le16 (h ! 0) (h ! 1))) in
          if totalLen < 1 then (Inl (InvalidFrameLength totalLen), c1)
          else if maxFrameSize < totalLen then (Inl (FrameTooLarge totalLen), c1)
          else let payloadLen = totalLen - 1 in
            if 0 < payloadLen
            then (case conn_read_full (nat payloadLen) c1 of
                (Inl e, c2) \<Rightarrow> (Inl (ReadFramePayload e), c2)
              | (Inr p, c2) \<Rightarrow> (Inr \<lparr>ftype = h ! 2, fpayload = p\<rparr>, c2))
            else (Inr \<lparr>ftype = h ! 2, fpayload = []\<rparr>, c1))"

definition frame_ok :: "frame \<Rightarrow> bool" where
  "frame_ok f \<longleftrightarrow> length (fpayload f) \<le> 65534"

definition encode_frame :: "frame \<Rightarrow> bytes" where
  "encode_frame f = frame_header f @ fpayload f"

definition decode_frame :: "bytes \<Rightarrow> (frame_err + frame) \<times> bytes" where
  "decode_frame s = (let (r, c) = ReadFrame \<lparr>inb = s, outb = [], wlim = None\<rparr> in (r, inb c))"

lemma conn_write_free: "wlim c = None \<Longrightarrow> conn_write p c = (None, c\<lparr>outb := outb c @ p\<rparr>)"
  by (simp add: conn_write_def)

lemma WriteFrame_free:
  "wlim c = None \<Longrightarrow> frame_ok f \<Longrightarrow> WriteFrame f c = (None, c\<lparr>outb := outb c @ encode_frame f\<rparr>)"
  by (simp add: WriteFrame_def Let_def frame_ok_def maxFrameSize_def conn_write_free encode_frame_def)

lemma unat_frame_len:
  "frame_ok f \<Longrightarrow> unat (word_of_int (1 + int (length (fpayload f))) :: u16) = 1 + length (fpayload f)"
proof -
  assume "frame_ok f"
  then have "1 + length (fpayload f) < 65536" by (simp add: frame_ok_def)
  moreover have "word_of_int (1 + int (length (fpayload f))) = (word_of_nat (1 + length (fpayload f)) :: u16)"
    by simp
  ultimately show ?thesis by (simp only: unat_u16_of_nat)
qed

lemma ReadFrame_encode:
  assumes "frame_ok f" and "inb c = encode_frame f @ rest"
  shows "ReadFrame c = (Inr f, c\<lparr>inb := rest\<rparr>)"
proof -
  have h: "read_full headerSize (inb c) = (Inr (frame_header f), fpayload f @ rest)"
    using assms(2) read_full_append [of "frame_header f" headerSize "fpayload f @ rest"]
    by (simp add: encode_frame_def headerSize_def frame_header_def)
  have "get_le16 (frame_header f ! 0) (frame_header f ! Suc 0) = word_of_int (1 + int (length (fpayload f)))"
    by (simp add: frame_header_def le16_def get_le16_le16 del: of_nat_Suc)
  then have v: "uint (get_le16 (frame_header f ! 0) (frame_header f ! Suc 0)) = 1 + int (length (fpayload f))"
    using unat_frame_len [OF assms(1)] by (metis of_nat_Suc of_nat_unat plus_1_eq_Suc)
  have sf: "fpayload f = [] \<Longrightarrow> \<lparr>ftype = ftype f, fpayload = []\<rparr> = f" by (cases f) simp
  have t: "frame_header f ! 2 = ftype f"
    by (simp add: frame_header_def nth_append)
  show ?thesis
    using assms(1)
    by (cases "fpayload f = []")
      (simp_all add: ReadFrame_def conn_read_full_def h v t maxFrameSize_def frame_ok_def Let_def sf)
qed

interpretation fr: wire_codec encode_frame decode_frame frame_ok "\<lambda>f. f"
  by unfold_locales (simp add: decode_frame_def ReadFrame_encode)

section \<open>CONNECT payload\<close>

text \<open>
  \<open>Sscanf(s, "%d.%d.%d.%d", &a, &b, &c, &d)\<close> on four bytes reports four operands exactly
  when the four scans and the three dots between them succeed; what follows is not looked at.
\<close>

definition scan_dot :: "string \<Rightarrow> string option" where
  "scan_dot s = (case s of [] \<Rightarrow> None | c # t \<Rightarrow> if c = CHR ''.'' then Some t else None)"

definition parseIPv4 :: "string \<Rightarrow> bytes option" where
  "parseIPv4 s =
     (case scan_uint 256 s of None \<Rightarrow> None | Some (a, s1) \<Rightarrow>
      case scan_dot s1 of None \<Rightarrow> None | Some s1' \<Rightarrow>
      case scan_uint 256 s1' of None \<Rightarrow> None | Some (b, s2) \<Rightarrow>
      case scan_dot s2 of None \<Rightarrow> None | Some s2' \<Rightarrow>
      case scan_uint 256 s2' of None \<Rightarrow> None | Some (c, s3) \<Rightarrow>
      case scan_dot s3 of None \<Rightarrow> None | Some s3' \<Rightarrow>
      case scan_uint 256 s3' of None \<Rightarrow> None | Some (d, s4) \<Rightarrow>
        Some [word_of_nat a, word_of_nat b, word_of_nat c, word_of_nat d])"

definition parseIPv6 :: "string \<Rightarrow> bytes option" where
  "parseIPv6 s = (if length s < 2 \<or> hd s \<noteq> CHR ''['' then None else None)"

definition EncodeConnectPayload :: "string \<Rightarrow> u16 \<Rightarrow> bytes" where
  "EncodeConnectPayload host port =
     (case parseIPv4 host of
        Some ip4 \<Rightarrow> AddrIPv4 # ip4 @ be16 port
      | None \<Rightarrow>
          (case parseIPv6 host of
             Some ip6 \<Rightarrow> AddrIPv6 # ip6 @ be16 port
           | None \<Rightarrow> AddrDomain # word_of_nat (length host) # bytes_of_str host @ be16 port))"

datatype connect_err =
    ConnectTooShort
  | IPv4TooShort
  | IPv6TooShort
  | DomainTooShort
  | DomainNameTooShort int
  | UnknownAddrType byte

definition show_byte :: "byte \<Rightarrow> string" where
  "show_byte b = show_nat (unat b)"

definition dotted :: "byte \<Rightarrow> byte \<Rightarrow> byte \<Rightarrow> byte \<Rightarrow> string" where
  "dotted a b c d = show_byte a @ ''.'' @ show_byte b @ ''.'' @ show_byte c @ ''.'' @ show_byte d"

definition be16_at :: "bytes \<Rightarrow> nat \<Rightarrow> u16" where
  "be16_at data i = get_be16 (data ! i) (data ! (i + 1))"

definition hex16_at :: "bytes \<Rightarrow> nat \<Rightarrow> string" where
  "hex16_at data i = show_hex (unat (be16_at data i))"

definition ipv6_text :: "bytes \<Rightarrow> string" where
  "ipv6_text data = ''['' @ hex16_at data 1 @ '':'' @ hex16_at data 3 @ '':'' @ hex16_at data 5
     @ '':'' @ hex16_at data 7 @ '':'' @ hex16_at data 9 @ '':'' @ hex16_at data 11
     @ '':'' @ hex16_at data 13 @ '':'' @ hex16_at data 15 @ '']''"

definition DecodeConnectPayload :: "bytes \<Rightarrow> connect_err + string \<times> u16" where
  "DecodeConnectPayload data =
     (if length data < 1 then Inl ConnectTooShort
      else let addrType = data ! 0 in
        if addrType = AddrIPv4 then
          (if length data < 1 + 4 + 2 then Inl IPv4TooShort
           else Inr (dotted (data ! 1) (data ! 2) (data ! 3) (data ! 4), be16_at data 5))
        else if addrType = AddrIPv6 then
          (if length data < 1 + 16 + 2 then Inl IPv6TooShort
           else Inr (ipv6_text data, be16_at data 17))
        else if addrType = AddrDomain then
          (if length data < 2 then Inl DomainTooShort
           else let nameLen = unat (data ! 1) in
             if length data < 2 + nameLen + 2 then Inl (DomainNameTooShort (int nameLen))
             else Inr (str_of_bytes (go_slice data 2 (2 + nameLen)), be16_at data (2 + nameLen)))
        else Inl (UnknownAddrType addrType))"

lemma be16_at_append:
  "be16_at (xs @ be16 p @ ys) (length xs) = p"
  by (simp add: be16_at_def be16_def nth_append get_be16_be16)

lemma Decode_domain:
  assumes "nl = unat (data ! 1)" and "data = AddrDomain # l # name @ be16 port @ rest" and "length name = nl"
  shows "DecodeConnectPayload data = Inr (str_of_bytes name, port)"
proof -
  have "be16_at data (2 + nl) = port"
    using be16_at_append [of "AddrDomain # l # name" port rest] assms(2,3) by simp
  then show ?thesis using assms
    by (simp add: DecodeConnectPayload_def Let_def go_slice_def AddrDomain_def AddrIPv4_def AddrIPv6_def)
qed

lemma parseIPv4_length: "parseIPv4 h = Some ip \<Longrightarrow> length ip = 4"
  by (auto simp: parseIPv4_def split: option.splits)

lemma parseIPv6_None [simp]: "parseIPv6 h = None"
  by (simp add: parseIPv6_def)

lemma Decode_ipv4:
  assumes "length ip = 4"
  shows "DecodeConnectPayload (AddrIPv4 # ip @ be16 port) =
    Inr (dotted (ip ! 0) (ip ! 1) (ip ! 2) (ip ! 3), port)"
proof -
  have "be16_at (AddrIPv4 # ip @ be16 port) 5 = port"
    using be16_at_append [of "AddrIPv4 # ip" port "[]"] assms by simp
  moreover have "(AddrIPv4 # ip @ be16 port) ! Suc i = ip ! i" if "i < 4" for i
    using that assms by (simp add: nth_append)
  ultimately show ?thesis using assms
    by (simp add: DecodeConnectPayload_def numeral_eq_Suc)
qed

lemma parseIPv4_dotted_append:
  "rest = [] \<or> \<not> is_digit (hd rest) \<Longrightarrow> parseIPv4 (dotted a b c d @ rest) = Some [a, b, c, d]"
proof -
  assume r: "rest = [] \<or> \<not> is_digit (hd rest)"
  have dot: "\<not> is_digit (CHR ''.'')" by (simp add: is_digit_def)
  have s: "scan_uint 256 (show_byte x @ CHR ''.'' # t) = Some (unat x, CHR ''.'' # t)" for x :: byte and t
    using scan_uint_show_nat [of "unat x" 256 "CHR ''.'' # t"] unat_byte_less [of x] dot
    by (simp add: show_byte_def)
  have e: "scan_uint 256 (show_byte d @ rest) = Some (unat d, rest)"
    using scan_uint_show_nat [of "unat d" 256 rest] unat_byte_less [of d] r
    by (simp add: show_byte_def)
  show ?thesis by (simp add: parseIPv4_def dotted_def s e scan_dot_def)
qed

section \<open>Properties of the codec\<close>

text \<open>
  C26. Frame streams. Any sequence of frames whose payloads fit the 16-bit length, written one
  after the other, is read back as exactly that sequence, and reading stops where the frames
  end: the length prefix frames the stream without ambiguity.
\<close>

theorem frame_stream_roundtrip:
  "list_all frame_ok fs \<Longrightarrow>
   fr.dec_many (length fs) (concat (map encode_frame fs) @ rest) = (Inr fs, rest)"
  using fr.dec_many_concat [of fs rest] by simp

theorem frame_stream_roundtrip_witness:
  "fr.dec_many 2 (encode_frame \<lparr>ftype = 2, fpayload = [0]\<rparr> @ encode_frame \<lparr>ftype = 3, fpayload = []\<rparr> @ [9])
     = (Inr [\<lparr>ftype = 2, fpayload = [0]\<rparr>, \<lparr>ftype = 3, fpayload = []\<rparr>], [9])"
  using frame_stream_roundtrip [of "[\<lparr>ftype = 2, fpayload = [0]\<rparr>, \<lparr>ftype = 3, fpayload = []\<rparr>]" "[9]"]
  by (simp add: frame_ok_def numeral_2_eq_2 del: fr.dec_many.simps)

text \<open>
  Write side of framing. A frame whose payload is too long for the length field is refused
  before anything is written; any other frame, on a connection whose writes succeed, puts
  exactly its encoding on the wire; and a connection that fails leaves the encoding's prefix.
\<close>

theorem write_frame_effect:
  "(\<not> frame_ok f \<longrightarrow> WriteFrame f c = (Some (FrameTooLarge (1 + int (length (fpayload f)))), c)) \<and>
   (frame_ok f \<and> wlim c = None \<longrightarrow> WriteFrame f c = (None, c\<lparr>outb := outb c @ encode_frame f\<rparr>)) \<and>
   (frame_ok f \<longrightarrow> (\<exists>k. outb (snd (WriteFrame f c)) = outb c @ take k (encode_frame f)))"
proof (intro conjI impI)
  show "WriteFrame f c = (Some (FrameTooLarge (1 + int (length (fpayload f)))), c)" if "\<not> frame_ok f"
    using that by (simp add: WriteFrame_def Let_def frame_ok_def maxFrameSize_def)
  show "WriteFrame f c = (None, c\<lparr>outb := outb c @ encode_frame f\<rparr>)" if "frame_ok f \<and> wlim c = None"
    using that by (simp add: WriteFrame_free)
  show "\<exists>k. outb (snd (WriteFrame f c)) = outb c @ take k (encode_frame f)" if "frame_ok f"
  proof -
    have "outb (snd (WriteFrame f c)) \<in> {outb c, outb c @ frame_header f, outb c @ encode_frame f}"
      using that by (auto simp: WriteFrame_def Let_def frame_ok_def maxFrameSize_def conn_write_def encode_frame_def)
    moreover have "frame_header f = take (length (frame_header f)) (encode_frame f)"
      by (simp add: encode_frame_def)
    ultimately show ?thesis
      by (metis append_Nil2 insertE singletonD take_0 take_all_iff order_refl)
  qed
qed

theorem write_frame_effect_witness:
  "WriteFrame \<lparr>ftype = 1, fpayload = [7]\<rparr> \<lparr>inb = [], outb = [], wlim = None\<rparr> =
     (None, \<lparr>inb = [], outb = encode_frame \<lparr>ftype = 1, fpayload = [7]\<rparr>, wlim = None\<rparr>)"
  using write_frame_effect [of "\<lparr>ftype = 1, fpayload = [7]\<rparr>" "\<lparr>inb = [], outb = [], wlim = None\<rparr>"]
  by (simp add: frame_ok_def)

text \<open>
  Target round trip. Every host that is not taken for an IPv4 literal and is at most 255
  bytes long is decoded as it was encoded, with its port; a canonical IPv4 literal too.
\<close>

theorem connect_payload_roundtrip:
  "(parseIPv4 host = None \<and> length host \<le> 255 \<longrightarrow>
     DecodeConnectPayload (EncodeConnectPayload host port) = Inr (host, port)) \<and>
   DecodeConnectPayload (EncodeConnectPayload (dotted a b c d) port) = Inr (dotted a b c d, port)"
proof (intro conjI impI)
  assume h: "parseIPv4 host = None \<and> length host \<le> 255"
  let ?d = "AddrDomain # word_of_nat (length host) # bytes_of_str host @ be16 port @ []"
  have "unat (?d ! 1) = length host" using h by (simp add: unat_of_nat)
  from Decode_domain [OF this [symmetric] refl] have "DecodeConnectPayload ?d = Inr (host, port)" by simp
  moreover have "EncodeConnectPayload host port = ?d" using h by (simp add: EncodeConnectPayload_def)
  ultimately show "DecodeConnectPayload (EncodeConnectPayload host port) = Inr (host, port)" by (simp only:)
next
  show "DecodeConnectPayload (EncodeConnectPayload (dotted a b c d) port) = Inr (dotted a b c d, port)"
    using parseIPv4_dotted_append [of "[]" a b c d] Decode_ipv4 [of "[a, b, c, d]" port]
    by (simp add: EncodeConnectPayload_def)
qed

theorem connect_payload_roundtrip_witness:
  "DecodeConnectPayload (EncodeConnectPayload ''go.dev'' 443) = Inr (''go.dev'', 443)"
proof -
  have "skip_space ''go.dev'' = Some ''go.dev''"
    by (subst skip_space.simps) (simp add: space_len_def Let_def)
  then have "scan_uint 256 ''go.dev'' = None"
    by (simp add: scan_uint_def Let_def is_digit_def)
  then have "parseIPv4 ''go.dev'' = None" by (simp add: parseIPv4_def)
  then show ?thesis using connect_payload_roundtrip [of "''go.dev''" 443] by simp
qed

text \<open>
  Where the round trip ends. A name that starts with a complete IPv4 literal followed by a
  non-digit is sent as that address, so the server is asked for another host than the one
  requested (\<open>1.2.3.4.example.com\<close> becomes \<open>1.2.3.4\<close>).
\<close>

theorem ipv4_prefix_hijacks_domain:
  "DecodeConnectPayload (EncodeConnectPayload (dotted a b c d @ CHR ''.'' # rest) port) =
   Inr (dotted a b c d, port)"
  using parseIPv4_dotted_append [of "CHR ''.'' # rest" a b c d] Decode_ipv4 [of "[a, b, c, d]" port]
  by (simp add: EncodeConnectPayload_def is_digit_def)

definition connect_needed :: "bytes \<Rightarrow> nat option" where
  "connect_needed data =
     (if data = [] then None
      else if data ! 0 = AddrIPv4 then Some 7
      else if data ! 0 = AddrIPv6 then Some 19
      else if data ! 0 = AddrDomain then (if length data < 2 then None else Some (4 + unat (data ! 1)))
      else None)"

text \<open>
  Robustness of the decoder. \<open>DecodeConnectPayload\<close> on arbitrary bytes either reports an
  error or returns a host and port; it succeeds exactly when the payload is long enough for
  the address type it announces, so no index it reads is out of range.
\<close>

theorem decode_connect_total:
  "(\<exists>r. DecodeConnectPayload data = Inr r) \<longleftrightarrow>
   (\<exists>n. connect_needed data = Some n \<and> n \<le> length data)"
  by (auto simp: DecodeConnectPayload_def connect_needed_def Let_def proto_consts not_less)

end
