(* ===== verification/Handshake.thy ===== *)
theory Handshake
  imports Framing
begin

text \<open>
  Model of \<open>internal/protocol/client.go\<close> and \<open>server.go\<close>: the request and acknowledgement
  exchange that opens a tunnel. Each side is a function of its own connection; the exchange
  of the two is stated by giving each the bytes the other one writes.
\<close>

section \<open>Client\<close>

datatype handshake_err =
    SendCommand frame_err
  | ReadAck frame_err
  | ExpectedACK byte
  | ServerRefused byte

definition Handshake :: "request \<Rightarrow> conn \<Rightarrow> handshake_err option \<times> conn" where
  "Handshake req c =
     (let cmd = (if req_command req = 0 then CmdConnect else req_command req);
          payload = EncodeConnectPayload (req_host req) (req_port req)
      in case WriteFrame \<lparr>ftype = cmd, fpayload = payload\<rparr> c of
           (Some e, c1) \<Rightarrow> (Some (SendCommand e), c1)
         | (None, c1) \<Rightarrow>
             (case ReadFrame c1 of
                (Inl e, c2) \<Rightarrow> (Some (ReadAck e), c2)
              | (Inr ack, c2) \<Rightarrow>
                  if ftype ack \<noteq> CmdACK then (Some (ExpectedACK (ftype ack)), c2)
                  else if length (fpayload ack) < 1 \<or> fpayload ack ! 0 \<noteq> StatusOK
                  then (Some (ServerRefused (if 1 \<le> length (fpayload ack)
                                             then fpayload ack ! 0 else StatusRefused)), c2)
                  else (None, c2)))"

section \<open>Server\<close>

datatype server_err =
    ReadRequest frame_err
  | ExpectedConnect byte
  | DecodePayload connect_err

definition SendACK :: "byte \<Rightarrow> conn \<Rightarrow> frame_err option \<times> conn" where
  "SendACK status c = WriteFrame \<lparr>ftype = CmdACK, fpayload = [status]\<rparr> c"

definition HandleConnection :: "conn \<Rightarrow> (server_err + request) \<times> conn" where
  "HandleConnection c =
     (case ReadFrame c of
        (Inl e, c1) \<Rightarrow> (Inl (ReadRequest e), c1)
      | (Inr f, c1) \<Rightarrow>
          if ftype f \<noteq> CmdConnect \<and> ftype f \<noteq> CmdUDP
          then (Inl (ExpectedConnect (ftype f)), c1)
          else (case DecodeConnectPayload (fpayload f) of
              Inl e \<Rightarrow> (Inl (DecodePayload e),
                snd (WriteFrame \<lparr>ftype = CmdACK, fpayload = [StatusRefused]\<rparr> c1))
            | Inr (host, port) \<Rightarrow>
                (Inr \<lparr>req_command = ftype f, req_host = host, req_port = port\<rparr>, c1)))"

section \<open>The exchange\<close>

text \<open>The host the server is asked for: what its decoder makes of the client's encoding.\<close>

definition norm_host :: "string \<Rightarrow> string" where
  "norm_host h = (case parseIPv4 h of
      Some ip \<Rightarrow> dotted (ip ! 0) (ip ! 1) (ip ! 2) (ip ! 3) | None \<Rightarrow> h)"

definition host_ok :: "string \<Rightarrow> bool" where
  "host_ok h \<longleftrightarrow> parseIPv4 h \<noteq> None \<or> length h \<le> 255"

lemma decode_encode_host:
  "host_ok h \<Longrightarrow> DecodeConnectPayload (EncodeConnectPayload h port) = Inr (norm_host h, port)"
proof (cases "parseIPv4 h")
  case None
  assume "host_ok h"
  with None have len: "length h \<le> 255" by (simp add: host_ok_def)
  let ?d = "AddrDomain # word_of_nat (length h) # bytes_of_str h @ be16 port @ []"
  have "unat (?d ! 1) = length h" using len by (simp add: unat_of_nat)
  from Decode_domain [OF this [symmetric] refl] have "DecodeConnectPayload ?d = Inr (h, port)" by simp
  moreover have "EncodeConnectPayload h port = ?d" using None by (simp add: EncodeConnectPayload_def)
  ultimately show ?thesis using None by (simp only: norm_host_def option.case)
next
  case (Some ip)
  then show ?thesis
    using Decode_ipv4 [OF parseIPv4_length, of h ip port]
    by (simp add: norm_host_def EncodeConnectPayload_def)
qed

lemma connect_frame_ok:
  "host_ok h \<Longrightarrow> frame_ok \<lparr>ftype = t, fpayload = EncodeConnectPayload h port\<rparr>"
  by (cases "parseIPv4 h")
    (auto simp: frame_ok_def host_ok_def EncodeConnectPayload_def dest: parseIPv4_length)

definition command_of :: "request \<Rightarrow> byte" where
  "command_of req = (if req_command req = 0 then CmdConnect else req_command req)"

definition request_bytes :: "request \<Rightarrow> bytes" where
  "request_bytes req = encode_frame
     \<lparr>ftype = command_of req, fpayload = EncodeConnectPayload (req_host req) (req_port req)\<rparr>"

definition ack_bytes :: "byte \<Rightarrow> bytes" where
  "ack_bytes status = encode_frame \<lparr>ftype = CmdACK, fpayload = [status]\<rparr>"

lemma SendACK_free: "wlim c = None \<Longrightarrow> SendACK s c = (None, c\<lparr>outb := outb c @ ack_bytes s\<rparr>)"
  by (simp add: SendACK_def WriteFrame_free frame_ok_def ack_bytes_def)

lemma Handshake_ack:
  assumes "host_ok (req_host req)" and "wlim c = None" and "inb c = ack_bytes status @ rest"
  shows "Handshake req c = ((if status = StatusOK then None else Some (ServerRefused status)),
    c\<lparr>inb := rest, outb := outb c @ request_bytes req\<rparr>)"
proof -
  let ?f = "\<lparr>ftype = command_of req, fpayload = EncodeConnectPayload (req_host req) (req_port req)\<rparr>"
  let ?c = "c\<lparr>outb := outb c @ request_bytes req\<rparr>"
  have w: "WriteFrame ?f c = (None, ?c)"
    using connect_frame_ok [OF assms(1)] assms(2) by (simp add: WriteFrame_free request_bytes_def)
  have r: "ReadFrame ?c = (Inr \<lparr>ftype = CmdACK, fpayload = [status]\<rparr>, ?c\<lparr>inb := rest\<rparr>)"
    using assms(3) by (intro ReadFrame_encode) (simp_all add: ack_bytes_def frame_ok_def)
  from w r show ?thesis by (simp add: Handshake_def command_of_def)
qed

lemma HandleConnection_request:
  assumes "host_ok (req_host req)" and "command_of req \<in> {CmdConnect, CmdUDP}"
    and "inb s = request_bytes req @ rest"
  shows "HandleConnection s =
    (Inr \<lparr>req_command = command_of req, req_host = norm_host (req_host req), req_port = req_port req\<rparr>,
     s\<lparr>inb := rest\<rparr>)"
proof -
  have "ReadFrame s = (Inr \<lparr>ftype = command_of req,
      fpayload = EncodeConnectPayload (req_host req) (req_port req)\<rparr>, s\<lparr>inb := rest\<rparr>)"
    using assms(3) by (intro ReadFrame_encode) (simp_all add: request_bytes_def connect_frame_ok assms(1))
  with assms(2) decode_encode_host [OF assms(1)] show ?thesis
    by (auto simp: HandleConnection_def)
qed

lemma ReadFrame_outb: "outb (snd (ReadFrame d)) = outb d"
  by (auto simp: ReadFrame_def conn_read_full_def Let_def split: sum.splits prod.splits)

lemma Handshake_outb:
  assumes "host_ok (req_host req)" and "wlim c = None"
  shows "outb (snd (Handshake req c)) = outb c @ request_bytes req"
proof -
  let ?f = "\<lparr>ftype = command_of req, fpayload = EncodeConnectPayload (req_host req) (req_port req)\<rparr>"
  have w: "WriteFrame ?f c = (None, c\<lparr>outb := outb c @ request_bytes req\<rparr>)"
    using connect_frame_ok [OF assms(1)] assms(2) by (simp add: WriteFrame_free request_bytes_def)
  obtain r c2 where r: "ReadFrame (c\<lparr>outb := outb c @ request_bytes req\<rparr>) = (r, c2)" by fastforce
  with ReadFrame_outb [of "c\<lparr>outb := outb c @ request_bytes req\<rparr>"]
  have "outb c2 = outb c @ request_bytes req" by simp
  with w r show ?thesis
    by (cases r) (simp_all add: Handshake_def command_of_def Let_def)
qed



text \<open>
  The server refuses anything else. A first frame that is not CONNECT or UDP is rejected
  without a byte being written, and a CONNECT whose target cannot be parsed is answered with
  a refusal, which the client reports as \<open>StatusRefused\<close>.
\<close>

theorem server_refuses:
  assumes "frame_ok f" and "wlim s = None" and "inb s = encode_frame f @ rest"
  shows "(ftype f \<notin> {CmdConnect, CmdUDP} \<longrightarrow>
      HandleConnection s = (Inl (ExpectedConnect (ftype f)), s\<lparr>inb := rest\<rparr>)) \<and>
    (ftype f \<in> {CmdConnect, CmdUDP} \<and> DecodeConnectPayload (fpayload f) = Inl e \<longrightarrow>
      HandleConnection s = (Inl (DecodePayload e),
        s\<lparr>inb := rest, outb := outb s @ ack_bytes StatusRefused\<rparr>))"
  using ReadFrame_encode [OF assms(1,3)] assms(2)
  by (auto simp: HandleConnection_def WriteFrame_free frame_ok_def ack_bytes_def)

theorem server_refuses_witness:
  "HandleConnection \<lparr>inb = encode_frame \<lparr>ftype = CmdConnect, fpayload = []\<rparr>, outb = [], wlim = None\<rparr> =
     (Inl (DecodePayload ConnectTooShort), \<lparr>inb = [], outb = ack_bytes StatusRefused, wlim = None\<rparr>)"
  using server_refuses [of "\<lparr>ftype = CmdConnect, fpayload = []\<rparr>"
      "\<lparr>inb = encode_frame \<lparr>ftype = CmdConnect, fpayload = []\<rparr>, outb = [], wlim = None\<rparr>" "[]" ConnectTooShort]
  by (simp add: frame_ok_def DecodeConnectPayload_def)

end
