(* ===== verification/Netip.thy ===== *)
theory Netip
  imports Strconv
begin

text \<open>
  The parts of Go's \<open>net\<close> and \<open>net/netip\<close> that the program applies to IP addresses: the
  text form of an address (\<open>net.IP.String\<close>) and \<open>net.ParseIP\<close>. An address is its bytes,
  four or sixteen of them.
\<close>

section \<open>Formatting\<close>

definition To4 :: "bytes \<Rightarrow> bytes option" where
  "To4 ip =
     (if length ip = 4 then Some ip
      else if length ip = 16 \<and> take 12 ip = replicate 10 0 @ [0xff, 0xff] then Some (drop 12 ip)
      else None)"

fun groups :: "bytes \<Rightarrow> nat list" where
  "groups (a # b # bs) = (unat a * 256 + unat b) # groups bs"
| "groups _ = []"

definition dotted_quad :: "bytes \<Rightarrow> string" where
  "dotted_quad ip = show_nat (unat (ip ! 0)) @ ''.'' @ show_nat (unat (ip ! 1)) @ ''.'' @
     show_nat (unat (ip ! 2)) @ ''.'' @ show_nat (unat (ip ! 3))"

text \<open>
  The longest run of at least two zero groups, the first of the longest ones: start and
  length, length 0 if there is none.
\<close>

definition zero_run :: "nat list \<Rightarrow> nat \<times> nat" where
  "zero_run g = fold (\<lambda>i (st, len).
       let l = length (takeWhile (\<lambda>x. x = 0) (drop i g))
       in if 2 \<le> l \<and> len < l then (i, l) else (st, len)) [0..<length g] (0, 0)"

fun colon_join :: "string list \<Rightarrow> string" where
  "colon_join [] = []"
| "colon_join [s] = s"
| "colon_join (s # t # ss) = s @ '':'' @ colon_join (t # ss)"

definition ip6_string :: "bytes \<Rightarrow> string" where
  "ip6_string ip =
     (let g = groups ip; (st, len) = zero_run g
      in if len = 0 then colon_join (map show_hex g)
         else colon_join (map show_hex (take st g)) @ ''::'' @
              colon_join (map show_hex (drop (st + len) g)))"

definition ip_string :: "bytes \<Rightarrow> string" where
  "ip_string ip =
     (if ip = [] then ''<nil>''
      else if length ip \<noteq> 4 \<and> length ip \<noteq> 16 then ''?'' @ hex_bytes ip
      else case To4 ip of Some p4 \<Rightarrow> dotted_quad p4 | None \<Rightarrow> ip6_string ip)"

lemma ip_string_loopback: "ip_string (replicate 15 0 @ [1]) = ''::1''"
  by code_simp

section \<open>Parsing\<close>

text \<open>
  \<open>parseIPv4Fields\<close>: four decimal fields of one to three digits without leading zeros, each
  at most 255, separated by single dots.
\<close>

definition ip4_field :: "string \<Rightarrow> byte option" where
  "ip4_field s =
     (if s = [] \<or> \<not> list_all is_digit s \<or> (1 < length s \<and> hd s = CHR ''0'') \<or> 255 < dec_val s
      then None else Some (word_of_nat (dec_val s)))"

fun split_on :: "char \<Rightarrow> string \<Rightarrow> string list" where
  "split_on d [] = [[]]"
| "split_on d (c # s) = (if c = d then [] # split_on d s
     else case split_on d s of [] \<Rightarrow> [[c]] | t # ts \<Rightarrow> (c # t) # ts)"

definition parse_ip4 :: "string \<Rightarrow> bytes option" where
  "parse_ip4 s =
     (case map ip4_field (split_on (CHR ''.'') s) of
        [Some a, Some b, Some c, Some d] \<Rightarrow> Some [a, b, c, d]
      | _ \<Rightarrow> None)"

definition hex_nat :: "string \<Rightarrow> nat" where
  "hex_nat s = foldl (\<lambda>a c. a * 16 + the (hex_val c)) 0 s"

text \<open>
  The loop of \<open>parseIPv6\<close>: \<open>acc\<close> holds the bytes parsed so far, \<open>ell\<close> the position of the
  ellipsis. The result is \<open>None\<close> for an error, otherwise the bytes, the ellipsis and what
  is left of the input. The first argument bounds the iterations: each but the last stores
  two bytes, so eight are enough.
\<close>

fun ip6_loop :: "nat \<Rightarrow> bytes \<Rightarrow> nat option \<Rightarrow> string \<Rightarrow> (bytes \<times> nat option \<times> string) option" where
  "ip6_loop 0 acc ell s = Some (acc, ell, s)"
| "ip6_loop (Suc k) acc ell s =
     (let ds = takeWhile (\<lambda>c. hex_val c \<noteq> None) s; s1 = drop (length ds) s in
      if 4 < length ds \<or> ds = [] then None
      else if s1 \<noteq> [] \<and> hd s1 = CHR ''.'' then
        (if ell = None \<and> length acc \<noteq> 12 \<or> 16 < length acc + 4 then None
         else map_option (\<lambda>f. (acc @ f, ell, [])) (parse_ip4 s))
      else let acc' = acc @ be_enc 2 (hex_nat ds) in
        (case s1 of
           [] \<Rightarrow> Some (acc', ell, [])
         | c # s2 \<Rightarrow>
             if c \<noteq> CHR '':'' \<or> s2 = [] then None
             else if hd s2 = CHR '':'' then
               (if ell \<noteq> None then None
                else if tl s2 = [] then Some (acc', Some (length acc'), [])
                else ip6_loop k acc' (Some (length acc')) (tl s2))
             else ip6_loop k acc' ell s2))"

definition parse_ip6 :: "string \<Rightarrow> bytes option" where
  "parse_ip6 s =
     (if s = ''::'' then Some (replicate 16 0)
      else let lead = (take 2 s = ''::'') in
        case ip6_loop 8 [] (if lead then Some 0 else None) (if lead then drop 2 s else s) of
          None \<Rightarrow> None
        | Some (acc, ell, rest) \<Rightarrow>
            if rest \<noteq> [] then None
            else case ell of
                None \<Rightarrow> if length acc < 16 then None else Some acc
              | Some e \<Rightarrow> if length acc < 16
                  then Some (take e acc @ replicate (16 - length acc) 0 @ drop e acc)
                  else None)"

text \<open>
  \<open>net.ParseIP\<close> gives the 16-byte form; an address with a zone is refused. The first dot,
  colon or percent sign decides which parser runs.
\<close>

definition ParseIP :: "string \<Rightarrow> bytes option" where
  "ParseIP s =
     (case filter (\<lambda>c. c = CHR ''.'' \<or> c = CHR '':'' \<or> c = CHR ''%'') s of
        [] \<Rightarrow> None
      | c # _ \<Rightarrow>
          if c = CHR ''.'' then map_option (\<lambda>p. replicate 10 0 @ [0xff, 0xff] @ p) (parse_ip4 s)
          else if c = CHR '':'' then (if CHR ''%'' \<in> set s then None else parse_ip6 s)
          else None)"

lemma ParseIP_example: "ParseIP ''2001:db8:0:1::2'' =
    Some [0x20, 0x01, 0x0d, 0xb8, 0, 0, 0, 1, 0, 0, 0, 0, 0, 0, 0, 2]"
  by code_simp

lemma parse_ip4_length: "parse_ip4 s = Some p \<Longrightarrow> length p = 4"
  by (auto simp: parse_ip4_def split: list.splits option.splits)

lemma ip6_loop_length:
  "ip6_loop k acc ell s = Some (acc', ell', r) \<Longrightarrow> length acc + 2 * k \<le> 16 \<Longrightarrow>
     (ell = None \<or> the ell \<le> length acc) \<Longrightarrow>
     length acc' \<le> 16 \<and> (ell' = None \<or> the ell' \<le> length acc')"
proof (induction k acc ell s rule: ip6_loop.induct)
  case (1 acc ell s)
  then show ?case by auto
next
  case (2 k acc ell s)
  then show ?case
    by (auto simp: Let_def parse_ip4_length split: if_splits list.splits)
qed

lemma ParseIP_length: "ParseIP s = Some ip \<Longrightarrow> length ip = 16"
proof -
  have six: "parse_ip6 s = Some ip \<Longrightarrow> length ip = 16"
    using ip6_loop_length [of 8 "[]" "if take 2 s = ''::'' then Some 0 else None"]
    by (fastforce simp: parse_ip6_def Let_def split: if_splits option.splits prod.splits)
  then show "ParseIP s = Some ip \<Longrightarrow> length ip = 16"
    by (auto simp: ParseIP_def parse_ip4_length split: list.splits if_splits)
qed

end
