(* ===== verification/Udp.thy ===== *)
theory Udp
  imports Framing Netip
begin

text \<open>
  Model of \<open>internal/protocol/udp.go\<close>: UDP datagrams relayed through a tunnel connection,
  each as a 16-bit length, an address and the payload.
\<close>

section \<open>Addresses\<close>

record udp_message =
  um_host :: string
  um_port :: u16
  um_payload :: bytes

definition encodeAddr :: "string \<Rightarrow> u16 \<Rightarrow> bytes" where
  "encodeAddr host port =
     (case parseIPv4 host of
        Some ip4 \<Rightarrow> AddrIPv4 # ip4 @ be16 port
      | None \<Rightarrow>
          (case ParseIP host of
             Some ip \<Rightarrow>
               if To4 ip = None then AddrIPv6 # ip @ be16 port
               else AddrDomain # word_of_nat (length host) # bytes_of_str host @ be16 port
           | None \<Rightarrow> AddrDomain # word_of_nat (length host) # bytes_of_str host @ be16 port))"

datatype addr_err =
    EmptyAddr
  | IPv4AddrTooShort
  | IPv6AddrTooShort
  | DomainAddrTooShort
  | DomainNameTruncated
  | UnknownAddr byte

definition decodeAddr :: "bytes \<Rightarrow> addr_err + string \<times> u16 \<times> nat" where
  "decodeAddr data =
     (if length data < 1 then Inl EmptyAddr
      else let addrType = data ! 0 in
        if addrType = AddrIPv4 then
          (if length data < 1 + 4 + 2 then Inl IPv4AddrTooShort
           else Inr (dotted (data ! 1) (data ! 2) (data ! 3) (data ! 4), be16_at data 5, 7))
        else if addrType = AddrIPv6 then
          (if length data < 1 + 16 + 2 then Inl IPv6AddrTooShort
           else Inr (ip_string (go_slice data 1 17), be16_at data 17, 19))
        else if addrType = AddrDomain then
          (if length data < 2 then Inl DomainAddrTooShort
           else let nameLen = unat (data ! 1) in
             if length data < 2 + nameLen + 2 then Inl DomainNameTruncated
             else Inr (str_of_bytes (go_slice data 2 (2 + nameLen)),
                       be16_at data (2 + nameLen), 2 + nameLen + 2))
        else Inl (UnknownAddr addrType))"

section \<open>Messages\<close>

datatype udp_err =
    UdpTooLarge int
  | UdpWrite io_err
  | ReadUdpHeader io_err
  | UdpTooShort int
  | ReadUdpBody io_err
  | ParseUdpAddr addr_err

text \<open>The three writes of \<open>WriteMessage\<close>, made under the relay's write lock.\<close>

definition WriteMessage :: "udp_message \<Rightarrow> conn \<Rightarrow> udp_err option \<times> conn" where
  "WriteMessage msg c =
     (let addrBytes = encodeAddr (um_host msg) (um_port msg);
          totalLen = length addrBytes + length (um_payload msg)
      in if 65535 < totalLen then (Some (UdpTooLarge (int totalLen)), c)
         else case conn_write (le16 (word_of_nat totalLen)) c of
             (Some e, c1) \<Rightarrow> (Some (UdpWrite e), c1)
           | (None, c1) \<Rightarrow>
               (case conn_write addrBytes c1 of
                  (Some e, c2) \<Rightarrow> (Some (UdpWrite e), c2)
                | (None, c2) \<Rightarrow>
                    (case conn_write (um_payload msg) c2 of
                       (Some e, c3) \<Rightarrow> (Some (UdpWrite e), c3)
                     | (None, c3) \<Rightarrow> (None, c3))))"

definition ReadMessage :: "conn \<Rightarrow> (udp_err + udp_message) \<times> conn" where
  "ReadMessage c =
     (case conn_read_full 2 c of
        (Inl e, c1) \<Rightarrow> (Inl (ReadUdpHeader e), c1)
      | (Inr h, c1) \<Rightarrow>
          let totalLen = unat (get_le16 (h ! 0) (h ! 1)) in
          if totalLen < 4 then (Inl (UdpTooShort (int totalLen)), c1)
          else (case conn_read_full totalLen c1 of
              (Inl e, c2) \<Rightarrow> (Inl (ReadUdpBody e), c2)
            | (Inr b, c2) \<Rightarrow>
                (case decodeAddr b of
                   Inl e \<Rightarrow> (Inl (ParseUdpAddr e), c2)
                 | Inr (host, port, addrLen) \<Rightarrow>
                     (Inr \<lparr>um_host = host, um_port = port, um_payload = drop addrLen b\<rparr>, c2))))"

section \<open>Round trip\<close>

definition ip6_of :: "string \<Rightarrow> bytes option" where
  "ip6_of host = (case ParseIP host of Some ip \<Rightarrow> if To4 ip = None then Some ip else None | None \<Rightarrow> None)"

definition udp_host :: "string \<Rightarrow> string" where
  "udp_host h =
     (case parseIPv4 h of Some ip \<Rightarrow> dotted (ip ! 0) (ip ! 1) (ip ! 2) (ip ! 3)
      | None \<Rightarrow> (case ip6_of h of Some ip \<Rightarrow> ip_string ip | None \<Rightarrow> h))"

definition udp_host_ok :: "string \<Rightarrow> bool" where
  "udp_host_ok h \<longleftrightarrow> parseIPv4 h \<noteq> None \<or> ip6_of h \<noteq> None \<or> length h \<le> 255"

lemma encodeAddr_alt:
  "encodeAddr host port =
     (case parseIPv4 host of Some ip4 \<Rightarrow> AddrIPv4 # ip4 @ be16 port
      | None \<Rightarrow> (case ip6_of host of Some ip \<Rightarrow> AddrIPv6 # ip @ be16 port
          | None \<Rightarrow> AddrDomain # word_of_nat (length host) # bytes_of_str host @ be16 port))"
  by (simp add: encodeAddr_def ip6_of_def split: option.splits)

lemma ip6_of_length: "ip6_of h = Some ip \<Longrightarrow> length ip = 16"
  by (auto simp: ip6_of_def ParseIP_length split: option.splits if_splits)

lemma decodeAddr_ip4:
  "length ip = 4 \<Longrightarrow> decodeAddr (AddrIPv4 # ip @ be16 port @ rest) =
     Inr (dotted (ip ! 0) (ip ! 1) (ip ! 2) (ip ! 3), port, 7)"
proof -
  assume l: "length ip = 4"
  have "be16_at (AddrIPv4 # ip @ be16 port @ rest) 5 = port"
    using be16_at_append [of "AddrIPv4 # ip" port rest] l by simp
  moreover have "(AddrIPv4 # ip @ be16 port @ rest) ! Suc i = ip ! i" if "i < 4" for i
    using that l by (simp add: nth_append)
  ultimately show ?thesis using l
    by (simp add: decodeAddr_def numeral_eq_Suc)
qed

lemma decodeAddr_ip6:
  "length ip = 16 \<Longrightarrow> decodeAddr (AddrIPv6 # ip @ be16 port @ rest) = Inr (ip_string ip, port, 19)"
  using be16_at_append [of "AddrIPv6 # ip" port rest]
  by (simp add: decodeAddr_def Let_def proto_consts go_slice_def)

lemma decodeAddr_domain:
  assumes "unat l = length name"
  shows "decodeAddr (AddrDomain # l # name @ be16 port @ rest) =
    Inr (str_of_bytes name, port, 2 + length name + 2)"
  using be16_at_append [of "AddrDomain # l # name" port rest] assms
  by (simp add: decodeAddr_def Let_def proto_consts go_slice_def)

lemma decodeAddr_encodeAddr:
  assumes "udp_host_ok h"
  shows "decodeAddr (encodeAddr h port @ rest) = Inr (udp_host h, port, length (encodeAddr h port))"
proof (cases "parseIPv4 h")
  case (Some ip)
  then show ?thesis using parseIPv4_length [OF Some] decodeAddr_ip4 [of ip port rest]
    by (simp add: encodeAddr_alt udp_host_def)
next
  case None
  note v4 = None
  show ?thesis
  proof (cases "ip6_of h")
    case (Some ip)
    then show ?thesis using v4 ip6_of_length [OF Some] decodeAddr_ip6 [of ip port rest]
      by (simp add: encodeAddr_alt udp_host_def)
  next
    case None
    then have "length h \<le> 255" using v4 assms by (simp add: udp_host_ok_def)
    then have "unat (word_of_nat (length h) :: byte) = length (bytes_of_str h)" by (simp add: unat_of_nat)
    from decodeAddr_domain [OF this, of port rest] None v4 show ?thesis
      by (simp add: encodeAddr_alt udp_host_def)
  qed
qed

lemma encodeAddr_min: "4 \<le> length (encodeAddr h port)"
  by (auto simp: encodeAddr_alt dest: parseIPv4_length ip6_of_length split: option.splits)

definition encode_msg :: "udp_message \<Rightarrow> bytes" where
  "encode_msg m =
     (let a = encodeAddr (um_host m) (um_port m)
      in le16 (word_of_nat (length a + length (um_payload m))) @ a @ um_payload m)"

definition msg_ok :: "udp_message \<Rightarrow> bool" where
  "msg_ok m \<longleftrightarrow> udp_host_ok (um_host m) \<and>
     length (encodeAddr (um_host m) (um_port m)) + length (um_payload m) \<le> 65535"

definition msg_view :: "udp_message \<Rightarrow> udp_message" where
  "msg_view m = m\<lparr>um_host := udp_host (um_host m)\<rparr>"

definition decode_msg :: "bytes \<Rightarrow> (udp_err + udp_message) \<times> bytes" where
  "decode_msg s = (let (r, c) = ReadMessage \<lparr>inb = s, outb = [], wlim = None\<rparr> in (r, inb c))"

lemma ReadMessage_encode:
  assumes "msg_ok m" and "inb c = encode_msg m @ rest"
  shows "ReadMessage c = (Inr (msg_view m), c\<lparr>inb := rest\<rparr>)"
proof -
  let ?a = "encodeAddr (um_host m) (um_port m)" and ?n = "length (encodeAddr (um_host m) (um_port m)) + length (um_payload m)"
  let ?h = "le16 (word_of_nat ?n)"
  have "length ?h = 2" by simp
  then have h: "read_full 2 (inb c) = (Inr ?h, (?a @ um_payload m) @ rest)"
    using assms(2) by (simp only: encode_msg_def Let_def append_assoc read_full_append)
  have "get_le16 (?h ! 0) (?h ! Suc 0) = word_of_nat ?n" by (simp add: le16_def get_le16_le16 del: of_nat_add)
  moreover have "?n < 65536" using assms(1) by (simp add: msg_ok_def)
  ultimately have n: "unat (get_le16 (?h ! 0) (?h ! Suc 0)) = ?n" by (simp only: unat_u16_of_nat)
  have b: "read_full ?n ((?a @ um_payload m) @ rest) = (Inr (?a @ um_payload m), rest)"
    by (rule read_full_append) simp
  have "decodeAddr (?a @ um_payload m) = Inr (udp_host (um_host m), um_port m, length ?a)"
    using assms(1) by (simp add: msg_ok_def decodeAddr_encodeAddr)
  then show ?thesis
    using encodeAddr_min [of "um_host m" "um_port m"] n
    by (simp add: ReadMessage_def conn_read_full_def h b Let_def msg_view_def del: append_assoc of_nat_add)
qed

interpretation um: wire_codec encode_msg decode_msg msg_ok msg_view
  by unfold_locales (simp add: decode_msg_def ReadMessage_encode)

lemma WriteMessage_free:
  "wlim c = None \<Longrightarrow> msg_ok m \<Longrightarrow> WriteMessage m c = (None, c\<lparr>outb := outb c @ encode_msg m\<rparr>)"
  by (simp add: WriteMessage_def Let_def msg_ok_def conn_write_free encode_msg_def)

text \<open>A message that the witnesses use.\<close>

definition dns_msg :: udp_message where
  "dns_msg = \<lparr>um_host = ''dns'', um_port = 53, um_payload = [1, 2]\<rparr>"

lemma dns_msg_ok: "msg_ok dns_msg" "msg_view dns_msg = dns_msg"
proof -
  have "skip_space ''dns'' = Some ''dns''" by (subst skip_space.simps) (simp add: space_len_def Let_def)
  then have v4: "parseIPv4 ''dns'' = None" by (simp add: parseIPv4_def scan_uint_def Let_def is_digit_def)
  moreover have "ip6_of ''dns'' = None" by (simp add: ip6_of_def ParseIP_def)
  ultimately show "msg_ok dns_msg" "msg_view dns_msg = dns_msg"
    by (simp_all add: dns_msg_def msg_ok_def udp_host_ok_def encodeAddr_alt msg_view_def udp_host_def)
qed

section \<open>Properties\<close>



text \<open>
  Framing survives bad addresses. A message whose address cannot be parsed is consumed
  whole, so the stream stays aligned on the next message; and a payload is never read past
  the announced length.
\<close>

theorem udp_bad_address_stays_aligned:
  assumes "inb c = le16 n @ body @ rest" and "length body = unat n" and "4 \<le> unat n"
  shows "inb (snd (ReadMessage c)) = rest \<and>
    fst (ReadMessage c) = (case decodeAddr body of Inl e \<Rightarrow> Inl (ParseUdpAddr e)
      | Inr (h, p, k) \<Rightarrow> Inr \<lparr>um_host = h, um_port = p, um_payload = drop k body\<rparr>)"
proof -
  have h: "read_full 2 (inb c) = (Inr (le16 n), body @ rest)" using assms(1) by simp
  have "get_le16 (le16 n ! 0) (le16 n ! Suc 0) = n" by (simp add: le16_def get_le16_le16)
  then show ?thesis using assms(2,3)
    by (simp add: ReadMessage_def conn_read_full_def h Let_def split: sum.splits prod.splits)
qed

theorem udp_bad_address_stays_aligned_witness:
  "inb (snd (ReadMessage \<lparr>inb = le16 4 @ [9, 9, 9, 9] @ [1, 2], outb = [], wlim = None\<rparr>)) = [1, 2]"
  using udp_bad_address_stays_aligned [of "\<lparr>inb = le16 4 @ [9, 9, 9, 9] @ [1, 2], outb = [], wlim = None\<rparr>"
      4 "[9, 9, 9, 9]" "[1, 2]"]
  by simp

end
