(* ===== verification/Base64.thy ===== *)
theory Base64
  imports Prelude
begin

text \<open>
  The unpadded base64 codecs of \<open>encoding/base64\<close>, \<open>RawURLEncoding\<close> and
  \<open>RawStdEncoding\<close> (\<open>url\<close> chooses the alphabet). Decoding is the package's: carriage
  returns and line feeds are skipped, every other character outside the alphabet is an
  error (\<open>None\<close>), so is a lone final character, and the unused low bits of the last
  character are not checked.
\<close>

definition b64_char :: "bool \<Rightarrow> nat \<Rightarrow> char" where
  "b64_char url d =
     (if d < 26 then char_of (65 + d) else if d < 52 then char_of (71 + d)
      else if d < 62 then char_of (d - 4)
      else if d = 62 then (if url then CHR ''-'' else CHR ''+'')
      else (if url then CHR ''_'' else CHR ''/''))"

definition b64_val :: "bool \<Rightarrow> char \<Rightarrow> nat option" where
  "b64_val url c = (let n = (of_char c :: nat) in
     if 65 \<le> n \<and> n \<le> 90 then Some (n - 65)
     else if 97 \<le> n \<and> n \<le> 122 then Some (n - 71)
     else if 48 \<le> n \<and> n \<le> 57 then Some (n + 4)
     else if c = (if url then CHR ''-'' else CHR ''+'') then Some 62
     else if c = (if url then CHR ''_'' else CHR ''/'') then Some 63
     else None)"

fun b64_sextets :: "bytes \<Rightarrow> nat list" where
  "b64_sextets [] = []"
| "b64_sextets [a] = [unat a div 4, unat a mod 4 * 16]"
| "b64_sextets [a, b] = [unat a div 4, unat a mod 4 * 16 + unat b div 16, unat b mod 16 * 4]"
| "b64_sextets (a # b # c # r) =
     [unat a div 4, unat a mod 4 * 16 + unat b div 16, unat b mod 16 * 4 + unat c div 64,
      unat c mod 64] @ b64_sextets r"

fun b64_join :: "nat list \<Rightarrow> bytes option" where
  "b64_join [] = Some []"
| "b64_join [w] = None"
| "b64_join [w, x] = Some [word_of_nat (w * 4 + x div 16)]"
| "b64_join [w, x, y] =
     Some [word_of_nat (w * 4 + x div 16), word_of_nat (x mod 16 * 16 + y div 4)]"
| "b64_join (w # x # y # z # r) =
     map_option ((@) [word_of_nat (w * 4 + x div 16), word_of_nat (x mod 16 * 16 + y div 4),
       word_of_nat (y mod 4 * 64 + z)]) (b64_join r)"

definition b64_encode :: "bool \<Rightarrow> bytes \<Rightarrow> string" where
  "b64_encode url bs = map (b64_char url) (b64_sextets bs)"

definition b64_decode :: "bool \<Rightarrow> string \<Rightarrow> bytes option" where
  "b64_decode url s =
     (let cs = filter (\<lambda>c. c \<noteq> CHR 0x0A \<and> c \<noteq> CHR 0x0D) s in
      if list_all (\<lambda>c. b64_val url c \<noteq> None) cs
      then b64_join (map (\<lambda>c. the (b64_val url c)) cs) else None)"

lemma b64_val_char [simp]: "d < 64 \<Longrightarrow> b64_val url (b64_char url d) = Some d"
proof -
  assume d: "d < 64"
  have lets: "d < 62 \<Longrightarrow> d - 4 < 256" by simp
  consider "d < 26" | "26 \<le> d" "d < 52" | "52 \<le> d" "d < 62" | "d = 62" | "d = 63"
    using d by linarith
  then show ?thesis
    by cases (auto simp: b64_val_def b64_char_def Let_def)
qed

lemma b64_sextets_less: "list_all (\<lambda>d. d < 64) (b64_sextets bs)"
proof (induction bs rule: b64_sextets.induct)
  case (2 a)
  then show ?case using unat_byte_less [of a] by auto
next
  case (3 a b)
  then show ?case using unat_byte_less [of a] unat_byte_less [of b] by auto
next
  case (4 a b c r)
  then show ?case
    using unat_byte_less [of a] unat_byte_less [of b] unat_byte_less [of c] by auto
qed simp

lemma word_of_nat_unat_eq: "n = unat (a :: byte) \<Longrightarrow> word_of_nat n = a"
  by simp

lemma b64_join_sextets: "b64_join (b64_sextets bs) = Some bs"
proof (induction bs rule: b64_sextets.induct)
  case (2 a)
  have "unat a div 4 * 4 + unat a mod 4 * 16 div 16 = unat a" by simp
  then show ?case by (simp only: b64_sextets.simps b64_join.simps word_of_nat_unat_eq)
next
  case (3 a b)
  have "unat b div 16 < 16" using unat_byte_less [of b] by auto
  then have "unat a div 4 * 4 + (unat a mod 4 * 16 + unat b div 16) div 16 = unat a"
    and "(unat a mod 4 * 16 + unat b div 16) mod 16 * 16 + unat b mod 16 * 4 div 4 = unat b"
    by simp_all
  then show ?case by (simp only: b64_sextets.simps b64_join.simps word_of_nat_unat_eq)
next
  case (4 a b c r)
  have "unat b div 16 < 16" "unat c div 64 < 4"
    using unat_byte_less [of b] unat_byte_less [of c] by auto
  then have "unat a div 4 * 4 + (unat a mod 4 * 16 + unat b div 16) div 16 = unat a"
    and "(unat a mod 4 * 16 + unat b div 16) mod 16 * 16 + (unat b mod 16 * 4 + unat c div 64) div 4 = unat b"
    and "(unat b mod 16 * 4 + unat c div 64) mod 4 * 64 + unat c mod 64 = unat c"
    by simp_all
  then show ?case
    using "4.IH" by (simp only: b64_sextets.simps b64_join.simps append_Cons append_Nil
      word_of_nat_unat_eq option.map)
qed simp

lemma b64_char_not_newline: "d < 64 \<Longrightarrow> b64_char url d \<noteq> CHR 0x0A \<and> b64_char url d \<noteq> CHR 0x0D"
proof -
  assume "d < 64"
  then have "b64_val url (b64_char url d) \<noteq> None" by simp
  moreover have "b64_val url (CHR 0x0A) = None" "b64_val url (CHR 0x0D) = None"
    by (simp_all add: b64_val_def)
  ultimately show ?thesis by metis
qed

lemma b64_decode_encode [simp]: "b64_decode url (b64_encode url bs) = Some bs"
proof -
  let ?cs = "b64_encode url bs"
  have small: "d < 64" if "d \<in> set (b64_sextets bs)" for d
    using that b64_sextets_less [of bs] by (simp add: list_all_iff)
  have f: "filter (\<lambda>c. c \<noteq> CHR 0x0A \<and> c \<noteq> CHR 0x0D) ?cs = ?cs"
    using small b64_char_not_newline by (auto simp: b64_encode_def filter_id_conv)
  have v: "list_all (\<lambda>c. b64_val url c \<noteq> None) ?cs"
    using small by (auto simp: b64_encode_def list_all_iff)
  have "map (\<lambda>c. the (b64_val url c)) ?cs = b64_sextets bs"
    using small by (simp add: b64_encode_def o_def map_idI)
  with f v show ?thesis by (simp add: b64_decode_def Let_def b64_join_sextets)
qed

lemma b64_encode_inj: "b64_encode url a = b64_encode url b \<Longrightarrow> a = b"
  by (metis b64_decode_encode option.inject)

text \<open>The alphabet: what a decoded text consists of.\<close>

lemma length_b64_encode_eq_0 [simp]: "b64_encode url bs = [] \<longleftrightarrow> bs = []"
  by (cases bs rule: b64_sextets.cases) (simp_all add: b64_encode_def)

end
