(* ===== verification/Http.thy ===== *)
theory Http
  imports Strconv
begin

text \<open>
  The part of \<open>net/http\<close> and \<open>net/url\<close> the program relies on: a parsed request, its
  accessors (\<open>Query().Get\<close>, \<open>Header.Get\<close>, \<open>Cookie\<close>), bounded reading of a body, and what
  a handler can answer. Header names compare without regard to case; a missing query
  parameter or header is the empty string, as in Go.
\<close>

record http_request =
  http_method :: string
  url_path :: string
  query :: "(string \<times> string) list"
  headers :: "(string \<times> string) list"
  cookies :: "(string \<times> string) list"
  req_body :: bytes
  body_fails :: bool
  remote_addr :: string

definition lower_char :: "char \<Rightarrow> char" where
  "lower_char c = (let n = (of_char c :: nat) in if 65 \<le> n \<and> n \<le> 90 then char_of (n + 32) else c)"

definition lower :: "string \<Rightarrow> string" where
  "lower s = map lower_char s"

definition assoc_get :: "(string \<times> string) list \<Rightarrow> string \<Rightarrow> string" where
  "assoc_get xs k = (case map_of xs k of None \<Rightarrow> '''' | Some v \<Rightarrow> v)"

definition query_get :: "http_request \<Rightarrow> string \<Rightarrow> string" where
  "query_get r k = assoc_get (query r) k"

definition header_get :: "http_request \<Rightarrow> string \<Rightarrow> string" where
  "header_get r k = assoc_get (map (\<lambda>(n, v). (lower n, v)) (headers r)) (lower k)"

definition get_cookie :: "http_request \<Rightarrow> string \<Rightarrow> string option" where
  "get_cookie r k = map_of (cookies r) k"

text \<open>
  \<open>io.ReadAll(io.LimitReader(body, n))\<close>: reading stops at the limit before a later error
  of the body is seen; \<open>None\<close> is the error.
\<close>

definition read_all_limited :: "int \<Rightarrow> http_request \<Rightarrow> bytes option" where
  "read_all_limited n r =
     (if n \<le> int (length (req_body r)) then Some (take (nat n) (req_body r))
      else if body_fails r then None else Some (req_body r))"

datatype http_response =
    Status nat
  | HttpError nat string
  | Page string
  | Fallback

lemma read_all_limited_short:
  "int (length (req_body r)) < n \<Longrightarrow> \<not> body_fails r \<Longrightarrow> read_all_limited n r = Some (req_body r)"
  by (simp add: read_all_limited_def)

lemma read_all_limited_bound:
  "read_all_limited n r = Some b \<Longrightarrow> 0 \<le> n \<Longrightarrow> int (length b) \<le> n \<and> (\<exists>t. req_body r = b @ t)"
  by (auto simp: read_all_limited_def split: if_splits) (metis append_take_drop_id)

end
