(* ===== verification/Auth.thy ===== *)
theory Auth
  imports Base64 Http
begin

text \<open>
  Model of \<open>internal/crypto/auth\<close>: the client's \<open>GenerateToken\<close> and the server's
  \<open>Validate\<close>, with the token layout, the user lookup, the time window and the double
  Diffie-Hellman exchange as the code has them. Curve25519, HKDF and ChaCha20-Poly1305 come
  from golang.org/x/crypto and are a record of parameters; \<open>crypto_ok\<close> states the
  documented facts the code relies on (agreement of the shared secret, sizes, and that
  opening a sealed text with the same key and nonce gives the text back). A slice
  expression that could be out of range is \<open>slice\<close>-checked: the outer \<open>None\<close> of a result
  is Go's run-time panic.
\<close>

section \<open>The cryptographic package\<close>

record crypto =
  X25519 :: "bytes \<Rightarrow> bytes \<Rightarrow> bytes option"
  Basepoint :: bytes
  hkdf_sha256 :: "bytes \<Rightarrow> bytes \<Rightarrow> string \<Rightarrow> nat \<Rightarrow> bytes option"
  aead_seal :: "bytes \<Rightarrow> bytes \<Rightarrow> bytes \<Rightarrow> bytes"
  aead_open :: "bytes \<Rightarrow> bytes \<Rightarrow> bytes \<Rightarrow> bytes option"

definition crypto_ok :: "crypto \<Rightarrow> bool" where
  "crypto_ok c \<longleftrightarrow>
     (\<forall>a p q. X25519 c a p = Some q \<longrightarrow> length q = 32) \<and>
     (\<forall>a b A B. X25519 c a (Basepoint c) = Some A \<longrightarrow> X25519 c b (Basepoint c) = Some B \<longrightarrow>
        X25519 c a B = X25519 c b A) \<and>
     (\<forall>s salt info n k. hkdf_sha256 c s salt info n = Some k \<longrightarrow> length k = n) \<and>
     (\<forall>k n p. length k = 32 \<longrightarrow> length n = 12 \<longrightarrow>
        aead_open c k n (aead_seal c k n p) = Some p \<and> length (aead_seal c k n p) = length p + 16)"

text \<open>\<open>chacha20poly1305.New\<close>: an error unless the key has 32 bytes.\<close>

definition aead_new :: "bytes \<Rightarrow> bytes option" where
  "aead_new k = (if length k = 32 then Some k else None)"

definition nonceSize :: nat where
  "nonceSize = 12"

text \<open>\<open>copy(dst[:n], src)\<close> into a zeroed array of \<open>n\<close> bytes.\<close>

definition copy_array :: "nat \<Rightarrow> bytes \<Rightarrow> bytes" where
  "copy_array n src = take n src @ replicate (n - length src) 0"

lemma copy_array_id [simp]: "length src = n \<Longrightarrow> copy_array n src = src"
  by (simp add: copy_array_def)

section \<open>Client\<close>

record client_x25519 =
  ServerPublicKey :: bytes
  UserPrivateKey :: bytes
  UserPublicKey :: bytes
  ShortID :: bytes

definition deriveKey :: "crypto \<Rightarrow> bytes \<Rightarrow> bytes \<Rightarrow> bytes \<Rightarrow> string \<Rightarrow> bytes option" where
  "deriveKey c shared shortID timestamp info = hkdf_sha256 c shared (shortID @ timestamp) info 32"

text \<open>
  The random draws are inputs, \<open>None\<close> when \<open>rand.Read\<close> fails; \<open>now\<close> is \<open>time.Now().Unix()\<close>.
\<close>

definition GenerateToken ::
  "crypto \<Rightarrow> client_x25519 \<Rightarrow> bytes option \<Rightarrow> bytes option \<Rightarrow> int \<Rightarrow> bytes \<Rightarrow> bytes option" where
  "GenerateToken c cl rnd_eph rnd_nonce now sessionID =
     Option.bind rnd_eph (\<lambda>ephPriv.
     Option.bind (X25519 c ephPriv (Basepoint c)) (\<lambda>ephPub.
     Option.bind (X25519 c ephPriv (ServerPublicKey cl)) (\<lambda>sharedEph.
     Option.bind (X25519 c (UserPrivateKey cl) (ServerPublicKey cl)) (\<lambda>sharedUser.
     let combined = copy_array 32 sharedEph @ copy_array 32 sharedUser;
         ts = be64 (word_of_int now)
     in Option.bind (deriveKey c combined (ShortID cl) ts ''nv-auth-v2'') (\<lambda>authKey.
        Option.bind (aead_new authKey) (\<lambda>aead.
        Option.bind rnd_nonce (\<lambda>nonce.
        let ciphertext = aead_seal c aead nonce sessionID
        in Some (ephPub @ UserPublicKey cl @ [word_of_nat (length (ShortID cl))] @ ShortID cl
             @ ts @ nonce @ ciphertext))))))))"

section \<open>Server\<close>

record user_entry =
  PublicKey :: bytes
  UserShortID :: string
  UserName :: string

record server_x25519 =
  PrivateKey :: bytes
  Users :: "string \<rightharpoonup> user_entry"
  MaxTimeDiff :: int
  TokenHeader :: string

datatype auth_err = ErrAuthFailed

definition extractToken :: "http_request \<Rightarrow> string \<Rightarrow> string" where
  "extractToken r name =
     (let name = (if name = '''' then ''nv_token'' else name) in
      case get_cookie r name of
        Some v \<Rightarrow> if v \<noteq> '''' then v else header_get r name
      | None \<Rightarrow> header_get r name)"

definition slice_ck :: "bytes \<Rightarrow> nat \<Rightarrow> nat \<Rightarrow> bytes option" where
  "slice_ck xs a b = (if a \<le> b \<and> b \<le> length xs then Some (go_slice xs a b) else None)"

record token_parts =
  tp_ephPub :: bytes
  tp_userPub :: bytes
  tp_shortID :: bytes
  tp_ts :: bytes
  tp_nonce :: bytes
  tp_ciphertext :: bytes

text \<open>The parsing part of \<open>Validate\<close>; the inner \<open>None\<close> is \<open>ErrAuthFailed\<close>.\<close>

definition parse_token :: "bytes \<Rightarrow> token_parts option option" where
  "parse_token tb =
     (if length tb < 32 + 32 + 1 + 0 + 8 + nonceSize + 16 then Some None
      else
        Option.bind (slice_ck tb 0 32) (\<lambda>ephPub.
        Option.bind (slice_ck tb 32 64) (\<lambda>userPub.
        Option.bind (slice_ck tb 64 65) (\<lambda>lenByte.
        let shortIDLen = unat (hd lenByte) in
        if 8 < shortIDLen \<or> length tb < 65 + shortIDLen + 8 + nonceSize + 32 then Some None
        else
          Option.bind (slice_ck tb 65 (65 + shortIDLen)) (\<lambda>shortID.
          Option.bind (slice_ck tb (65 + shortIDLen) (65 + shortIDLen + 8)) (\<lambda>ts.
          Option.bind (slice_ck tb (65 + shortIDLen + 8) (65 + shortIDLen + 8 + nonceSize)) (\<lambda>nonce.
          Option.bind (slice_ck tb (65 + shortIDLen + 8 + nonceSize) (length tb)) (\<lambda>ct.
          Some (Some \<lparr>tp_ephPub = ephPub, tp_userPub = userPub, tp_shortID = shortID,
            tp_ts = ts, tp_nonce = nonce, tp_ciphertext = ct\<rparr>)))))))))"

text \<open>The window check, on Go's wrapping 64-bit subtraction and negation.\<close>

definition timestamp_ok :: "int \<Rightarrow> int \<Rightarrow> bytes \<Rightarrow> bool" where
  "timestamp_ok maxDiff now ts =
     (let timestamp = sint (get_be64 ts);
          diff = wrap64 (now - timestamp);
          diff = (if diff < 0 then wrap64 (- diff) else diff)
      in \<not> maxDiff < diff)"

definition check_token :: "crypto \<Rightarrow> server_x25519 \<Rightarrow> int \<Rightarrow> token_parts \<Rightarrow> bytes option" where
  "check_token c s now t =
     (case Users s (hex_bytes (tp_shortID t)) of None \<Rightarrow> None
      | Some user \<Rightarrow>
        let userPubKey = copy_array 32 (tp_userPub t) in
        if PublicKey user \<noteq> replicate 32 0 \<and> userPubKey \<noteq> PublicKey user then None
        else if \<not> timestamp_ok (MaxTimeDiff s) now (tp_ts t) then None
        else
          Option.bind (X25519 c (PrivateKey s) (tp_ephPub t)) (\<lambda>sharedEph.
          Option.bind (X25519 c (PrivateKey s) (tp_userPub t)) (\<lambda>sharedUser.
          let combined = copy_array 32 sharedEph @ copy_array 32 sharedUser in
          Option.bind (deriveKey c combined (tp_shortID t) (tp_ts t) ''nv-auth-v2'') (\<lambda>authKey.
          Option.bind (aead_new authKey) (\<lambda>aead.
          Option.bind (aead_open c aead (tp_nonce t) (tp_ciphertext t)) (\<lambda>plaintext.
          if length plaintext \<noteq> 16 then None else Some (copy_array 16 plaintext)))))))"

definition Validate :: "crypto \<Rightarrow> server_x25519 \<Rightarrow> int \<Rightarrow> http_request \<Rightarrow> (auth_err + bytes) option" where
  "Validate c s now r =
     (let tokenB64 = extractToken r (TokenHeader s) in
      if tokenB64 = '''' then Some (Inl ErrAuthFailed)
      else case b64_decode True tokenB64 of None \<Rightarrow> Some (Inl ErrAuthFailed)
        | Some tokenBytes \<Rightarrow>
          (case parse_token tokenBytes of None \<Rightarrow> None
           | Some None \<Rightarrow> Some (Inl ErrAuthFailed)
           | Some (Some t) \<Rightarrow>
              (case check_token c s now t of None \<Rightarrow> Some (Inl ErrAuthFailed)
               | Some sid \<Rightarrow> Some (Inr sid))))"

section \<open>Keys\<close>

definition replace_char :: "char \<Rightarrow> char \<Rightarrow> string \<Rightarrow> string" where
  "replace_char a b s = map (\<lambda>c. if c = a then b else c) s"

definition trim_right :: "char \<Rightarrow> string \<Rightarrow> string" where
  "trim_right a s = rev (dropWhile (\<lambda>c. c = a) (rev s))"

datatype key_err = ErrDecode | ErrKeyLength

definition DecodeKey :: "string \<Rightarrow> key_err + bytes" where
  "DecodeKey b64 =
     (let b64 = replace_char CHR ''-'' CHR ''+'' b64;
          b64 = replace_char CHR ''_'' CHR ''/'' b64;
          b64 = trim_right CHR ''='' b64
      in case b64_decode False b64 of None \<Rightarrow> Inl ErrDecode
         | Some raw \<Rightarrow> if length raw \<noteq> 32 then Inl ErrKeyLength else Inr (copy_array 32 raw))"

definition DerivePublicKey :: "crypto \<Rightarrow> bytes \<Rightarrow> bytes option" where
  "DerivePublicKey c private = map_option (copy_array 32) (X25519 c private (Basepoint c))"

definition GenerateUserKeypair :: "crypto \<Rightarrow> bytes option \<Rightarrow> (bytes \<times> bytes) option" where
  "GenerateUserKeypair c rnd =
     Option.bind rnd (\<lambda>private.
     Option.bind (X25519 c private (Basepoint c)) (\<lambda>pub. Some (private, copy_array 32 pub)))"

section \<open>Parsing the layout\<close>

lemma slice_ck_mid [simp]:
  "slice_ck (xs @ ys @ zs) (length xs) (length xs + length ys) = Some ys"
  by (simp add: slice_ck_def go_slice_def)

lemma slice_at: "a = length xs \<Longrightarrow> b = length xs + length ys \<Longrightarrow> slice_ck (xs @ ys @ zs) a b = Some ys"
  by simp

lemma parse_token_layout:
  assumes "length e = 32" and "length u = 32" and "length i \<le> 8" and "length t = 8"
    and "length n = 12" and "32 \<le> length ct"
  shows "parse_token (e @ u @ [word_of_nat (length i)] @ i @ t @ n @ ct) =
    Some (Some \<lparr>tp_ephPub = e, tp_userPub = u, tp_shortID = i, tp_ts = t, tp_nonce = n, tp_ciphertext = ct\<rparr>)"
proof -
  let ?l = "[word_of_nat (length i) :: byte]"
  let ?tb = "e @ u @ ?l @ i @ t @ n @ ct"
  have l: "unat (hd ?l) = length i" using assms(3) by (simp add: unat_of_nat)
  have s1: "slice_ck ?tb 0 32 = Some e"
    using slice_at [of 0 "[]" 32 e "u @ ?l @ i @ t @ n @ ct"] assms by simp
  have s2: "slice_ck ?tb 32 64 = Some u"
    by (rule slice_at) (use assms in simp_all)
  have s3: "slice_ck ?tb 64 65 = Some ?l"
    using slice_at [of 64 "e @ u" 65 ?l "i @ t @ n @ ct"] assms by simp
  have s4: "slice_ck ?tb 65 (65 + length i) = Some i"
    using slice_at [of 65 "e @ u @ ?l" "65 + length i" i "t @ n @ ct"] assms by simp
  have s5: "slice_ck ?tb (65 + length i) (65 + length i + 8) = Some t"
    using slice_at [of "65 + length i" "e @ u @ ?l @ i" "65 + length i + 8" t "n @ ct"] assms by simp
  have s6: "slice_ck ?tb (65 + length i + 8) (65 + length i + 8 + 12) = Some n"
    using slice_at [of "65 + length i + 8" "e @ u @ ?l @ i @ t" "65 + length i + 8 + 12" n ct] assms
    by simp
  have s7: "slice_ck ?tb (65 + length i + 8 + 12) (length ?tb) = Some ct"
    using slice_at [of "65 + length i + 8 + 12" "e @ u @ ?l @ i @ t @ n" "length ?tb" ct "[]"] assms
    by simp
  have len: "length ?tb = 65 + length i + 20 + length ct" using assms by simp
  show ?thesis
    unfolding parse_token_def nonceSize_def s1 s2 s3 bind.bind_lunit l Let_def s4 s5 s6 s7
    using assms len by simp
qed

lemma parse_token_no_panic: "parse_token tb \<noteq> None"
  by (auto simp: parse_token_def slice_ck_def nonceSize_def Let_def)

lemma parse_token_Some:
  assumes "parse_token tb = Some (Some t)"
  shows "length (tp_ephPub t) = 32 \<and> length (tp_userPub t) = 32 \<and> length (tp_shortID t) \<le> 8 \<and>
    length (tp_ts t) = 8 \<and> length (tp_nonce t) = 12 \<and> 32 \<le> length (tp_ciphertext t)"
  using assms
  by (auto simp: parse_token_def slice_ck_def nonceSize_def Let_def go_slice_def
      split: if_splits)

section \<open>The time window\<close>

lemma sint_get_be64:
  "- (2 ^ 63) \<le> ts \<Longrightarrow> ts < 2 ^ 63 \<Longrightarrow> sint (get_be64 (be64 (word_of_int ts))) = ts"
  by (simp add: get_be64_be64 sint_sbintrunc' signed_take_bit_int_eq_self)

lemma timestamp_ok_window:
  assumes "0 \<le> ts" and "ts < 2 ^ 63" and "0 \<le> now" and "now < 2 ^ 63"
  shows "timestamp_ok m now (be64 (word_of_int ts)) \<longleftrightarrow> \<bar>now - ts\<bar> \<le> m"
  using assms by (auto simp: timestamp_ok_def Let_def sint_get_be64)

section \<open>An honest client and its server\<close>

text \<open>
  \<open>registered c cl s\<close>: the client's and the server's keys belong together and the server's
  table has an entry for the client's short id, with the client's public key or, in legacy
  mode, with the zero key.
\<close>

definition registered :: "crypto \<Rightarrow> client_x25519 \<Rightarrow> server_x25519 \<Rightarrow> bool" where
  "registered c cl s \<longleftrightarrow>
     X25519 c (PrivateKey s) (Basepoint c) = Some (ServerPublicKey cl) \<and>
     X25519 c (UserPrivateKey cl) (Basepoint c) = Some (UserPublicKey cl) \<and>
     length (ShortID cl) \<le> 8 \<and>
     (case Users s (hex_bytes (ShortID cl)) of None \<Rightarrow> False
      | Some u \<Rightarrow> PublicKey u = UserPublicKey cl \<or> PublicKey u = replicate 32 0)"

lemma registeredE:
  assumes "registered c cl s"
  obtains u where "X25519 c (PrivateKey s) (Basepoint c) = Some (ServerPublicKey cl)"
    "X25519 c (UserPrivateKey cl) (Basepoint c) = Some (UserPublicKey cl)"
    "length (ShortID cl) \<le> 8" "Users s (hex_bytes (ShortID cl)) = Some u"
    "PublicKey u = UserPublicKey cl \<or> PublicKey u = replicate 32 0"
  using assms by (auto simp: registered_def split: option.splits)

lemma crypto_okD:
  assumes "crypto_ok c"
  shows "X25519 c a p = Some q \<Longrightarrow> length q = 32"
    and "X25519 c a (Basepoint c) = Some A \<Longrightarrow> X25519 c b (Basepoint c) = Some B \<Longrightarrow>
      X25519 c a B = X25519 c b A"
    and "hkdf_sha256 c sec salt info sz = Some k \<Longrightarrow> length k = sz"
    and "length k = 32 \<Longrightarrow> length n = 12 \<Longrightarrow> aead_open c k n (aead_seal c k n pt) = Some pt"
    and "length k = 32 \<Longrightarrow> length n = 12 \<Longrightarrow> length (aead_seal c k n pt) = length pt + 16"
  using assms unfolding crypto_ok_def by metis+

lemma GenerateTokenE:
  assumes "GenerateToken c cl (Some ephPriv) (Some nonce) ts sid = Some token"
  obtains ephPub sharedEph sharedUser authKey where
    "X25519 c ephPriv (Basepoint c) = Some ephPub"
    "X25519 c ephPriv (ServerPublicKey cl) = Some sharedEph"
    "X25519 c (UserPrivateKey cl) (ServerPublicKey cl) = Some sharedUser"
    "deriveKey c (copy_array 32 sharedEph @ copy_array 32 sharedUser) (ShortID cl)
      (be64 (word_of_int ts)) ''nv-auth-v2'' = Some authKey"
    "aead_new authKey = Some authKey"
    "token = ephPub @ UserPublicKey cl @ [word_of_nat (length (ShortID cl))] @ ShortID cl
       @ be64 (word_of_int ts) @ nonce @ aead_seal c authKey nonce sid"
  using assms
  by (auto simp: GenerateToken_def Let_def bind_eq_Some_conv aead_new_def split: if_splits)

lemma honest_token_accepted:
  assumes ok: "crypto_ok c" and reg: "registered c cl s"
    and fresh: "timestamp_ok (MaxTimeDiff s) now (be64 (word_of_int ts))"
    and sid: "length sid = 16" and nonce: "length nonce = 12"
    and tok: "GenerateToken c cl (Some ephPriv) (Some nonce) ts sid = Some token"
    and carry: "extractToken r (TokenHeader s) = b64_encode True token"
  shows "Validate c s now r = Some (Inr sid)"
proof -
  note C = crypto_okD [OF ok]
  obtain u where u: "X25519 c (PrivateKey s) (Basepoint c) = Some (ServerPublicKey cl)"
    "X25519 c (UserPrivateKey cl) (Basepoint c) = Some (UserPublicKey cl)"
    "length (ShortID cl) \<le> 8" "Users s (hex_bytes (ShortID cl)) = Some u"
    "PublicKey u = UserPublicKey cl \<or> PublicKey u = replicate 32 0"
    using reg by (rule registeredE)
  obtain ephPub sharedEph sharedUser authKey where
    g: "X25519 c ephPriv (Basepoint c) = Some ephPub"
    "X25519 c ephPriv (ServerPublicKey cl) = Some sharedEph"
    "X25519 c (UserPrivateKey cl) (ServerPublicKey cl) = Some sharedUser"
    "deriveKey c (copy_array 32 sharedEph @ copy_array 32 sharedUser) (ShortID cl)
      (be64 (word_of_int ts)) ''nv-auth-v2'' = Some authKey"
    "aead_new authKey = Some authKey"
    and t: "token = ephPub @ UserPublicKey cl @ [word_of_nat (length (ShortID cl))] @ ShortID cl
       @ be64 (word_of_int ts) @ nonce @ aead_seal c authKey nonce sid"
    using tok by (rule GenerateTokenE)
  let ?t = "\<lparr>tp_ephPub = ephPub, tp_userPub = UserPublicKey cl, tp_shortID = ShortID cl,
    tp_ts = be64 (word_of_int ts), tp_nonce = nonce, tp_ciphertext = aead_seal c authKey nonce sid\<rparr>"
  have k: "length authKey = 32" using g(5) by (simp add: aead_new_def split: if_splits)
  have lens: "length ephPub = 32" "length (UserPublicKey cl) = 32" using C(1) g(1) u(2) by blast+
  have p: "parse_token token = Some (Some ?t)"
    unfolding t by (rule parse_token_layout) (simp_all add: lens u(3) nonce C(5) [OF k nonce] sid)
  have se: "X25519 c (PrivateKey s) ephPub = Some sharedEph"
    using C(2) [OF u(1) g(1)] g(2) by simp
  have su: "X25519 c (PrivateKey s) (UserPublicKey cl) = Some sharedUser"
    using C(2) [OF u(1) u(2)] g(3) by simp
  have "check_token c s now ?t = Some sid"
    using u(4,5) fresh lens se su g(4,5) C(4) [OF k nonce] sid
    by (auto simp: check_token_def Let_def)
  moreover have "b64_encode True token \<noteq> ''''" using lens t by auto
  ultimately show ?thesis using p carry by (simp add: Validate_def Let_def)
qed

text \<open>The same token once its timestamp has left the window.\<close>

lemma late_token_rejected:
  assumes ok: "crypto_ok c" and reg: "registered c cl s"
    and late: "\<not> timestamp_ok (MaxTimeDiff s) now (be64 (word_of_int ts))"
    and sid: "length sid = 16" and nonce: "length nonce = 12"
    and tok: "GenerateToken c cl (Some ephPriv) (Some nonce) ts sid = Some token"
    and carry: "extractToken r (TokenHeader s) = b64_encode True token"
  shows "Validate c s now r = Some (Inl ErrAuthFailed)"
proof -
  note C = crypto_okD [OF ok]
  obtain ephPub authKey where g: "X25519 c ephPriv (Basepoint c) = Some ephPub" "aead_new authKey = Some authKey"
    and t: "token = ephPub @ UserPublicKey cl @ [word_of_nat (length (ShortID cl))] @ ShortID cl
       @ be64 (word_of_int ts) @ nonce @ aead_seal c authKey nonce sid"
    using tok by (rule GenerateTokenE) blast
  have k: "length authKey = 32" using g(2) by (simp add: aead_new_def split: if_splits)
  have u: "X25519 c (UserPrivateKey cl) (Basepoint c) = Some (UserPublicKey cl)" "length (ShortID cl) \<le> 8"
    using reg by (auto elim: registeredE)
  have lens: "length ephPub = 32" "length (UserPublicKey cl) = 32" using C(1) g(1) u(1) by blast+
  let ?q = "\<lparr>tp_ephPub = ephPub, tp_userPub = UserPublicKey cl, tp_shortID = ShortID cl,
    tp_ts = be64 (word_of_int ts), tp_nonce = nonce, tp_ciphertext = aead_seal c authKey nonce sid\<rparr>"
  have q: "parse_token token = Some (Some ?q)"
    unfolding t by (rule parse_token_layout) (simp_all add: lens u(2) nonce C(5) [OF k nonce] sid)
  have "check_token c s now ?q = None" using late by (simp add: check_token_def Let_def split: option.split)
  moreover have "b64_encode True token \<noteq> ''''" using lens t by auto
  ultimately show ?thesis using q carry by (simp add: Validate_def Let_def)
qed

text \<open>
  A small instance of the cryptographic parameters, for the witnesses: addition of byte
  vectors as the Diffie-Hellman group, a constant key derivation and a sealing that appends
  sixteen zero bytes.
\<close>

definition vec_add :: "bytes \<Rightarrow> bytes \<Rightarrow> bytes" where
  "vec_add a p = map (\<lambda>(x, y). x + y) (zip (copy_array 32 a) (copy_array 32 p))"

definition demo_crypto :: crypto where
  "demo_crypto = \<lparr>X25519 = (\<lambda>a p. Some (vec_add a p)), Basepoint = replicate 32 0,
     hkdf_sha256 = (\<lambda>s salt info n. Some (replicate n 7)),
     aead_seal = (\<lambda>k n p. p @ replicate 16 0),
     aead_open = (\<lambda>k n ct. Some (take (length ct - 16) ct))\<rparr>"

lemma length_copy_array [simp]: "length (copy_array n xs) = n"
  by (simp add: copy_array_def)

lemma zip_add_zero: "length xs = n \<Longrightarrow> map (\<lambda>(x, y). x + y) (zip xs (replicate n 0)) = (xs :: bytes)"
  by (induction xs arbitrary: n) auto

lemma vec_add_zero: "vec_add a (replicate 32 0) = copy_array 32 a"
  by (simp add: vec_add_def zip_add_zero)

lemma vec_add_commute: "length xs = length ys \<Longrightarrow>
    map (\<lambda>(x, y). x + y) (zip xs ys) = map (\<lambda>(x, y). x + y) (zip ys (xs :: bytes))"
  by (induction xs ys rule: list_induct2) (auto simp: add.commute)

lemma demo_crypto_ok: "crypto_ok demo_crypto"
proof -
  have "vec_add a (copy_array 32 b) = vec_add b (copy_array 32 a)" for a b
    using vec_add_commute [of "copy_array 32 a" "copy_array 32 b"] by (simp add: vec_add_def)
  then show ?thesis
    by (auto simp: crypto_ok_def demo_crypto_def vec_add_zero) (simp add: vec_add_def)
qed

definition demo_client :: client_x25519 where
  "demo_client = \<lparr>ServerPublicKey = replicate 32 5, UserPrivateKey = replicate 32 9,
     UserPublicKey = replicate 32 9, ShortID = [3, 0x93]\<rparr>"

definition demo_server :: server_x25519 where
  "demo_server = \<lparr>PrivateKey = replicate 32 5,
     Users = [''0393'' \<mapsto> \<lparr>PublicKey = replicate 32 9, UserShortID = ''0393'', UserName = ''bob''\<rparr>],
     MaxTimeDiff = 120, TokenHeader = ''''\<rparr>"

lemma demo_registered: "registered demo_crypto demo_client demo_server"
  by (simp add: registered_def demo_crypto_def demo_client_def demo_server_def vec_add_zero
      hex_bytes_def hex_char_def)
    (simp add: char_of_def bit_numeral_rec bit_Suc_0_iff)

definition demo_token :: "int \<Rightarrow> bytes \<Rightarrow> bytes" where
  "demo_token ts sid = the (GenerateToken demo_crypto demo_client (Some (replicate 32 1))
     (Some (replicate 12 2)) ts sid)"

lemma demo_token: "GenerateToken demo_crypto demo_client (Some (replicate 32 1))
     (Some (replicate 12 2)) ts sid = Some (demo_token ts sid)"
  by (simp add: demo_token_def GenerateToken_def demo_crypto_def deriveKey_def aead_new_def)

definition demo_request :: "bytes \<Rightarrow> http_request" where
  "demo_request token = \<lparr>http_method = ''GET'', url_path = ''/d'', query = [], headers = [],
     cookies = [(''nv_token'', b64_encode True token)], req_body = [], body_fails = False,
     remote_addr = ''10.0.0.1:5000''\<rparr>"

lemma demo_request_token:
  "token \<noteq> [] \<Longrightarrow> extractToken (demo_request token) '''' = b64_encode True token"
  by (simp add: extractToken_def demo_request_def get_cookie_def)

lemma demo_token_nonempty: "demo_token ts sid \<noteq> []"
  by (simp add: demo_token_def GenerateToken_def demo_crypto_def deriveKey_def aead_new_def)

section \<open>Normalising a printed key\<close>

definition std_char :: "char \<Rightarrow> char" where
  "std_char c = (if c = CHR ''-'' then CHR ''+'' else if c = CHR ''_'' then CHR ''/'' else c)"

lemma std_char_b64: "d < 64 \<Longrightarrow> std_char (b64_char url d) = b64_char False d"
proof -
  assume "d < 64"
  then consider "d < 62" | "d = 62" | "d = 63" by linarith
  then show ?thesis
  proof cases
    case 1
    then have e: "b64_char url d = b64_char False d" by (simp add: b64_char_def)
    have v: "b64_val True (b64_char True d) = Some d" using 1 by simp
    have "b64_val True (CHR ''-'') = Some 62" "b64_val True (CHR ''_'') = Some 63"
      by (simp_all add: b64_val_def)
    moreover have "b64_val True (b64_char True d) \<noteq> Some 62" "b64_val True (b64_char True d) \<noteq> Some 63"
      using v 1 by simp_all
    ultimately have "b64_char True d \<noteq> CHR ''-''" "b64_char True d \<noteq> CHR ''_''" by metis+
    moreover have "b64_char True d = b64_char False d" using 1 by (simp add: b64_char_def)
    ultimately show ?thesis using e by (simp add: std_char_def)
  qed (simp_all add: b64_char_def std_char_def)
qed

lemma b64_char_not_pad: "d < 64 \<Longrightarrow> b64_char url d \<noteq> CHR ''=''"
proof -
  assume "d < 64"
  then have v: "b64_val url (b64_char url d) = Some d" by simp
  have "b64_val url (CHR ''='') = None" by (simp add: b64_val_def)
  with v show ?thesis by auto
qed

lemma std_pad: "map std_char (replicate n CHR ''='') = replicate n CHR ''=''"
  by (simp add: std_char_def)

lemma replace_std:
  "replace_char CHR ''_'' CHR ''/'' (replace_char CHR ''-'' CHR ''+'' s) = map std_char s"
  by (simp add: replace_char_def std_char_def)

lemma replace_encode: "map std_char (b64_encode url bs) = b64_encode False bs"
  using b64_sextets_less [of bs] by (simp add: b64_encode_def list_all_iff std_char_b64)

lemma trim_right_pad:
  "trim_right CHR ''='' (b64_encode False bs @ replicate n CHR ''='') = b64_encode False bs"
proof -
  have "CHR ''='' \<notin> set (b64_encode False bs)"
    using b64_char_not_pad [of _ False] b64_sextets_less [of bs]
    by (fastforce simp: b64_encode_def list_all_iff)
  then have "\<forall>c \<in> set (rev (b64_encode False bs)). c \<noteq> CHR ''=''" by auto
  then have "dropWhile (\<lambda>c. c = CHR ''='') (rev (b64_encode False bs)) = rev (b64_encode False bs)"
    by (metis dropWhile_eq_self_iff hd_in_set)
  moreover have "dropWhile (\<lambda>c. c = CHR ''='') (replicate n CHR ''='' @ xs) =
      dropWhile (\<lambda>c. c = CHR ''='') xs" for xs
    by (induction n) simp_all
  ultimately show ?thesis by (simp add: trim_right_def)
qed

section \<open>Properties\<close>

text \<open>
  C7. A registered client is let in. For keys that belong together and a clock difference
  within the server's limit, the token the client generates for a session id, sent as the
  token cookie, is accepted and yields exactly that session id.
\<close>

theorem auth_complete:
  assumes "crypto_ok c" and "registered c cl s"
    and "\<bar>now - ts\<bar> \<le> MaxTimeDiff s" and "0 \<le> ts" and "ts < 2 ^ 63" and "0 \<le> now" and "now < 2 ^ 63"
    and "length sid = 16" and "length nonce = 12"
    and "GenerateToken c cl (Some ephPriv) (Some nonce) ts sid = Some token"
    and "extractToken r (TokenHeader s) = b64_encode True token"
  shows "Validate c s now r = Some (Inr sid)"
  using assms by (intro honest_token_accepted) (simp_all add: timestamp_ok_window)

theorem auth_complete_witness:
  "Validate demo_crypto demo_server 1000 (demo_request (demo_token 990 (replicate 16 4))) =
     Some (Inr (replicate 16 4))"
  by (rule auth_complete [OF demo_crypto_ok demo_registered, where ts = 990 and
        nonce = "replicate 12 2" and ephPriv = "replicate 32 1"])
    (simp_all add: demo_token demo_server_def demo_request_token demo_token_nonempty)



text \<open>
  No request can crash the validation: on every cookie or header value, of any length and
  content, \<open>Validate\<close> stays within the bounds of the token and returns a session id or
  \<open>ErrAuthFailed\<close>.
\<close>

theorem validate_total:
  "Validate c s now r = Some (Inl ErrAuthFailed) \<or> (\<exists>sid. Validate c s now r = Some (Inr sid))"
  using parse_token_no_panic [of "the (b64_decode True (extractToken r (TokenHeader s)))"]
  by (auto simp: Validate_def Let_def split: option.splits)

text \<open>
  The window check has a hole at the end of the 64-bit range: negating the most negative
  difference leaves it negative, so a token stamped exactly \<open>2 ^ 63\<close> seconds before the
  server's clock passes as fresh, however small the permitted difference.
\<close>

theorem stale_token_accepted:
  assumes "crypto_ok c" and "registered c cl s" and "0 \<le> MaxTimeDiff s"
    and "0 \<le> now" and "now < 2 ^ 63"
    and "length sid = 16" and "length nonce = 12"
    and "GenerateToken c cl (Some ephPriv) (Some nonce) (now - 2 ^ 63) sid = Some token"
    and "extractToken r (TokenHeader s) = b64_encode True token"
  shows "Validate c s now r = Some (Inr sid)"
proof -
  have e: "sint (get_be64 (be64 (word_of_int (now - 2 ^ 63)))) = now - 2 ^ 63"
    by (rule sint_get_be64) (use assms in simp_all)
  have "wrap64 (2 ^ 63) = - (2 ^ 63)" by (simp add: wrap64_def)
  then have "timestamp_ok (MaxTimeDiff s) now (be64 (word_of_int (now - 2 ^ 63)))"
    unfolding timestamp_ok_def e Let_def using assms(3) by simp
  with assms show ?thesis by (intro honest_token_accepted)
qed

theorem stale_token_accepted_witness:
  "Validate demo_crypto demo_server 1000 (demo_request (demo_token (1000 - 2 ^ 63) (replicate 16 4))) =
     Some (Inr (replicate 16 4))"
  by (rule stale_token_accepted [OF demo_crypto_ok demo_registered, where
        nonce = "replicate 12 2" and ephPriv = "replicate 32 1"])
    (simp_all add: demo_token demo_server_def demo_request_token demo_token_nonempty)

lemma DecodeKey_encode: "length key = 32 \<Longrightarrow> DecodeKey (b64_encode url key @ replicate n CHR ''='') = Inr key"
  by (simp add: DecodeKey_def Let_def replace_std std_pad [unfolded map_replicate] replace_encode trim_right_pad)

text \<open>
  Keys may be written in either base64 alphabet, padded or not: \<open>DecodeKey\<close> gives back
  the 32 bytes of a key printed in standard or in URL-safe form with any number of padding
  characters.
\<close>

theorem decode_key_any_form:
  assumes "length key = 32"
  shows "DecodeKey (b64_encode url key @ replicate n CHR ''='') = Inr key"
  using assms by (rule DecodeKey_encode)

theorem decode_key_any_form_witness:
  "DecodeKey (b64_encode True (replicate 32 255) @ ''='') = Inr (replicate 32 255)"
  using decode_key_any_form [of "replicate 32 255" True 1] by simp

end
