(* ===== verification/Xhttp_Server.thy ===== *)
theory Xhttp_Server
  imports Session Http
begin

text \<open>
  Model of the server side of \<open>internal/transport/xhttp\<close>: configuration defaults
  (config.go), the connection made of a session's two directions (conn.go) and the HTTP
  handlers with the accept channel (server.go). A handler that runs as long as its request
  is split where it blocks: \<open>ServeHTTP\<close> returns the work that remains (\<open>UploadPump\<close>,
  \<open>DownloadLoop\<close>) and \<open>pump_step\<close>, \<open>download_step\<close> are one iteration of it, so that
  the handlers of one session interleave. The authenticator is a parameter (theory Auth has
  the program's own), \<open>None\<close> as the result of an operation is a Go panic, and times are
  nanoseconds.
\<close>

section \<open>config.go\<close>

record config =
  PathPrefix :: string
  UploadPath :: string
  DownloadPath :: string
  SessionKeyName :: string
  MaxChunkSize :: int
  SessionTimeout :: int
  CfgDownloadBufferBytes :: int
  UploadMode :: string

definition defaults :: "config \<Rightarrow> config" where
  "defaults c = c\<lparr>
     PathPrefix := (if PathPrefix c = '''' then ''/api'' else PathPrefix c),
     UploadPath := (if UploadPath c = '''' then ''/u'' else UploadPath c),
     DownloadPath := (if DownloadPath c = '''' then ''/d'' else DownloadPath c),
     SessionKeyName := (if SessionKeyName c = '''' then ''sid'' else SessionKeyName c),
     MaxChunkSize := (if MaxChunkSize c \<le> 0 then 14336 else MaxChunkSize c),
     SessionTimeout := (if SessionTimeout c \<le> 0 then 30 else SessionTimeout c),
     CfgDownloadBufferBytes := (if CfgDownloadBufferBytes c \<le> 0 then 4 * 1024 * 1024
                                else CfgDownloadBufferBytes c),
     UploadMode := (if UploadMode c = '''' then ''auto'' else UploadMode c)\<rparr>"

definition fullUploadPath :: "config \<Rightarrow> string" where
  "fullUploadPath c = PathPrefix c @ UploadPath c"

definition fullDownloadPath :: "config \<Rightarrow> string" where
  "fullDownloadPath c = PathPrefix c @ DownloadPath c"

lemma defaults_positive:
  "0 < MaxChunkSize (defaults c)" "0 < SessionTimeout (defaults c)"
  "0 < CfgDownloadBufferBytes (defaults c)" "UploadMode (defaults c) \<noteq> ''''"
  by (simp_all add: defaults_def)

section \<open>conn.go\<close>

record split_conn =
  sc_sess :: nat
  sc_remote :: string
  leftover :: bytes

definition newSplitConn :: "nat \<Rightarrow> string \<Rightarrow> split_conn" where
  "newSplitConn r remote = \<lparr>sc_sess = r, sc_remote = remote, leftover = []\<rparr>"

datatype read_result = RData bytes | RErr session_err | RWait

text \<open>
  Every error the pipe can report is \<open>EOF\<close> or \<open>ErrClosedPipe\<close>, which \<open>readStream\<close>
  translates to \<open>ErrSessionClosed\<close>.
\<close>

definition readStream :: "nat \<Rightarrow> session \<Rightarrow> read_result \<times> session" where
  "readStream n s =
     (case StreamReader s of (None, s1) \<Rightarrow> (RWait, s1)
      | (Some p, s1) \<Rightarrow>
        (case pipe_read n p of
           (PData d, p') \<Rightarrow> (RData d, s1\<lparr>stream_pipe := Some p'\<rparr>)
         | (PErr e, p') \<Rightarrow> (RErr ErrSessionClosed, s1\<lparr>stream_pipe := Some p'\<rparr>)
         | (PBlock, p') \<Rightarrow> (RWait, s1\<lparr>stream_pipe := Some p'\<rparr>)))"

text \<open>\<open>Read\<close> from the call of \<open>ReadUpload\<close> on, where a waiting reader resumes.\<close>

definition conn_pull :: "nat \<Rightarrow> split_conn \<Rightarrow> session \<Rightarrow> read_result \<times> split_conn \<times> session" where
  "conn_pull n c s =
     (case ReadUpload s of
        (UWait, s') \<Rightarrow> (RWait, c, s')
      | (UStop, s') \<Rightarrow>
          if IsStreamMode s' then (case readStream n s' of (r, s'') \<Rightarrow> (r, c, s''))
          else (RErr ErrSessionClosed, c, s')
      | (UChunk data, s') \<Rightarrow>
          (RData (take n data), (if n < length data then c\<lparr>leftover := drop n data\<rparr> else c), s'))"

definition conn_read :: "nat \<Rightarrow> split_conn \<Rightarrow> session \<Rightarrow> read_result \<times> split_conn \<times> session" where
  "conn_read n c s =
     (if IsStreamMode s then (case readStream n s of (r, s') \<Rightarrow> (r, c, s'))
      else if leftover c \<noteq> []
      then (RData (take n (leftover c)), c\<lparr>leftover := drop n (leftover c)\<rparr>, s)
      else conn_pull n c s)"

definition conn_send :: "bytes \<Rightarrow> split_conn \<Rightarrow> session \<Rightarrow> (session_err + int) \<times> session" where
  "conn_send p c s =
     (case Write p (download_buf s) of (r, d) \<Rightarrow> (r, s\<lparr>download_buf := d\<rparr>))"

definition conn_close :: "split_conn \<Rightarrow> session \<Rightarrow> session" where
  "conn_close c s = SessionClose s"

section \<open>A connection in packet mode is a byte source\<close>

text \<open>
  For a sender whose chunk number \<open>i\<close> is \<open>chunk i\<close> and who has \<open>k\<close> of them: what is still to
  come is the leftover and the chunks from the session's next sequence number on.
\<close>

definition conn_rd :: "nat \<Rightarrow> split_conn \<times> session \<Rightarrow> bytes option \<times> split_conn \<times> session" where
  "conn_rd n cs =
     (case conn_read n (fst cs) (snd cs) of
        (RData d, c', s') \<Rightarrow> (Some d, c', s') | (_, c', s') \<Rightarrow> (None, c', s'))"

definition conn_content :: "(int \<Rightarrow> bytes) \<Rightarrow> nat \<Rightarrow> split_conn \<times> session \<Rightarrow> bytes" where
  "conn_content chunk k cs =
     leftover (fst cs) @ concat (map (chunk \<circ> int) [nat (next_seq (snd cs))..<k])"

definition conn_ok :: "(int \<Rightarrow> bytes) \<Rightarrow> nat \<Rightarrow> split_conn \<times> session \<Rightarrow> bool" where
  "conn_ok chunk k cs \<longleftrightarrow> packet_live (snd cs) \<and> 0 \<le> next_seq (snd cs) \<and>
     next_seq (snd cs) \<le> int k \<and> int k < 2 ^ 63 \<and>
     (\<forall>i d. lookup_upload (snd cs) i = Some d \<longrightarrow> d = chunk i \<and> i < int k)"

lemma ReadUpload_packet:
  assumes "packet_live s" and "next_seq s < 2 ^ 63 - 1"
  shows "case lookup_upload s (next_seq s) of
     None \<Rightarrow> ReadUpload s = (UWait, s)
   | Some d \<Rightarrow> \<exists>s'. ReadUpload s = (UChunk d, s') \<and> next_seq s' = next_seq s + 1 \<and>
       lookup_upload s' = (lookup_upload s)(next_seq s := None) \<and> packet_live s'"
proof (cases "lookup_upload s (next_seq s)")
  case None
  then show ?thesis using packet_liveD [OF assms(1)] by (auto simp: ReadUpload_def)
next
  case (Some d)
  from uq.pop_Some [OF assms this] obtain s' where "pop_seq s = Some (d, s')"
    "lookup_upload s' = (lookup_upload s)(next_seq s := None)" "next_seq s' = next_seq s + 1" "packet_live s'"
    by blast
  moreover from this have "ReadUpload s = (UChunk d, s')"
    by (auto simp: pop_seq_def split: prod.splits upload_result.splits)
  ultimately show ?thesis using Some by simp
qed

lemma concat_from:
  "i < k \<Longrightarrow> concat (map f [i..<k]) = f i @ concat (map f [Suc i..<k])"
  by (simp add: upt_conv_Cons)

lemma conn_rd_cases:
  assumes ok: "conn_ok chunk k (c, s)" and rd: "conn_rd n (c, s) = (r, c', s')"
  shows "(leftover c \<noteq> [] \<and> r = Some (take n (leftover c)) \<and> c' = c\<lparr>leftover := drop n (leftover c)\<rparr> \<and> s' = s) \<or>
    (leftover c = [] \<and> lookup_upload s (next_seq s) = None \<and> r = None \<and> c' = c \<and> s' = s) \<or>
    (leftover c = [] \<and> lookup_upload s (next_seq s) = Some (chunk (next_seq s)) \<and>
      r = Some (take n (chunk (next_seq s))) \<and> leftover c' = drop n (chunk (next_seq s)) \<and>
      next_seq s' = next_seq s + 1 \<and> next_seq s < int k \<and>
      lookup_upload s' = (lookup_upload s)(next_seq s := None) \<and> packet_live s')"
proof (cases "leftover c = []")
  case False
  have "\<not> stream_mode s" using ok by (auto simp: conn_ok_def packet_live_def)
  then show ?thesis using rd False by (auto simp: conn_rd_def conn_read_def IsStreamMode_def)
next
  case True
  have live: "packet_live s" and "\<not> stream_mode s"
    using ok by (auto simp: conn_ok_def packet_live_def)
  then have rp: "conn_rd n (c, s) = (case conn_pull n c s of
        (RData d, c', s') \<Rightarrow> (Some d, c', s') | (_, c', s') \<Rightarrow> (None, c', s'))"
    using True by (simp add: conn_rd_def conn_read_def IsStreamMode_def)
  show ?thesis
  proof (cases "lookup_upload s (next_seq s)")
    case None
    then have "ReadUpload s = (UWait, s)"
      using packet_liveD [OF live] by (auto simp: ReadUpload_def)
    with rp rd True None show ?thesis by (simp add: conn_pull_def)
  next
    case (Some d)
    then have d: "d = chunk (next_seq s)" "next_seq s < int k" "int k < 2 ^ 63"
      using ok by (auto simp: conn_ok_def)
    then have "next_seq s < 2 ^ 63 - 1" by simp
    from ReadUpload_packet [OF live this] Some obtain s1 where s1: "ReadUpload s = (UChunk d, s1)"
      "next_seq s1 = next_seq s + 1" "lookup_upload s1 = (lookup_upload s)(next_seq s := None)" "packet_live s1"
      by auto
    have "r = Some (take n d)" "s' = s1" "leftover c' = drop n d"
      using rp rd s1(1) True by (auto simp: conn_pull_def split: if_splits)
    with s1 d True Some show ?thesis by simp
  qed
qed

lemma conn_rd_next:
  assumes "conn_ok chunk k (c, s)" and "conn_rd n (c, s) = (r, c', s')"
  shows "conn_ok chunk k (c', s') \<and>
    (case r of None \<Rightarrow> conn_content chunk k (c', s') = conn_content chunk k (c, s)
     | Some d \<Rightarrow> conn_content chunk k (c, s) = d @ conn_content chunk k (c', s') \<and> length d \<le> n)"
  using conn_rd_cases [OF assms]
proof (elim disjE conjE)
  assume *: "leftover c = []" "r = Some (take n (chunk (next_seq s)))"
    "leftover c' = drop n (chunk (next_seq s))" "next_seq s' = next_seq s + 1" "next_seq s < int k"
    "lookup_upload s' = (lookup_upload s)(next_seq s := None)" "packet_live s'"
  have nn: "0 \<le> next_seq s" using assms(1) by (simp add: conn_ok_def)
  then have nat: "nat (next_seq s + 1) = Suc (nat (next_seq s))" by (simp add: nat_add_distrib)
  have "nat (next_seq s) < k" using * nn by linarith
  from concat_from [OF this, of "chunk \<circ> int"] nn * nat
  have "conn_content chunk k (c, s) = take n (chunk (next_seq s)) @ conn_content chunk k (c', s')"
    by (simp add: conn_content_def)
  moreover have "conn_ok chunk k (c', s')"
    using assms(1) * by (auto simp: conn_ok_def split: if_splits)
  ultimately show ?thesis using *(2) by simp
qed (use assms(1) in \<open>simp_all add: conn_ok_def conn_content_def\<close>)

interpretation sc: byte_source conn_rd "conn_content chunk k" "conn_ok chunk k" for chunk k
proof (unfold_locales, goal_cases)
  case (1 s n d s')
  then show ?case
    using conn_rd_next [of chunk k "fst s" "snd s" n "Some d" "fst s'" "snd s'"] by simp
next
  case (2 s n s')
  then show ?case
    using conn_rd_next [of chunk k "fst s" "snd s" n None "fst s'" "snd s'"] by simp
qed

section \<open>server.go\<close>

record server =
  conf :: config
  mgr :: manager
  accept_ch :: "split_conn list"
  accept_closed :: bool

definition NewServer :: "config \<Rightarrow> server" where
  "NewServer c = (let c' = defaults c in
     \<lparr>conf = c',
      mgr = (NewManager (wrap64 (SessionTimeout c' * 1000000000)))
        \<lparr>DownloadBufferBytes := CfgDownloadBufferBytes c'\<rparr>,
      accept_ch = [], accept_closed = False\<rparr>)"

datatype accept_result = Accepted split_conn | Canceled | AcceptWait

definition Accept :: "server \<Rightarrow> accept_result \<times> server" where
  "Accept sv = (case accept_ch sv of
      c # cs \<Rightarrow> (Accepted c, sv\<lparr>accept_ch := cs\<rparr>)
    | [] \<Rightarrow> (if accept_closed sv then Canceled else AcceptWait, sv))"

definition ServerClose :: "server \<Rightarrow> server option" where
  "ServerClose sv = (if accept_closed sv then None else Some (sv\<lparr>accept_closed := True\<rparr>))"

definition sess_at :: "server \<Rightarrow> nat \<Rightarrow> session" where
  "sess_at sv r = heap (mgr sv) ! r"

definition upd_sess :: "nat \<Rightarrow> (session \<Rightarrow> session) \<Rightarrow> server \<Rightarrow> server" where
  "upd_sess r f sv =
     sv\<lparr>mgr := (mgr sv)\<lparr>heap := (heap (mgr sv))[r := f (heap (mgr sv) ! r)]\<rparr>\<rparr>"

text \<open>
  The send in \<open>tryEmit\<close> is a \<open>select\<close> with a default: dropped when the channel holds 64
  connections, a panic when the channel is closed.
\<close>

definition tryEmit :: "nat \<Rightarrow> string \<Rightarrow> server \<Rightarrow> server option" where
  "tryEmit r remote sv =
     (if \<not> has_download (sess_at sv r) then Some sv
      else if accepted (sess_at sv r) then Some sv
      else let sv1 = upd_sess r (\<lambda>s. s\<lparr>accepted := True\<rparr>) sv;
               conn = newSplitConn r remote
           in if accept_closed sv1 then None
              else if length (accept_ch sv1) < 64
              then Some (sv1\<lparr>accept_ch := accept_ch sv1 @ [conn]\<rparr>)
              else Some sv1)"

datatype handler =
    Done http_response
  | UploadPump nat bytes
  | DownloadLoop nat int

definition handleUploadStream ::
  "int \<Rightarrow> http_request \<Rightarrow> sid \<Rightarrow> server \<Rightarrow> (handler \<times> server) option" where
  "handleUploadStream now r i sv =
     (let (ref, m) = GetOrCreate now i (mgr sv);
          sv1 = upd_sess ref (\<lambda>s. s\<lparr>has_upload := True\<rparr>) (sv\<lparr>mgr := m\<rparr>)
      in case tryEmit ref (remote_addr r) sv1 of None \<Rightarrow> None
         | Some sv2 \<Rightarrow>
             Some (UploadPump ref (req_body r), upd_sess ref (\<lambda>s. snd (StreamUploadWriter s)) sv2))"

definition handleUpload ::
  "int \<Rightarrow> http_request \<Rightarrow> sid \<Rightarrow> server \<Rightarrow> (handler \<times> server) option" where
  "handleUpload now r i sv =
     (if header_get r ''X-NV-Mode'' = ''stream'' then handleUploadStream now r i sv
      else case ParseInt (query_get r ''seq'') of
        None \<Rightarrow> Some (Done (HttpError 400 ''bad seq''), sv)
      | Some sq \<Rightarrow>
         (case read_all_limited (wrap64 (MaxChunkSize (conf sv) + 1024)) r of
            None \<Rightarrow> Some (Done (HttpError 500 ''read error''), sv)
          | Some body \<Rightarrow>
             let (ref, m) = GetOrCreate now i (mgr sv); sv1 = sv\<lparr>mgr := m\<rparr> in
             (case PushUpload sq body (sess_at sv1 ref) of None \<Rightarrow> None
              | Some s \<Rightarrow>
                 (case tryEmit ref (remote_addr r)
                         (upd_sess ref (\<lambda>_. s\<lparr>has_upload := True\<rparr>) sv1) of
                    None \<Rightarrow> None
                  | Some sv2 \<Rightarrow> Some (Done (Status 200), sv2)))))"

definition download_offset_of :: "http_request \<Rightarrow> int" where
  "download_offset_of r =
     (let offStr = query_get r ''off'' in
      if offStr = '''' then 0
      else case ParseInt offStr of None \<Rightarrow> 0 | Some v \<Rightarrow> if 0 < v then v else 0)"

definition handleDownload ::
  "int \<Rightarrow> http_request \<Rightarrow> sid \<Rightarrow> server \<Rightarrow> (handler \<times> server) option" where
  "handleDownload now r i sv =
     (let (ref, m) = GetOrCreate now i (mgr sv);
          sv1 = upd_sess ref (\<lambda>s. MarkConnected (s\<lparr>has_download := True\<rparr>)) (sv\<lparr>mgr := m\<rparr>)
      in case tryEmit ref (remote_addr r) sv1 of None \<Rightarrow> None
         | Some sv2 \<Rightarrow> Some (DownloadLoop ref (download_offset_of r), sv2))"

text \<open>
  The download loop: a look at the buffer, which sends what is there (\<open>wok\<close> says whether
  writing the response works), and the wait for a notification.
\<close>

datatype look_out = LSent bytes int | LWait | LReturn

definition download_look :: "bool \<Rightarrow> nat \<Rightarrow> int \<Rightarrow> server \<Rightarrow> look_out \<times> server" where
  "download_look wok ref offset sv =
     (case ReadFrom offset 32768 (download_buf (sess_at sv ref)) of (data, newOffset, err) \<Rightarrow>
        if data \<noteq> [] then
          (if \<not> wok then (LReturn, sv)
           else (LSent data newOffset,
             upd_sess ref (\<lambda>s. s\<lparr>download_buf := Advance newOffset (download_buf s)\<rparr>) sv))
        else if err \<noteq> None then (LReturn, sv)
        else (LWait, sv))"

definition download_wake :: "nat \<Rightarrow> server \<Rightarrow> server option" where
  "download_wake ref sv =
     (case recv_notify (download_buf (sess_at sv ref)) of
        Some (_, d) \<Rightarrow> Some (upd_sess ref (\<lambda>s. s\<lparr>download_buf := d\<rparr>) sv)
      | None \<Rightarrow> None)"

text \<open>One iteration of the loop, when nothing comes between the look and the wait.\<close>

datatype download_out = DSent bytes int | DAgain | DBlocked | DReturn

definition download_step :: "bool \<Rightarrow> nat \<Rightarrow> int \<Rightarrow> server \<Rightarrow> download_out \<times> server" where
  "download_step wok ref offset sv =
     (case download_look wok ref offset sv of
        (LSent data newOffset, sv') \<Rightarrow> (DSent data newOffset, sv')
      | (LReturn, sv') \<Rightarrow> (DReturn, sv')
      | (LWait, sv') \<Rightarrow>
          (case download_wake ref sv' of Some sv2 \<Rightarrow> (DAgain, sv2) | None \<Rightarrow> (DBlocked, sv')))"

text \<open>
  One iteration of \<open>io.CopyBuffer\<close> from the request body into the session's pipe, then the
  close of the pipe; \<open>k\<close> is how many bytes the body's \<open>Read\<close> returns (between 1 and the
  32 KiB of the buffer). A pipe write returns only once a reader has taken all of it.
\<close>

datatype pump_out = PumpMore bytes | PumpWait | PumpDone http_response

definition pump_step :: "nat \<Rightarrow> nat \<Rightarrow> bytes \<Rightarrow> server \<Rightarrow> pump_out \<times> server" where
  "pump_step k ref body sv =
     (case stream_pipe (sess_at sv ref) of None \<Rightarrow> (PumpWait, sv)
      | Some p \<Rightarrow>
        if pend p \<noteq> None \<and> \<not> wclosed p \<and> \<not> rclosed p then (PumpWait, sv)
        else if body = [] then (PumpDone (Status 200), upd_sess ref CloseStreamUpload sv)
        else let n = max 1 (min k 32768) in
          (case pipe_write (take n body) p of
             (PErr e, p') \<Rightarrow> (PumpDone (Status 200), upd_sess ref CloseStreamUpload sv)
           | (PBlock, p') \<Rightarrow> (PumpWait, sv)
           | (PData d, p') \<Rightarrow> (PumpMore (drop n body), upd_sess ref (\<lambda>s. s\<lparr>stream_pipe := Some p'\<rparr>) sv)))"

definition ServeHTTP ::
  "(http_request \<Rightarrow> 'e + sid) \<Rightarrow> int \<Rightarrow> http_request \<Rightarrow> server \<Rightarrow> (handler \<times> server) option" where
  "ServeHTTP validate now r sv =
     (case validate r of Inl e \<Rightarrow> Some (Done Fallback, sv)
      | Inr i \<Rightarrow>
        if http_method r = ''POST'' then handleUpload now r i sv
        else if http_method r = ''GET'' then handleDownload now r i sv
        else Some (Done Fallback, sv))"

lemmas server_defs [step_defs] =
  Accept_def tryEmit_def handleUpload_def handleUploadStream_def handleDownload_def
  download_look_def download_wake_def download_step_def pump_step_def ServeHTTP_def

section \<open>What each operation leaves alone\<close>

lemma upd_sess_simps [simp]:
  "accept_ch (upd_sess r f sv) = accept_ch sv" "conf (upd_sess r f sv) = conf sv"
  "accept_closed (upd_sess r f sv) = accept_closed sv"
  "sessions (mgr (upd_sess r f sv)) = sessions (mgr sv)"
  "length (heap (mgr (upd_sess r f sv))) = length (heap (mgr sv))"
  by (simp_all add: upd_sess_def)

lemma sess_at_upd:
  "sess_at (upd_sess r f sv) q =
     (if q = r \<and> r < length (heap (mgr sv)) then f (sess_at sv r) else sess_at sv q)"
  by (auto simp: sess_at_def upd_sess_def list_update_beyond)

lemma sess_at_mgr [simp]: "sess_at (sv\<lparr>mgr := m\<rparr>) q = heap m ! q"
  and sess_at_accept [simp]: "sess_at (sv\<lparr>accept_ch := cs\<rparr>) q = sess_at sv q"
  by (simp_all add: sess_at_def)

lemma upd_sess_inv:
  "manager_inv (mgr sv) \<Longrightarrow> session_inv (f (sess_at sv r)) \<Longrightarrow>
     sess_id (f (sess_at sv r)) = sess_id (sess_at sv r) \<Longrightarrow> manager_inv (mgr (upd_sess r f sv))"
  unfolding upd_sess_def sess_at_def by (simp add: manager_inv_update)

lemma sess_at_inv: "manager_inv (mgr sv) \<Longrightarrow> r < length (heap (mgr sv)) \<Longrightarrow> session_inv (sess_at sv r)"
  by (simp add: manager_inv_def list_all_length sess_at_def)

lemma session_flags_inv [simp]:
  "session_inv (s\<lparr>has_upload := a\<rparr>) = session_inv s"
  "session_inv (s\<lparr>has_download := b\<rparr>) = session_inv s"
  "session_inv (s\<lparr>accepted := c\<rparr>) = session_inv s"
  "session_inv (s\<lparr>connected := e\<rparr>) = session_inv s"
  by (simp_all add: session_inv_def)

text \<open>\<open>frame A sv sv'\<close>: outside the sessions in \<open>A\<close> nothing changed.\<close>

definition frame :: "nat set \<Rightarrow> server \<Rightarrow> server \<Rightarrow> bool" where
  "frame A sv sv' \<longleftrightarrow> length (heap (mgr sv)) \<le> length (heap (mgr sv')) \<and>
     (\<forall>q < length (heap (mgr sv)). q \<notin> A \<longrightarrow> sess_at sv' q = sess_at sv q)"

lemma frame_refl [simp]: "frame A sv sv"
  by (simp add: frame_def)

lemma frame_trans: "frame A x y \<Longrightarrow> frame A y z \<Longrightarrow> frame A x z"
  by (simp add: frame_def)

lemma frame_upd: "r \<in> A \<Longrightarrow> frame A sv (upd_sess r f sv)"
  by (auto simp: frame_def sess_at_upd)

lemma frame_accept: "frame A sv (sv\<lparr>accept_ch := cs\<rparr>)"
  by (simp add: frame_def)

lemma get_or_create_server:
  assumes "GetOrCreate now i (mgr sv) = (r, m)"
  shows "frame A sv (sv\<lparr>mgr := m\<rparr>)"
  using assms by (auto simp: GetOrCreate_def Let_def frame_def nth_append sess_at_def split: option.splits)

lemma get_or_create_ref:
  assumes "manager_inv m" and "GetOrCreate now i m = (r, m')"
  shows "r < length (heap m') \<and> manager_inv m' \<and> sess_id (heap m' ! r) = i \<and> Get i m' = Some r \<and>
    (\<forall>j. j \<noteq> i \<longrightarrow> Get j m' = Get j m)"
proof -
  have g: "Get i m' = Some r"
    using assms(2) by (auto simp: GetOrCreate_def Get_def Let_def split: option.splits)
  have inv: "manager_inv m'" using GetOrCreate_inv [OF assms(1)] assms(2) by (metis snd_conv)
  have o: "\<forall>j. j \<noteq> i \<longrightarrow> Get j m' = Get j m"
    using assms(2) by (auto simp: GetOrCreate_def Get_def Let_def split: option.splits)
  show ?thesis using manager_inv_lookup [OF inv] g inv o by (simp add: Get_def)
qed

section \<open>Emission of a session's connection\<close>

text \<open>
  \<open>emit_inv log sv\<close>: the connections already accepted (\<open>log\<close>) and those waiting in the
  channel belong to different sessions, each marked as accepted; the channel is bounded.
\<close>

definition emit_inv :: "split_conn list \<Rightarrow> server \<Rightarrow> bool" where
  "emit_inv log sv \<longleftrightarrow> manager_inv (mgr sv) \<and> length (accept_ch sv) \<le> 64 \<and>
     distinct (map sc_sess (log @ accept_ch sv)) \<and>
     (\<forall>c \<in> set (log @ accept_ch sv). sc_sess c < length (heap (mgr sv)) \<and>
        accepted (sess_at sv (sc_sess c)))"

lemma emit_inv_new: "emit_inv [] (NewServer c)"
  by (simp add: emit_inv_def NewServer_def Let_def manager_inv_def NewManager_def)

lemma emit_inv_keep:
  assumes "emit_inv log sv" and "manager_inv (mgr sv')" and "accept_ch sv' = accept_ch sv"
    and "length (heap (mgr sv)) \<le> length (heap (mgr sv'))"
    and "\<And>q. q < length (heap (mgr sv)) \<Longrightarrow> accepted (sess_at sv q) \<Longrightarrow> accepted (sess_at sv' q)"
  shows "emit_inv log sv'"
proof -
  have c: "sc_sess c < length (heap (mgr sv')) \<and> accepted (sess_at sv' (sc_sess c))"
    if "c \<in> set (log @ accept_ch sv)" for c
    using that assms(1,4,5) [unfolded emit_inv_def] by (meson order_less_le_trans)
  then show ?thesis using assms(1-3) unfolding emit_inv_def by metis
qed

lemma emit_inv_upd:
  assumes "emit_inv log sv" and "session_inv (sess_at sv r) \<Longrightarrow> session_inv (f (sess_at sv r))"
    and "sess_id (f (sess_at sv r)) = sess_id (sess_at sv r)"
    and "accepted (f (sess_at sv r)) = accepted (sess_at sv r)"
  shows "emit_inv log (upd_sess r f sv)"
proof (cases "r < length (heap (mgr sv))")
  case True
  have "manager_inv (mgr sv)" using assms(1) by (simp add: emit_inv_def)
  with True assms have "manager_inv (mgr (upd_sess r f sv))"
    by (simp add: upd_sess_inv sess_at_inv)
  with assms show ?thesis by (intro emit_inv_keep [OF assms(1)]) (auto simp: sess_at_upd)
next
  case False
  then show ?thesis using assms(1) by (simp add: upd_sess_def list_update_beyond)
qed

lemma emit_inv_get:
  assumes "emit_inv log sv" and "GetOrCreate now i (mgr sv) = (r, m)"
  shows "emit_inv log (sv\<lparr>mgr := m\<rparr>) \<and> r < length (heap m)"
proof -
  have m: "manager_inv (mgr sv)" using assms(1) by (simp add: emit_inv_def)
  note g = get_or_create_ref [OF m assms(2)] and f = get_or_create_server [OF assms(2), of "{}"]
  show ?thesis
    using g f by (intro conjI emit_inv_keep [OF assms(1)]) (auto simp: frame_def)
qed

lemma emit_inv_add:
  assumes "emit_inv log sv" and "sc_sess c = r" and "r < length (heap (mgr sv))"
    and "accepted (sess_at sv r)" and "\<forall>d \<in> set (log @ accept_ch sv). sc_sess d \<noteq> r"
    and "length (accept_ch sv) < 64"
  shows "emit_inv log (sv\<lparr>accept_ch := accept_ch sv @ [c]\<rparr>)"
proof -
  have "r \<notin> sc_sess ` set (log @ accept_ch sv)" using assms(5) by auto
  moreover have "distinct (map sc_sess (log @ accept_ch sv))" using assms(1) by (simp only: emit_inv_def)
  ultimately have "distinct (map sc_sess ((log @ accept_ch sv) @ [c]))"
    unfolding map_append [of _ "log @ accept_ch sv"] by (simp add: assms(2)) blast
  moreover have "\<forall>d \<in> set ((log @ accept_ch sv) @ [c]). sc_sess d < length (heap (mgr sv)) \<and>
      accepted (sess_at sv (sc_sess d))"
    using assms(1-4) by (simp add: emit_inv_def)
  ultimately show ?thesis using assms(1,6) unfolding emit_inv_def by simp
qed

lemma tryEmit_cases:
  assumes "tryEmit r remote sv = Some sv'"
  shows "sv' = sv \<or> (\<not> accepted (sess_at sv r) \<and>
     (let sv1 = upd_sess r (\<lambda>s. s\<lparr>accepted := True\<rparr>) sv in
      sv' = sv1 \<or> length (accept_ch sv) < 64 \<and>
        sv' = sv1\<lparr>accept_ch := accept_ch sv @ [newSplitConn r remote]\<rparr>))"
proof (cases "has_download (sess_at sv r) \<and> \<not> accepted (sess_at sv r) \<and> \<not> accept_closed sv")
  case True
  with assms show ?thesis
    by (cases "length (accept_ch sv) < 64") (simp_all add: tryEmit_def Let_def)
next
  case False
  with assms have "sv' = sv" by (auto simp: tryEmit_def Let_def split: if_splits)
  then show ?thesis by blast
qed

lemma tryEmit_emit_inv:
  assumes "emit_inv log sv" and "r < length (heap (mgr sv))" and "tryEmit r remote sv = Some sv'"
  shows "emit_inv log sv' \<and> frame {r} sv sv' \<and> length (heap (mgr sv')) = length (heap (mgr sv)) \<and>
    sessions (mgr sv') = sessions (mgr sv) \<and> conf sv' = conf sv \<and> accept_closed sv' = accept_closed sv"
proof -
  define sv1 where "sv1 = upd_sess r (\<lambda>s. s\<lparr>accepted := True\<rparr>) sv"
  have same: "accept_ch sv1 = accept_ch sv" "length (heap (mgr sv1)) = length (heap (mgr sv))"
    "sessions (mgr sv1) = sessions (mgr sv)" "conf sv1 = conf sv" "accept_closed sv1 = accept_closed sv"
    by (simp_all add: sv1_def)
  have m: "manager_inv (mgr sv1)"
    using assms(1,2) unfolding sv1_def by (intro upd_sess_inv) (auto simp: emit_inv_def sess_at_inv)
  have keep: "emit_inv log sv1"
    by (rule emit_inv_keep [OF assms(1) m]) (simp_all add: sv1_def sess_at_upd)
  have fr: "frame {r} sv sv1" by (simp add: sv1_def frame_upd)
  have acc: "accepted (sess_at sv1 r)" using assms(2) by (simp add: sv1_def sess_at_upd)
  consider "sv' = sv" | "sv' = sv1" | "\<not> accepted (sess_at sv r)" "length (accept_ch sv) < 64"
      "sv' = sv1\<lparr>accept_ch := accept_ch sv @ [newSplitConn r remote]\<rparr>"
    using tryEmit_cases [OF assms(3)] by (auto simp: sv1_def Let_def)
  then show ?thesis
  proof cases
    case 3
    have "\<forall>c \<in> set (log @ accept_ch sv). sc_sess c \<noteq> r"
      using assms(1) 3(1) unfolding emit_inv_def by metis
    then have "emit_inv log (sv1\<lparr>accept_ch := accept_ch sv1 @ [newSplitConn r remote]\<rparr>)"
      by (intro emit_inv_add [OF keep _ _ acc]) (simp_all add: newSplitConn_def same assms(2) 3(2))
    then have "emit_inv log sv'" by (simp add: 3(3) same)
    moreover have "frame {r} sv sv'" using frame_trans [OF fr frame_accept] by (simp add: 3(3))
    ultimately show ?thesis by (simp add: 3(3) same)
  qed (use assms keep fr same in simp_all)
qed

section \<open>One request\<close>

text \<open>\<open>serves i sv sv'\<close>: at most the session of id \<open>i\<close> was changed or created.\<close>

definition serves :: "sid \<Rightarrow> server \<Rightarrow> server \<Rightarrow> bool" where
  "serves i sv sv' \<longleftrightarrow> conf sv' = conf sv \<and> accept_closed sv' = accept_closed sv \<and>
     (\<forall>j q. j \<noteq> i \<longrightarrow> Get j (mgr sv') = Get j (mgr sv) \<and>
        (Get j (mgr sv) = Some q \<longrightarrow> sess_at sv' q = sess_at sv q))"

lemma serves_refl [simp]: "serves i sv sv"
  by (simp add: serves_def)

definition mild :: "(session \<Rightarrow> session) \<Rightarrow> session \<Rightarrow> bool" where
  "mild f s \<longleftrightarrow> (session_inv s \<longrightarrow> session_inv (f s)) \<and> sess_id (f s) = sess_id s \<and>
     accepted (f s) = accepted s"

lemma emit_inv_mild: "emit_inv log sv \<Longrightarrow> mild f (sess_at sv r) \<Longrightarrow> emit_inv log (upd_sess r f sv)"
  unfolding mild_def by (rule emit_inv_upd) auto

lemma serves_upd:
  assumes "emit_inv log sv" and "Get i (mgr sv) = Some r"
  shows "serves i sv (upd_sess r f sv)"
proof -
  have "q \<noteq> r" if "j \<noteq> i" "Get j (mgr sv) = Some q" for j q
    using that assms manager_inv_lookup [of "mgr sv" j q] manager_inv_lookup [of "mgr sv" i r]
    by (auto simp: emit_inv_def Get_def)
  then show ?thesis by (simp add: serves_def sess_at_upd) (simp add: Get_def upd_sess_def)
qed

lemma serves_trans: "serves i x y \<Longrightarrow> serves i y z \<Longrightarrow> serves i x z"
  unfolding serves_def by metis

lemma serves_frame:
  assumes "emit_inv log sv" and "Get i (mgr sv) = Some r" and "frame {r} sv sv'"
    and "sessions (mgr sv') = sessions (mgr sv)" and "conf sv' = conf sv" and "accept_closed sv' = accept_closed sv"
  shows "serves i sv sv'"
proof -
  have m: "manager_inv (mgr sv)" using assms(1) by (simp add: emit_inv_def)
  have "sess_at sv' q = sess_at sv q" if "j \<noteq> i" "Get j (mgr sv) = Some q" for j q
    using that assms(2,3) manager_inv_lookup [OF m, of j q] manager_inv_lookup [OF m, of i r]
    by (auto simp: frame_def Get_def)
  with assms(4-6) show ?thesis by (simp add: serves_def Get_def)
qed

lemma serves_get:
  assumes "emit_inv log sv" and "GetOrCreate now i (mgr sv) = (r, m)"
  shows "serves i sv (sv\<lparr>mgr := m\<rparr>)"
proof -
  have mi: "manager_inv (mgr sv)" using assms(1) by (simp add: emit_inv_def)
  note g = get_or_create_ref [OF mi assms(2)] and f = get_or_create_server [OF assms(2), of "{}"]
  have "heap m ! q = sess_at sv q" if "Get j (mgr sv) = Some q" for j q
    using that f manager_inv_lookup [OF mi, of j q] by (simp add: frame_def Get_def)
  with g show ?thesis by (simp add: serves_def)
qed

lemma request_core:
  assumes e: "emit_inv log sv" and g: "GetOrCreate now i (mgr sv) = (r, m)"
    and f: "mild f (heap m ! r)"
    and t: "tryEmit r remote (upd_sess r f (sv\<lparr>mgr := m\<rparr>)) = Some sv'"
  shows "emit_inv log sv' \<and> serves i sv sv' \<and> r < length (heap (mgr sv')) \<and> Get i (mgr sv') = Some r"
proof -
  let ?sv1 = "upd_sess r f (sv\<lparr>mgr := m\<rparr>)"
  note g1 = emit_inv_get [OF e g]
  have mi: "manager_inv (mgr sv)" using e by (simp add: emit_inv_def)
  have G: "Get i (mgr (sv\<lparr>mgr := m\<rparr>)) = Some r" using get_or_create_ref [OF mi g] by simp
  then have G1: "Get i (mgr ?sv1) = Some r" by (simp add: Get_def)
  have e1: "emit_inv log ?sv1" using emit_inv_mild [OF conjunct1 [OF g1]] f by simp
  have "r < length (heap (mgr ?sv1))" using g1 by simp
  note T = tryEmit_emit_inv [OF e1 this t]
  have "serves i ?sv1 sv'" using serves_frame [OF e1 G1] T by blast
  with serves_get [OF e g] serves_upd [OF conjunct1 [OF g1] G] have "serves i sv sv'"
    by (blast intro: serves_trans)
  with T g1 G1 show ?thesis by (simp add: Get_def)
qed

lemma tryEmit_total: "\<not> accept_closed sv \<Longrightarrow> \<exists>sv'. tryEmit r remote sv = Some sv'"
  by (auto simp: tryEmit_def Let_def)

lemma mild_simps [simp]:
  "mild (\<lambda>s. s\<lparr>has_upload := a\<rparr>) s"
  "mild (\<lambda>s. MarkConnected (s\<lparr>has_download := True\<rparr>)) s"
  "mild (\<lambda>s. snd (StreamUploadWriter s)) s"
  "mild CloseStreamUpload s"
  by (auto simp: mild_def MarkConnected_def StreamUploadWriter_def ensureStreamPipe_def
      CloseStreamUpload_def Let_def session_inv_def)

lemma mild_push: "PushUpload sq b s = Some s' \<Longrightarrow> mild (\<lambda>_. s'\<lparr>has_upload := True\<rparr>) s"
  using session_inv_steps(1) [of s sq b s']
  by (auto simp: mild_def PushUpload_def split: if_splits option.splits)

lemma handleUpload_ok:
  assumes e: "emit_inv log sv" and h: "handleUpload now r i sv = Some (h, sv')"
  shows "emit_inv log sv' \<and> serves i sv sv'"
proof -
  obtain ref m where g: "GetOrCreate now i (mgr sv) = (ref, m)" by (cases "GetOrCreate now i (mgr sv)")
  show ?thesis
  proof (cases "header_get r ''X-NV-Mode'' = ''stream''")
    case True
    then obtain sv2 where t: "tryEmit ref (remote_addr r)
        (upd_sess ref (\<lambda>s. s\<lparr>has_upload := True\<rparr>) (sv\<lparr>mgr := m\<rparr>)) = Some sv2"
      and sv': "sv' = upd_sess ref (\<lambda>s. snd (StreamUploadWriter s)) sv2"
      using h g by (auto simp: handleUpload_def handleUploadStream_def Let_def split: option.splits)
    note c = request_core [OF e g _ t]
    then show ?thesis
      using emit_inv_mild [of log sv2] serves_upd [of log sv2 i ref] serves_trans by (auto simp: sv')
  next
    case False
    then consider "sv' = sv" | sq body s where
      "PushUpload sq body (heap m ! ref) = Some s"
      "tryEmit ref (remote_addr r) (upd_sess ref (\<lambda>_. s\<lparr>has_upload := True\<rparr>) (sv\<lparr>mgr := m\<rparr>)) = Some sv'"
      using h g by (auto simp: handleUpload_def Let_def split: option.splits)
    then show ?thesis
      by cases (use e request_core [OF e g mild_push] in auto)
  qed
qed

lemma handleDownload_ok:
  assumes e: "emit_inv log sv" and h: "handleDownload now r i sv = Some (h, sv')"
  shows "emit_inv log sv' \<and> serves i sv sv'"
proof -
  obtain ref m where g: "GetOrCreate now i (mgr sv) = (ref, m)" by (cases "GetOrCreate now i (mgr sv)")
  then have "tryEmit ref (remote_addr r)
      (upd_sess ref (\<lambda>s. MarkConnected (s\<lparr>has_download := True\<rparr>)) (sv\<lparr>mgr := m\<rparr>)) = Some sv'"
    using h by (auto simp: handleDownload_def split: option.splits)
  from request_core [OF e g _ this] show ?thesis by simp
qed

lemma ServeHTTP_ok:
  assumes "emit_inv log sv" and "ServeHTTP v now r sv = Some (h, sv')"
  shows "emit_inv log sv' \<and> (case v r of Inl _ \<Rightarrow> sv' = sv | Inr i \<Rightarrow> serves i sv sv')"
proof (cases "v r")
  case (Inl e)
  with assms show ?thesis by (simp add: ServeHTTP_def)
next
  case (Inr i)
  then have "handleUpload now r i sv = Some (h, sv') \<or> handleDownload now r i sv = Some (h, sv') \<or> sv' = sv"
    using assms(2) unfolding ServeHTTP_def by (simp split: if_splits)
  then have "emit_inv log sv' \<and> serves i sv sv'"
    using assms(1) handleUpload_ok handleDownload_ok serves_refl by blast
  with Inr show ?thesis by simp
qed

lemma ServeHTTP_total:
  assumes "emit_inv log sv" and "\<not> accept_closed sv"
  shows "\<exists>h sv'. ServeHTTP v now r sv = Some (h, sv')"
proof (cases "v r")
  case (Inl e)
  then show ?thesis by (simp add: ServeHTTP_def)
next
  case (Inr i)
  obtain ref m where g: "GetOrCreate now i (mgr sv) = (ref, m)" by (cases "GetOrCreate now i (mgr sv)")
  have e1: "emit_inv log (sv\<lparr>mgr := m\<rparr>)" "ref < length (heap m)" using emit_inv_get [OF assms(1) g] by auto
  then have si: "session_inv (heap m ! ref)"
    using sess_at_inv [of "sv\<lparr>mgr := m\<rparr>" ref] by (simp add: emit_inv_def)
  have T: "\<exists>sv'. tryEmit ref rem (upd_sess ref f (sv\<lparr>mgr := m\<rparr>)) = Some sv'" for rem f
    by (rule tryEmit_total) (simp add: assms(2))
  have up: "\<exists>x. handleUploadStream now r i sv = Some x"
    using g T [of "remote_addr r" "\<lambda>s. s\<lparr>has_upload := True\<rparr>"]
    by (auto simp: handleUploadStream_def)
  have pk: "\<exists>x. handleUpload now r i sv = Some x"
  proof (cases "header_get r ''X-NV-Mode'' = ''stream''")
    case False
    show ?thesis
    proof (cases "ParseInt (query_get r ''seq'')")
      case (Some sq)
      show ?thesis
      proof (cases "read_all_limited (wrap64 (MaxChunkSize (conf sv) + 1024)) r")
        case (Some body)
        obtain s' where s': "PushUpload sq body (heap m ! ref) = Some s'"
          using PushUpload_no_panic [OF si] by blast
        show ?thesis
          using False \<open>ParseInt _ = _\<close> Some g s' T [of "remote_addr r" "\<lambda>_. s'\<lparr>has_upload := True\<rparr>"]
          by (auto simp: handleUpload_def Let_def)
      qed (use False \<open>ParseInt _ = _\<close> in \<open>simp add: handleUpload_def\<close>)
    qed (use False in \<open>simp add: handleUpload_def\<close>)
  qed (use up in \<open>simp add: handleUpload_def\<close>)
  have "\<exists>x. handleDownload now r i sv = Some x"
    using g T [of "remote_addr r" "\<lambda>s. MarkConnected (s\<lparr>has_download := True\<rparr>)"]
    by (auto simp: handleDownload_def)
  with pk have "\<exists>x. ServeHTTP v now r sv = Some x" by (simp add: ServeHTTP_def Inr)
  then show ?thesis by simp
qed

end
