(* ===== verification/Server_Runs.thy ===== *)
theory Server_Runs
  imports Xhttp_Server
begin

text \<open>
  Runs of the XHTTP server: requests, the iterations of their long-running handlers, the
  relay's reads and writes on accepted connections and the sweep of the session table, in
  any interleaving. The invariant of theory Xhttp_Server holds in every reachable state;
  the server's properties follow from it.
\<close>

section \<open>Reachable states\<close>

text \<open>
  \<open>reach v cfg sv log\<close>: the server configured with \<open>cfg\<close> and the authenticator \<open>v\<close>, whose
  verdict may depend on the time, can be in state \<open>sv\<close> after handing out the connections \<open>log\<close>.
\<close>

inductive reach :: "(int \<Rightarrow> http_request \<Rightarrow> 'e + sid) \<Rightarrow> config \<Rightarrow> server \<Rightarrow> split_conn list \<Rightarrow> bool"
  for v cfg where
  started: "reach v cfg (NewServer cfg) []"
| requested: "reach v cfg sv log \<Longrightarrow> ServeHTTP (v now) now r sv = Some (h, sv') \<Longrightarrow> reach v cfg sv' log"
| handed_out: "reach v cfg sv log \<Longrightarrow> Accept sv = (Accepted c, sv') \<Longrightarrow> reach v cfg sv' (log @ [c])"
| pumped: "reach v cfg sv log \<Longrightarrow> pump_step k ref body sv = (p, sv') \<Longrightarrow> reach v cfg sv' log"
| looked: "reach v cfg sv log \<Longrightarrow> download_look wok ref off sv = (l, sv') \<Longrightarrow> reach v cfg sv' log"
| woken: "reach v cfg sv log \<Longrightarrow> download_wake ref sv = Some sv' \<Longrightarrow> reach v cfg sv' log"
| relay_read: "reach v cfg sv log \<Longrightarrow> conn_read n c (sess_at sv (sc_sess c)) = (res, c', s') \<Longrightarrow>
    reach v cfg (upd_sess (sc_sess c) (\<lambda>_. s') sv) log"
| relay_send: "reach v cfg sv log \<Longrightarrow> conn_send data c (sess_at sv (sc_sess c)) = (e, s') \<Longrightarrow>
    reach v cfg (upd_sess (sc_sess c) (\<lambda>_. s') sv) log"
| relay_close: "reach v cfg sv log \<Longrightarrow> reach v cfg (upd_sess (sc_sess c) (conn_close c) sv) log"
| swept: "reach v cfg sv log \<Longrightarrow> reach v cfg (sv\<lparr>mgr := cleanup now (mgr sv)\<rparr>) log"

lemma mild_pipe: "stream_pipe s = Some p \<Longrightarrow> mild (\<lambda>s. s\<lparr>stream_pipe := Some q\<rparr>) s"
  by (auto simp: mild_def session_inv_def)

lemma mild_const: "mild f s \<Longrightarrow> f s = s' \<Longrightarrow> mild (\<lambda>_. s') s"
  by (simp add: mild_def)

lemma readStream_mild: "mild (\<lambda>s. snd (readStream n s)) s"
  by (auto simp: mild_def readStream_def StreamReader_def ensureStreamPipe_def Let_def session_inv_def
      split: option.splits pipe_result.splits prod.splits)

lemma ReadUpload_mild: "mild (\<lambda>s. snd (ReadUpload s)) s"
proof -
  have "sess_id (snd (ReadUpload s)) = sess_id s \<and> accepted (snd (ReadUpload s)) = accepted s"
    by (simp add: ReadUpload_def split: option.split)
  then show ?thesis using session_inv_steps(2) by (simp add: mild_def)
qed

lemma conn_pull_mild: "mild (\<lambda>s. snd (snd (conn_pull n c s))) s"
  using ReadUpload_mild [of s] readStream_mild [of n "snd (ReadUpload s)"]
  by (auto simp: mild_def conn_pull_def split: upload_result.splits prod.splits)

lemma conn_read_mild: "mild (\<lambda>s. snd (snd (conn_read n c s))) s"
  using conn_pull_mild [of n c s] readStream_mild [of n s]
  by (auto simp: mild_def conn_read_def split: prod.splits)

lemma conn_send_mild: "mild (\<lambda>s. snd (conn_send p c s)) s"
  using Write_fields [of p "download_buf s"] Write_inv [of "download_buf s" p]
  by (auto simp: mild_def conn_send_def session_inv_def split: prod.splits)

lemma conn_close_mild: "mild (conn_close c) s"
  using session_inv_steps(4) [of s] by (simp add: mild_def conn_close_def)

lemma pump_step_emit:
  assumes "emit_inv log sv" and "pump_step k ref body sv = (p, sv')"
  shows "emit_inv log sv'"
proof -
  have "sv' = sv \<or> sv' = upd_sess ref CloseStreamUpload sv \<or>
      (\<exists>q q'. stream_pipe (sess_at sv ref) = Some q \<and> sv' = upd_sess ref (\<lambda>s. s\<lparr>stream_pipe := Some q'\<rparr>) sv)"
    using assms(2) unfolding pump_step_def Let_def
    by (auto split: option.splits if_splits pipe_result.splits prod.splits)
  then show ?thesis
    using assms(1) by (auto intro: emit_inv_mild mild_pipe)
qed

lemma download_moves:
  assumes "download_look wok ref off sv = (l, sv') \<or> download_wake ref sv = Some sv'" and "emit_inv log sv"
  shows "emit_inv log sv' \<and> accept_closed sv' = accept_closed sv \<and> conf sv' = conf sv"
proof -
  let ?db = "download_buf (sess_at sv ref)"
  have "sv' = sv \<or> (\<exists>o'. sv' = upd_sess ref (\<lambda>s. s\<lparr>download_buf := Advance o' (download_buf s)\<rparr>) sv) \<or>
      sv' = upd_sess ref (\<lambda>s. s\<lparr>download_buf := ?db\<lparr>notify := False\<rparr>\<rparr>) sv"
    using assms(1) unfolding download_look_def download_wake_def recv_notify_def
    by (auto split: if_splits prod.splits option.splits)
  then show ?thesis
  proof (elim disjE exE)
    fix o' assume "sv' = upd_sess ref (\<lambda>s. s\<lparr>download_buf := Advance o' (download_buf s)\<rparr>) sv"
    moreover have "mild (\<lambda>s. s\<lparr>download_buf := Advance o' (download_buf s)\<rparr>) (sess_at sv ref)"
      by (auto simp: mild_def session_inv_def Advance_inv Advance_fields)
    ultimately show ?thesis using assms(2) emit_inv_mild by auto
  next
    assume "sv' = upd_sess ref (\<lambda>s. s\<lparr>download_buf := ?db\<lparr>notify := False\<rparr>\<rparr>) sv"
    moreover have "mild (\<lambda>s. s\<lparr>download_buf := ?db\<lparr>notify := False\<rparr>\<rparr>) (sess_at sv ref)"
      by (auto simp: mild_def session_inv_def)
    ultimately show ?thesis using assms(2) emit_inv_mild by auto
  qed (use assms(2) in simp)
qed

lemma cleanup_length: "length (heap (cleanup now m)) = length (heap m)"
proof -
  have "length (heap (fold (cleanup_entry now) xs m)) = length (heap m)" for xs
    by (induction xs arbitrary: m) (auto simp: cleanup_entry_eq)
  then show ?thesis by (simp add: cleanup_def)
qed

lemma cleanup_emit:
  assumes "emit_inv log sv"
  shows "emit_inv log (sv\<lparr>mgr := cleanup now (mgr sv)\<rparr>)"
proof -
  have m: "manager_inv (mgr sv)" using assms by (simp add: emit_inv_def)
  then have "distinct (map fst (sessions (mgr sv)))" by (simp add: manager_inv_def)
  note f = cleanup_fold [OF m order_refl this, of now, folded cleanup_def]
  have "accepted (heap (cleanup now (mgr sv)) ! q) = accepted (heap (mgr sv) ! q)" for q
    using f by simp
  then show ?thesis
    using f by (intro emit_inv_keep [OF assms]) (simp_all add: cleanup_length sess_at_def)
qed

lemma Accept_emit:
  assumes "emit_inv log sv" and "Accept sv = (Accepted c, sv')"
  shows "emit_inv (log @ [c]) sv'"
proof -
  obtain cs where cs: "accept_ch sv = c # cs" "sv' = sv\<lparr>accept_ch := cs\<rparr>"
    using assms(2) by (auto simp: Accept_def split: list.splits if_splits)
  have "(log @ [c]) @ accept_ch sv' = log @ accept_ch sv" by (simp add: cs)
  with assms(1) show ?thesis unfolding emit_inv_def by (simp add: cs)
qed

lemma reach_inv: "reach v cfg sv log \<Longrightarrow> emit_inv log sv \<and> \<not> accept_closed sv \<and> conf sv = defaults cfg"
proof (induction rule: reach.induct)
  case started
  then show ?case using emit_inv_new [of cfg] by (simp add: NewServer_def Let_def)
next
  case (requested sv log now r h sv')
  then show ?case using ServeHTTP_ok [of log sv "v now" now r h sv']
    by (cases "v now r") (auto simp: serves_def)
next
  case (handed_out sv log c sv')
  then have "accept_closed sv' = accept_closed sv \<and> conf sv' = conf sv"
    by (auto simp: Accept_def split: list.splits if_splits)
  with handed_out Accept_emit show ?case by auto
next
  case (pumped sv log k ref body p sv')
  moreover have "accept_closed sv' = accept_closed sv \<and> conf sv' = conf sv"
    using pumped(2) unfolding pump_step_def Let_def
    by (auto split: option.splits if_splits pipe_result.splits prod.splits)
  ultimately show ?case using pump_step_emit by auto
next
  case (looked sv log wok ref off l sv')
  then show ?case using download_moves [of wok ref off sv l sv' log] by simp
next
  case (woken sv log ref sv')
  then show ?case using download_moves [of _ ref _ sv _ sv' log] by simp
next
  case (relay_read sv log n c res c' s')
  then have "mild (\<lambda>_. s') (sess_at sv (sc_sess c))"
    by (intro mild_const [OF conn_read_mild [of n c]]) simp
  with relay_read emit_inv_mild show ?case by auto
next
  case (relay_send sv log data c e s')
  then have "mild (\<lambda>_. s') (sess_at sv (sc_sess c))"
    by (intro mild_const [OF conn_send_mild [of data c]]) simp
  with relay_send emit_inv_mild show ?case by auto
next
  case (relay_close sv log c)
  then show ?case using emit_inv_mild conn_close_mild by auto
next
  case (swept sv log now)
  then show ?case using cleanup_emit by auto
qed

text \<open>An empty configuration, for the witnesses.\<close>

definition demo_config :: config where
  "demo_config = \<lparr>PathPrefix = '''', UploadPath = '''', DownloadPath = '''', SessionKeyName = '''',
     MaxChunkSize = 0, SessionTimeout = 0, CfgDownloadBufferBytes = 0, UploadMode = ''''\<rparr>"

section \<open>Properties of the server\<close>

text \<open>
  Probing resistance. A request the authenticator rejects gets the fallback site, whatever
  its method, path, headers and body, and leaves no trace in the server's state; so does an
  authenticated request with a method other than GET and POST.
\<close>

theorem probe_gets_fallback:
  assumes "v r = Inl e \<or> http_method r \<noteq> ''GET'' \<and> http_method r \<noteq> ''POST''"
  shows "ServeHTTP v now r sv = Some (Done Fallback, sv)"
  using assms by (auto simp: ServeHTTP_def split: sum.splits)

theorem probe_gets_fallback_witness:
  "ServeHTTP (\<lambda>r. Inl ()) 0 \<lparr>http_method = ''POST'', url_path = ''/u'', query = [], headers = [],
     cookies = [], req_body = [1], body_fails = False, remote_addr = ''192.0.2.9:80''\<rparr> (NewServer demo_config) =
     Some (Done Fallback, NewServer demo_config)"
  by (rule probe_gets_fallback) simp

text \<open>
  C32. Tenant isolation. Whatever state the server has reached, handling a request that
  authenticates as session \<open>i\<close> leaves every other session (its table entry, its upload and
  download data and its flags) exactly as it was.
\<close>

theorem request_isolation:
  assumes "reach v cfg sv log" and "v now r = Inr i" and "ServeHTTP (v now) now r sv = Some (h, sv')"
    and "j \<noteq> i"
  shows "Get j (mgr sv') = Get j (mgr sv) \<and>
    (\<forall>q. Get j (mgr sv) = Some q \<longrightarrow> sess_at sv' q = sess_at sv q)"
proof -
  have "emit_inv log sv" using reach_inv [OF assms(1)] by blast
  from ServeHTTP_ok [OF this assms(3)] assms(2,4) show ?thesis by (simp add: serves_def)
qed

text \<open>
  C33. One connection per session. In every reachable state the connections handed to the
  relay, together with those waiting in the accept channel, belong to pairwise different
  sessions, and the channel never holds more than its 64 places.
\<close>

theorem emitted_at_most_once:
  assumes "reach v cfg sv log"
  shows "distinct (map sc_sess (log @ accept_ch sv)) \<and> length (accept_ch sv) \<le> 64"
  using reach_inv [OF assms] by (simp add: emit_inv_def)

text \<open>
  C34. No request crashes a handler: in every reachable state of the open server, every request
  is answered, without storing into a released map and without sending on a closed channel.
\<close>

theorem handler_never_panics:
  assumes "reach v cfg sv log"
  shows "\<exists>h sv'. ServeHTTP (v now) now r sv = Some (h, sv')"
  using reach_inv [OF assms] ServeHTTP_total by blast

section \<open>The upload stream\<close>

text \<open>
  \<open>upload_stream ref B body sv got\<close>: the stream-mode POST of session \<open>ref\<close> with body \<open>B\<close> has
  \<open>body\<close> left to copy, and the relay has read \<open>got\<close> from the connection.
\<close>

inductive upload_stream :: "nat \<Rightarrow> bytes \<Rightarrow> bytes \<Rightarrow> server \<Rightarrow> bytes \<Rightarrow> bool" for ref B where
  opened: "stream_pipe (sess_at sv ref) = Some new_pipe \<Longrightarrow> stream_mode (sess_at sv ref) \<Longrightarrow>
    ref < length (heap (mgr sv)) \<Longrightarrow> upload_stream ref B B sv []"
| copied: "upload_stream ref B body sv got \<Longrightarrow> pump_step k ref body sv = (PumpMore body', sv') \<Longrightarrow>
    upload_stream ref B body' sv' got"
| copy_ended: "upload_stream ref B body sv got \<Longrightarrow> pump_step k ref body sv = (PumpDone h, sv') \<Longrightarrow>
    upload_stream ref B body sv' got"
| received: "upload_stream ref B body sv got \<Longrightarrow>
    conn_read n c (sess_at sv ref) = (RData d, c', s') \<Longrightarrow>
    upload_stream ref B body (upd_sess ref (\<lambda>_. s') sv) (got @ d)"

definition stream_inv :: "nat \<Rightarrow> bytes \<Rightarrow> bytes \<Rightarrow> server \<Rightarrow> bytes \<Rightarrow> bool" where
  "stream_inv ref B body sv got \<longleftrightarrow> ref < length (heap (mgr sv)) \<and> stream_mode (sess_at sv ref) \<and>
     (case stream_pipe (sess_at sv ref) of None \<Rightarrow> False
      | Some p \<Rightarrow> \<not> rclosed p \<and> pend p \<noteq> Some [] \<and>
          B = got @ (case pend p of None \<Rightarrow> [] | Some d \<Rightarrow> d) @ body \<and>
          (wclosed p \<longrightarrow> pend p = None \<and> body = []))"

lemma conn_read_stream:
  assumes "stream_mode s" and "stream_pipe s = Some p"
  shows "conn_read n c s = (case pipe_read n p of
      (PData d, p') \<Rightarrow> (RData d, c, s\<lparr>stream_pipe := Some p'\<rparr>)
    | (PErr e, p') \<Rightarrow> (RErr ErrSessionClosed, c, s\<lparr>stream_pipe := Some p'\<rparr>)
    | (PBlock, p') \<Rightarrow> (RWait, c, s\<lparr>stream_pipe := Some p'\<rparr>))"
  using assms
  by (simp add: conn_read_def IsStreamMode_def readStream_def StreamReader_def ensureStreamPipe_def
      split: prod.split pipe_result.split)

lemma stream_inv_pump:
  assumes "stream_inv ref B body sv got" and "pump_step k ref body sv = (out, sv')"
  shows "(case out of PumpMore body' \<Rightarrow> stream_inv ref B body' sv' got
    | PumpWait \<Rightarrow> sv' = sv | PumpDone h \<Rightarrow> stream_inv ref B body sv' got)"
proof -
  obtain p where p: "stream_pipe (sess_at sv ref) = Some p" "\<not> rclosed p" "pend p \<noteq> Some []"
    "B = got @ (case pend p of None \<Rightarrow> [] | Some d \<Rightarrow> d) @ body" "wclosed p \<longrightarrow> pend p = None \<and> body = []"
    "ref < length (heap (mgr sv))" "stream_mode (sess_at sv ref)"
    using assms(1) by (auto simp: stream_inv_def split: option.splits)
  define n where "n = max 1 (min k 32768)"
  have n: "0 < n" by (simp add: n_def)
  consider "pend p \<noteq> None" "\<not> wclosed p" | "pend p = None" "body = []"
    | "pend p = None" "body \<noteq> []" "\<not> wclosed p"
    using p(5) by (cases "pend p"; cases "body = []"; cases "wclosed p") simp_all
  then show ?thesis
  proof cases
    case 1
    then show ?thesis using assms(2) p by (simp add: pump_step_def)
  next
    case 2
    then have "out = PumpDone (Status 200)" "sv' = upd_sess ref CloseStreamUpload sv"
      using assms(2) p by (auto simp: pump_step_def)
    then show ?thesis using p 2 by (simp add: stream_inv_def sess_at_upd CloseStreamUpload_def)
  next
    case 3
    then have "out = PumpMore (drop n body)"
      "sv' = upd_sess ref (\<lambda>s. s\<lparr>stream_pipe := Some (p\<lparr>pend := Some (take n body)\<rparr>)\<rparr>) sv"
      using assms(2) p by (auto simp: pump_step_def pipe_write_def n_def Let_def)
    then show ?thesis using p 3 n by (simp add: stream_inv_def sess_at_upd)
  qed
qed

lemma stream_inv_read:
  assumes "stream_inv ref B body sv got" and "conn_read n c (sess_at sv ref) = (RData d, c', s')"
  shows "stream_inv ref B body (upd_sess ref (\<lambda>_. s') sv) (got @ d)"
proof -
  obtain p where p: "stream_pipe (sess_at sv ref) = Some p" "\<not> rclosed p" "pend p \<noteq> Some []"
    "B = got @ (case pend p of None \<Rightarrow> [] | Some d \<Rightarrow> d) @ body" "wclosed p \<longrightarrow> pend p = None \<and> body = []"
    "ref < length (heap (mgr sv))" "stream_mode (sess_at sv ref)"
    using assms(1) by (auto simp: stream_inv_def split: option.splits)
  from conn_read_stream [OF p(7,1), of n c] assms(2) obtain e where
    e: "pend p = Some e" "\<not> wclosed p" "d = take n e"
    "s' = (sess_at sv ref)\<lparr>stream_pipe := Some (p\<lparr>pend := (if drop n e = [] then None else Some (drop n e))\<rparr>)\<rparr>"
    by (auto simp: pipe_read_def split: if_splits option.splits)
  have "e = d @ drop n e" by (simp add: e(3))
  then show ?thesis using p e by (auto simp: stream_inv_def sess_at_upd)
qed

lemma upload_stream_inv: "upload_stream ref B body sv got \<Longrightarrow> stream_inv ref B body sv got"
proof (induction rule: upload_stream.induct)
  case (opened sv)
  then show ?case by (simp add: stream_inv_def new_pipe_def)
next
  case (copied body sv got k body' sv')
  then show ?case using stream_inv_pump by fastforce
next
  case (copy_ended body sv got k h sv')
  then show ?case using stream_inv_pump by fastforce
next
  case (received body sv got n c d c' s')
  then show ?case using stream_inv_read by blast
qed

text \<open>
  C15. The stream-mode upload is lossless and does not get stuck. Whatever the sizes of the
  body's reads and of the relay's, what the relay has read is a prefix of the POST body; the
  connection reports its end only after the whole body; and as long as something is missing,
  either the copy loop can move on or the relay's next read returns data.
\<close>

theorem stream_upload_lossless:
  assumes "upload_stream ref B body sv got" and "0 < n"
  shows "(\<exists>rest. B = got @ rest) \<and>
    (fst (conn_read n c (sess_at sv ref)) = RErr e \<longrightarrow> got = B) \<and>
    (got \<noteq> B \<longrightarrow> (\<exists>b sv'. pump_step k ref body sv = (PumpMore b, sv') \<and> length b < length body) \<or>
       (\<exists>d r. conn_read n c (sess_at sv ref) = (RData d, r) \<and> d \<noteq> []))"
proof -
  obtain p where p: "stream_pipe (sess_at sv ref) = Some p" "\<not> rclosed p" "pend p \<noteq> Some []"
    "B = got @ (case pend p of None \<Rightarrow> [] | Some d \<Rightarrow> d) @ body" "wclosed p \<longrightarrow> pend p = None \<and> body = []"
    "stream_mode (sess_at sv ref)"
    using upload_stream_inv [OF assms(1)] by (auto simp: stream_inv_def split: option.splits)
  note rd = conn_read_stream [OF p(6,1), of n c]
  show ?thesis
  proof (cases "pend p")
    case None
    then have "fst (conn_read n c (sess_at sv ref)) = RErr e \<longrightarrow> wclosed p"
      using rd p(2) by (simp add: pipe_read_def)
    moreover have "\<exists>b sv'. pump_step k ref body sv = (PumpMore b, sv') \<and> length b < length body"
      if "got \<noteq> B"
      using that p None by (auto simp: pump_step_def pipe_write_def Let_def)
    ultimately show ?thesis using p None by auto
  next
    case (Some d)
    then have "\<not> wclosed p" using p(5) by simp
    then have "fst (conn_read n c (sess_at sv ref)) = RData (take n d)"
      using rd p(2) Some by (simp add: pipe_read_def)
    moreover have "take n d \<noteq> []" using Some p(3) assms(2) by simp
    ultimately show ?thesis using p(4) Some by (cases "conn_read n c (sess_at sv ref)") auto
  qed
qed

text \<open>A server with one session in stream mode, for the witnesses.\<close>

definition one_session :: server where
  "one_session = (NewServer demo_config)\<lparr>mgr := snd (GetOrCreate 0 [1] (mgr (NewServer demo_config)))\<rparr>"

lemma one_session_simps:
  "length (heap (mgr one_session)) = 1"
  "sess_at one_session 0 = NewSessionWithDownloadBuf [1] (4 * 1024 * 1024) 0"
  by (simp_all add: one_session_def NewServer_def GetOrCreate_def NewManager_def Let_def
      defaults_def demo_config_def sess_at_def)

definition stream_session :: server where
  "stream_session = upd_sess 0 (\<lambda>s. snd (StreamUploadWriter s)) one_session"

lemma stream_session_opened: "upload_stream 0 B B stream_session []"
  by (rule upload_stream.opened)
    (simp_all add: stream_session_def sess_at_upd one_session_simps StreamUploadWriter_def
      ensureStreamPipe_def Let_def NewSessionWithDownloadBuf_def)

theorem stream_upload_lossless_witness:
  "\<exists>b sv'. pump_step 1 0 [7, 8] stream_session = (PumpMore b, sv') \<and> length b < 2"
  using stream_upload_lossless [OF stream_session_opened [of "[7, 8]"], of 1 "newSplitConn 0 ''''" _ 1]
  by (simp add: stream_session_def sess_at_upd one_session_simps StreamUploadWriter_def
      ensureStreamPipe_def Let_def NewSessionWithDownloadBuf_def conn_read_stream new_pipe_def pipe_read_def
      newSplitConn_def numeral_2_eq_2)

section \<open>The download stream\<close>

text \<open>
  \<open>download_run ref sv W off got\<close>: the relay has written \<open>W\<close> to session \<open>ref\<close>, the handler of
  the client's current GET is at offset \<open>off\<close>, and \<open>got\<close> is what the client holds plus what
  is on its way to it. A GET that breaks loses what was on its way; the next GET carries the
  number of bytes the client holds in its \<open>off\<close> parameter.
\<close>

inductive download_run :: "nat \<Rightarrow> server \<Rightarrow> bytes \<Rightarrow> int \<Rightarrow> bytes \<Rightarrow> bool" for ref where
  opened: "represents (download_buf (sess_at sv ref)) [] \<Longrightarrow> ref < length (heap (mgr sv)) \<Longrightarrow>
    download_run ref sv [] 0 []"
| written: "download_run ref sv W off got \<Longrightarrow> conn_send p c (sess_at sv ref) = (Inr n, s') \<Longrightarrow>
    download_run ref (upd_sess ref (\<lambda>_. s') sv) (W @ p) off got"
| sent: "download_run ref sv W off got \<Longrightarrow> download_step True ref off sv = (DSent d off', sv') \<Longrightarrow>
    download_run ref sv' W off' (got @ d)"
| woken: "download_run ref sv W off got \<Longrightarrow> download_step wok ref off sv = (DAgain, sv') \<Longrightarrow>
    download_run ref sv' W off got"
| reconnected: "download_run ref sv W off got \<Longrightarrow> k \<le> length got \<Longrightarrow> int k < 2 ^ 63 \<Longrightarrow>
    query_get r ''off'' = FormatInt (int k) \<Longrightarrow>
    download_run ref sv W (download_offset_of r) (take k got)"

lemma download_offset_FormatInt:
  "query_get r ''off'' = FormatInt (int k) \<Longrightarrow> int k < 2 ^ 63 \<Longrightarrow> download_offset_of r = int k"
  using ParseInt_FormatInt [of "int k"]
  by (simp add: download_offset_of_def Let_def) (simp add: FormatInt_def)

lemma conn_send_Inr:
  assumes "conn_send p c s = (Inr n, s')"
  shows "\<not> is_done (download_buf s) \<and> s' = s\<lparr>download_buf := snd (Write p (download_buf s))\<rparr>"
  using assms by (auto simp: conn_send_def Write_def Let_def split: prod.splits if_splits)

lemma download_run_inv:
  "download_run ref sv W off got \<Longrightarrow> represents (download_buf (sess_at sv ref)) W \<and>
     ref < length (heap (mgr sv)) \<and> 0 \<le> off \<and> off \<le> int (length W) \<and> got = take (nat off) W"
proof (induction rule: download_run.induct)
  case (opened sv)
  then show ?case by simp
next
  case (written sv W off got p c n s')
  then have "nat off \<le> length W" by linarith
  with written conn_send_Inr [OF written(2)] show ?case by (simp add: sess_at_upd Write_represents)
next
  case (sent sv W off got d off' sv')
  let ?db = "download_buf (sess_at sv ref)"
  obtain e where rf: "ReadFrom off 32768 ?db = (d, off', e)"
    and sv': "sv' = upd_sess ref (\<lambda>s. s\<lparr>download_buf := Advance off' (download_buf s)\<rparr>) sv"
    using sent(2) by (auto simp: download_step_def download_look_def download_wake_def split: prod.splits if_splits option.splits)
  have "take (nat off) W @ d = take (nat off') W \<and> off \<le> off' \<and> off' \<le> int (length W)"
    using db.read_prefix [OF _ _ _ rf] sent.IH by blast
  with sent.IH show ?case by (simp add: sv' sess_at_upd Advance_represents)
next
  case (woken sv W off got wok sv')
  then have "sv' = upd_sess ref (\<lambda>s. s\<lparr>download_buf := download_buf (sess_at sv ref)\<lparr>notify := False\<rparr>\<rparr>) sv"
    by (auto simp: download_step_def download_look_def download_wake_def recv_notify_def split: prod.splits if_splits option.splits)
  with woken show ?case by (simp add: sess_at_upd represents_def)
next
  case (reconnected sv W off got k r)
  then have "nat off \<le> length W" by linarith
  then have "k \<le> nat off" using reconnected by simp
  then show ?case using reconnected download_offset_FormatInt [of r k] by (auto simp: min_def)
qed

text \<open>
  The download direction is exact across reconnects. However the relay's writes, the
  handler's iterations, broken GETs and new GETs interleave, what the client holds is the
  first bytes of what the relay wrote, with nothing lost or repeated; and a handler that
  resumes within the replay window and has data left always sends some of it.
\<close>

theorem download_exact:
  assumes "download_run ref sv W off got"
  shows "got = take (nat off) W \<and>
    (off < int (length W) \<and>
       delivered (download_buf (sess_at sv ref)) - maxRetain (download_buf (sess_at sv ref)) \<le> off \<longrightarrow>
     (\<exists>d off' sv'. download_step True ref off sv = (DSent d off', sv') \<and> d \<noteq> []))"
proof (intro conjI impI)
  note I = download_run_inv [OF assms]
  then show "got = take (nat off) W" by blast
  let ?db = "download_buf (sess_at sv ref)"
  assume w: "off < int (length W) \<and> delivered ?db - maxRetain ?db \<le> off"
  then have "ReadFrom off 32768 ?db =
      (take 32768 (drop (nat off) W), off + int (min 32768 (length W - nat off)), None)"
    using I by (intro ReadFrom_in_window) auto
  moreover have "take 32768 (drop (nat off) W) \<noteq> []" using w I by auto
  ultimately show "\<exists>d off' sv'. download_step True ref off sv = (DSent d off', sv') \<and> d \<noteq> []"
    by (simp add: download_step_def download_look_def)
qed

theorem download_exact_witness:
  "\<exists>d off' sv'. download_step True 0 0
     (upd_sess 0 (\<lambda>_. snd (conn_send [5, 6] (newSplitConn 0 '''') (sess_at one_session 0))) one_session)
     = (DSent d off', sv') \<and> d \<noteq> []"
proof -
  let ?s = "snd (conn_send [5, 6] (newSplitConn 0 '''') (sess_at one_session 0))"
  let ?sv = "upd_sess 0 (\<lambda>_. ?s) one_session"
  have "download_run 0 one_session [] 0 []"
    by (rule download_run.opened)
      (simp_all add: one_session_simps NewSessionWithDownloadBuf_def New_represents)
  moreover have c: "conn_send [5, 6] (newSplitConn 0 '''') (sess_at one_session 0) = (Inr 2, ?s)"
    by (simp add: conn_send_def Write_def Let_def one_session_simps NewSessionWithDownloadBuf_def
        NewDownloadBufferSized_def)
  ultimately have "download_run 0 ?sv ([] @ [5, 6]) 0 []"
    by (rule download_run.written)
  moreover have "delivered (download_buf (sess_at ?sv 0)) = 0"
    "maxRetain (download_buf (sess_at ?sv 0)) = 4194304"
    using conn_send_Inr [OF c]
    by (simp_all add: sess_at_upd one_session_simps Write_fields NewSessionWithDownloadBuf_def
        NewDownloadBufferSized_def)
  ultimately show ?thesis using download_exact [of 0 ?sv "[] @ [5, 6]" 0 "[]"] by simp
qed

section \<open>Witnesses of the server's properties\<close>

definition demo_get :: http_request where
  "demo_get = \<lparr>http_method = ''GET'', url_path = ''/d'', query = [], headers = [], cookies = [],
     req_body = [], body_fails = False, remote_addr = ''192.0.2.1:1000''\<rparr>"

definition after_get :: server where
  "after_get = snd (the (ServeHTTP (\<lambda>_. Inr [1] :: unit + sid) 0 demo_get (NewServer demo_config)))"

lemma after_get:
  "\<exists>h. ServeHTTP (\<lambda>_. Inr [1] :: unit + sid) 0 demo_get (NewServer demo_config) = Some (h, after_get)"
  using ServeHTTP_total [OF emit_inv_new [of demo_config], of "\<lambda>_. Inr [1] :: unit + sid" 0 demo_get]
  by (auto simp: after_get_def NewServer_def Let_def)

lemma after_get_reach: "reach (\<lambda>_ _. Inr [1] :: unit + sid) demo_config after_get []"
  using after_get by (blast intro: reach.started reach.requested)

theorem request_isolation_witness:
  "Get [2] (mgr after_get) = Get [2] (mgr (NewServer demo_config))"
  using after_get
    request_isolation [OF reach.started [of "\<lambda>_ _. Inr [1] :: unit + sid" demo_config], where r = demo_get
      and i = "[1]" and j = "[2]" and now = 0]
  by auto

theorem emitted_at_most_once_witness:
  "distinct (map sc_sess (accept_ch after_get)) \<and> length (accept_ch after_get) \<le> 64"
  using emitted_at_most_once [OF after_get_reach] by simp

theorem handler_never_panics_witness:
  "\<exists>h sv'. ServeHTTP (\<lambda>_. Inr [1] :: unit + sid) 5 demo_get after_get = Some (h, sv')"
  by (rule handler_never_panics [OF after_get_reach])

text \<open>
  A full accept channel strands the session. When a session is ready while the channel
  holds its 64 connections, the connection is dropped but the session is marked as accepted,
  so no later request of it puts it into the channel again: the tunnel stays unserved.
\<close>

theorem full_channel_strands_session:
  assumes "r < length (heap (mgr sv))" and "has_download (sess_at sv r)" and "\<not> accepted (sess_at sv r)"
    and "\<not> accept_closed sv" and "length (accept_ch sv) = 64"
  shows "\<exists>sv'. tryEmit r remote sv = Some sv' \<and> accept_ch sv' = accept_ch sv \<and>
    (\<forall>later cs. tryEmit r later (sv'\<lparr>accept_ch := cs\<rparr>) = Some (sv'\<lparr>accept_ch := cs\<rparr>))"
  using assms by (simp add: tryEmit_def Let_def sess_at_upd)

definition crowded :: server where
  "crowded = (upd_sess 0 (\<lambda>s. s\<lparr>has_download := True\<rparr>) one_session)
     \<lparr>accept_ch := replicate 64 (newSplitConn 7 '''')\<rparr>"

theorem full_channel_strands_session_witness:
  "\<exists>sv'. tryEmit 0 ''a'' crowded = Some sv' \<and> length (accept_ch sv') = 64"
proof -
  have "0 < length (heap (mgr crowded))" "has_download (sess_at crowded 0)" "\<not> accepted (sess_at crowded 0)"
    "length (accept_ch crowded) = 64" "\<not> accept_closed crowded"
    by (simp_all add: crowded_def sess_at_upd one_session_simps NewSessionWithDownloadBuf_def)
      (simp add: one_session_def NewServer_def Let_def)
  from full_channel_strands_session [OF this(1-3) this(5) this(4), of "''a''"] this(4)
  show ?thesis by auto
qed

end
