(* ===== verification/Xhttp_Client.thy ===== *)
theory Xhttp_Client
  imports Server_Runs Base64
begin

text \<open>
  Model of \<open>internal/transport/xhttp/client.go\<close>: dialling, the chunking and numbering of
  uploads, the download side with its offset and retries, and the broken and closed states
  of a connection. What the HTTP client answers is an input: a reply per request
  (\<open>reply\<close>), and for each iteration of \<open>Read\<close> whether the GET succeeds and what reading
  its body returns. The requests a connection makes are values, so that they can be handed to
  the server model of theory Xhttp_Server.
\<close>

section \<open>Connections\<close>

datatype client_err = DoError string | BadStatus nat | PipeError io_err | BodyError io_err
  | ReconnectFailed client_err | TokenError

record client =
  ServerURL :: string
  HTTPTransport :: "string option"
  ClientConfig :: config

definition NewClient :: "string \<Rightarrow> config \<Rightarrow> string option \<Rightarrow> client" where
  "NewClient url cfg tr = \<lparr>ServerURL = url, HTTPTransport = tr, ClientConfig = defaults cfg\<rparr>"

definition uploadModePacket :: string where "uploadModePacket = ''packet''"
definition uploadModeStream :: string where "uploadModeStream = ''stream''"

text \<open>The dynamic type of the client's transport, \<open>None\<close> for nil, decides about streaming.\<close>

definition isHTTP2Transport :: "string option \<Rightarrow> bool" where
  "isHTTP2Transport t = (case t of None \<Rightarrow> False | Some typeName \<Rightarrow> typeName = ''*http2.Transport'')"

definition resolveUploadMode :: "string \<Rightarrow> string option \<Rightarrow> string" where
  "resolveUploadMode configured tr =
     (if configured = uploadModeStream then uploadModeStream
      else if configured = uploadModePacket then uploadModePacket
      else if isHTTP2Transport tr then uploadModeStream else uploadModePacket)"

record client_conn =
  cc_client :: client
  tokenB64 :: string
  sessionB64 :: string
  uploadMode :: string
  uploadSeq :: int
  streamWriter :: "pipe option"
  downloadBody :: bool
  downloadOffset :: int
  brokenErr :: "client_err option"
  conn_closed :: bool

definition ClientClose :: "client_conn \<Rightarrow> client_conn" where
  "ClientClose c =
     (if conn_closed c then c
      else c\<lparr>conn_closed := True,
             streamWriter := map_option (\<lambda>p. p\<lparr>wclosed := True\<rparr>) (streamWriter c)\<rparr>)"

definition markBroken :: "client_err \<Rightarrow> client_conn \<Rightarrow> client_conn" where
  "markBroken e c = (if brokenErr c \<noteq> None then c else ClientClose (c\<lparr>brokenErr := Some e\<rparr>))"

definition isBroken :: "client_conn \<Rightarrow> client_err option" where
  "isBroken c = brokenErr c"

section \<open>Requests\<close>

text \<open>\<open>pad\<close> are the 32 to 128 random bytes of the \<open>X-Request-ID\<close> header.\<close>

definition addAuth :: "client_conn \<Rightarrow> bytes \<Rightarrow> http_request \<Rightarrow> http_request" where
  "addAuth c pad r = r\<lparr>cookies := cookies r @ [(''nv_token'', tokenB64 c)],
     headers := headers r @ [(''X-Request-ID'', b64_encode False pad)]\<rparr>"

definition post_request :: "client_conn \<Rightarrow> bytes \<Rightarrow> string \<Rightarrow> bytes \<Rightarrow> int \<Rightarrow> http_request" where
  "post_request c pad from_addr data sq = addAuth c pad
     \<lparr>http_method = ''POST'', url_path = fullUploadPath (ClientConfig (cc_client c)),
      query = [(''seq'', FormatInt sq), (SessionKeyName (ClientConfig (cc_client c)), sessionB64 c)],
      headers = [(''Content-Type'', ''application/octet-stream'')], cookies = [],
      req_body = data, body_fails = False, remote_addr = from_addr\<rparr>"

definition stream_request :: "client_conn \<Rightarrow> bytes \<Rightarrow> string \<Rightarrow> bytes \<Rightarrow> http_request" where
  "stream_request c pad from_addr body = addAuth c pad
     \<lparr>http_method = ''POST'', url_path = fullUploadPath (ClientConfig (cc_client c)),
      query = [(SessionKeyName (ClientConfig (cc_client c)), sessionB64 c)],
      headers = [(''Content-Type'', ''application/octet-stream''), (''X-NV-Mode'', ''stream'')],
      cookies = [], req_body = body, body_fails = False, remote_addr = from_addr\<rparr>"

definition get_request :: "client_conn \<Rightarrow> bytes \<Rightarrow> string \<Rightarrow> http_request" where
  "get_request c pad from_addr = addAuth c pad
     \<lparr>http_method = ''GET'', url_path = fullDownloadPath (ClientConfig (cc_client c)),
      query = [(SessionKeyName (ClientConfig (cc_client c)), sessionB64 c),
               (''off'', FormatInt (downloadOffset c))],
      headers = [], cookies = [], req_body = [], body_fails = False, remote_addr = from_addr\<rparr>"

text \<open>The answer of \<open>HTTPClient.Do\<close>: an error, or a response with its status.\<close>

datatype reply = NoReply string | Reply nat

definition reply_err :: "reply \<Rightarrow> client_err option" where
  "reply_err r = (case r of NoReply e \<Rightarrow> Some (DoError e)
     | Reply st \<Rightarrow> if st \<noteq> 200 then Some (BadStatus st) else None)"

section \<open>Dial\<close>

definition startDownload :: "reply \<Rightarrow> client_conn \<Rightarrow> client_err option \<times> client_conn" where
  "startDownload r c = (case reply_err r of Some e \<Rightarrow> (Some e, c)
     | None \<Rightarrow> (None, c\<lparr>downloadBody := True\<rparr>))"

definition startStreamUpload :: "client_conn \<Rightarrow> client_conn" where
  "startStreamUpload c = c\<lparr>streamWriter := Some new_pipe\<rparr>"

text \<open>The goroutine of \<open>startStreamUpload\<close> when its POST is over.\<close>

definition stream_upload_over :: "reply \<Rightarrow> client_conn \<Rightarrow> client_conn" where
  "stream_upload_over r c =
     (let c1 = (case reply_err r of None \<Rightarrow> c | Some e \<Rightarrow> markBroken e c)
      in c1\<lparr>streamWriter := map_option (\<lambda>p. p\<lparr>rclosed := True\<rparr>) (streamWriter c1)\<rparr>)"

definition Dial :: "client \<Rightarrow> bytes option \<Rightarrow> bytes \<Rightarrow> reply \<Rightarrow> client_err + client_conn" where
  "Dial cl token sessionID r =
     (case token of None \<Rightarrow> Inl TokenError
      | Some tok \<Rightarrow>
        let conn = \<lparr>cc_client = cl, tokenB64 = b64_encode True tok,
               sessionB64 = b64_encode True sessionID,
               uploadMode = resolveUploadMode (UploadMode (ClientConfig cl)) (HTTPTransport cl),
               uploadSeq = 0, streamWriter = None, downloadBody = False, downloadOffset = 0,
               brokenErr = None, conn_closed = False\<rparr>
        in case startDownload r conn of (Some e, _) \<Rightarrow> Inl e
           | (None, conn1) \<Rightarrow>
               if uploadMode conn1 = uploadModeStream then Inr (startStreamUpload conn1) else Inr conn1)"

section \<open>Write\<close>

definition next_seq_of :: "client_conn \<Rightarrow> int \<times> client_conn" where
  "next_seq_of c = (let v = wrap64 (uploadSeq c + 1) in (wrap64 (v - 1), c\<lparr>uploadSeq := v\<rparr>))"

text \<open>The loop that cuts \<open>p\<close> into numbered chunks.\<close>

function chunk_loop ::
  "nat \<Rightarrow> bytes \<Rightarrow> nat \<Rightarrow> client_conn \<Rightarrow> (int \<times> bytes) list \<times> client_conn" where
  "chunk_loop maxChunk p i c =
     (if i < length p \<and> 0 < maxChunk then
        (let e = (if length p < i + maxChunk then length p else i + maxChunk);
             (sq, c1) = next_seq_of c;
             (rest, c2) = chunk_loop maxChunk p (i + maxChunk) c1
         in ((sq, go_slice p i e) # rest, c2))
      else ([], c))"
  by pat_completeness auto
termination by (relation "measure (\<lambda>(m, p, i, c). length p - i)") auto

declare chunk_loop.simps [simp del]

fun first_err :: "reply list \<Rightarrow> client_err option" where
  "first_err [] = None"
| "first_err (r # rs) = (case reply_err r of Some e \<Rightarrow> Some e | None \<Rightarrow> first_err rs)"

datatype write_result = WOk int | WErr client_err | WBlock

text \<open>
  \<open>client_write p replies c\<close>: the result of \<open>Write\<close>, the chunks posted, and the connection
  after it; \<open>replies\<close> are the answers to the posts in the order in which they come back. The
  pipeline of eight posts in flight only affects that order.
\<close>

definition client_write ::
  "bytes \<Rightarrow> reply list \<Rightarrow> client_conn \<Rightarrow> write_result \<times> (int \<times> bytes) list \<times> client_conn" where
  "client_write p replies c =
     (case isBroken c of Some e \<Rightarrow> (WErr e, [], c)
      | None \<Rightarrow>
        if uploadMode c = uploadModeStream then
          (case streamWriter c of None \<Rightarrow> (WBlock, [], c)
           | Some w \<Rightarrow>
             (case pipe_write p w of
                (PErr e, w') \<Rightarrow> (WErr (PipeError e), [], markBroken (PipeError e) c)
              | (PBlock, w') \<Rightarrow> (WBlock, [], c)
              | (PData d, w') \<Rightarrow> (WOk (int (length p)), [], c\<lparr>streamWriter := Some w'\<rparr>)))
        else
          let m = MaxChunkSize (ClientConfig (cc_client c));
              maxChunk = (if m \<le> 0 then 65536 else m)
          in if int (length p) \<le> maxChunk then
               (let (sq, c1) = next_seq_of c in
                case first_err (take 1 replies) of
                  Some e \<Rightarrow> (WErr e, [(sq, p)], markBroken e c1)
                | None \<Rightarrow> (WOk (int (length p)), [(sq, p)], c1))
             else
               (let (chunks, c1) = chunk_loop (nat maxChunk) p 0 c in
                case first_err (take (length chunks) replies) of
                  Some e \<Rightarrow> (WErr e, chunks, markBroken e c1)
                | None \<Rightarrow> (WOk (int (length p)), chunks, c1)))"

section \<open>Read\<close>

datatype body_read = BData bytes | BErr io_err

text \<open>
  The three iterations of \<open>Read\<close>: \<open>gets k\<close> and \<open>rds k\<close> are the answer to a GET and the outcome
  of reading the body in iteration \<open>k\<close>. The result lists the offsets of the GETs sent.
\<close>

fun read_loop :: "(nat \<Rightarrow> reply) \<Rightarrow> (nat \<Rightarrow> body_read) \<Rightarrow> nat \<Rightarrow> nat \<Rightarrow> client_conn
    \<Rightarrow> (client_err + bytes) \<times> int list \<times> client_conn" where
  "read_loop gets rds retries 0 c = (Inl (BodyError EOF), [], c)"
| "read_loop gets rds retries (Suc left) c =
     (let (err, offs, c1) =
        (if downloadBody c then (None, [], c)
         else (case startDownload (gets retries) c of (e, c1) \<Rightarrow> (e, [downloadOffset c], c1)))
      in case err of
           Some e \<Rightarrow>
             if retries < 2 then
               (case read_loop gets rds (retries + 1) left c1 of (x, os, c2) \<Rightarrow> (x, offs @ os, c2))
             else (Inl (ReconnectFailed e), offs, c1)
         | None \<Rightarrow>
             (case rds retries of
                BData d \<Rightarrow>
                  if d \<noteq> [] then
                    (Inr d, offs, c1\<lparr>downloadOffset := wrap64 (downloadOffset c1 + int (length d))\<rparr>)
                  else (case read_loop gets rds (retries + 1) left c1 of (x, os, c2) \<Rightarrow> (x, offs @ os, c2))
              | BErr e \<Rightarrow>
                  let c2 = c1\<lparr>downloadBody := False\<rparr> in
                  if retries < 2 then
                    (case read_loop gets rds (retries + 1) left c2 of (x, os, c3) \<Rightarrow> (x, offs @ os, c3))
                  else (Inl (BodyError e), offs, c2)))"

definition client_read :: "(nat \<Rightarrow> reply) \<Rightarrow> (nat \<Rightarrow> body_read) \<Rightarrow> client_conn
    \<Rightarrow> (client_err + bytes) \<times> int list \<times> client_conn" where
  "client_read gets rds c =
     (case isBroken c of Some e \<Rightarrow> (Inl e, [], c) | None \<Rightarrow> read_loop gets rds 0 3 c)"

section \<open>Chunking\<close>

definition numbered :: "int \<Rightarrow> (int \<times> bytes) list \<Rightarrow> bool" where
  "numbered s xs \<longleftrightarrow> map fst xs = map (\<lambda>j. s + int j) [0..<length xs]"

lemma numbered_Nil [simp]: "numbered s []"
  by (simp add: numbered_def)

lemma numbered_Cons: "numbered (s + 1) xs \<Longrightarrow> numbered s ((s, d) # xs)"
proof -
  assume "numbered (s + 1) xs"
  then have "map fst xs = map ((\<lambda>j. s + int j) \<circ> Suc) [0..<length xs]"
    by (simp add: numbered_def o_def algebra_simps)
  also have "\<dots> = map (\<lambda>j. s + int j) [1..<Suc (length xs)]"
    by (simp only: map_map [symmetric] map_Suc_upt One_nat_def)
  finally show ?thesis
    by (simp add: numbered_def upt_conv_Cons del: upt_Suc)
qed

lemma numbered_append: "numbered s xs \<Longrightarrow> numbered (s + int (length xs)) ys \<Longrightarrow> numbered s (xs @ ys)"
proof (induction xs arbitrary: s)
  case (Cons x xs)
  then have x: "fst x = s" "numbered (s + 1) xs"
    unfolding numbered_def
    by (auto simp: upt_conv_Cons map_Suc_upt [symmetric] algebra_simps simp del: upt_Suc)
  with Cons have "numbered (s + 1) (xs @ ys)" by (simp add: algebra_simps)
  with numbered_Cons [of s "xs @ ys" "snd x"] x(1) show ?case by (cases x) simp
qed simp

lemma numbered_nth: "numbered s xs \<Longrightarrow> j < length xs \<Longrightarrow> fst (xs ! j) = s + int j"
proof -
  assume "numbered s xs" "j < length xs"
  then have "map fst xs ! j = s + int j" by (simp add: numbered_def)
  with \<open>j < length xs\<close> show ?thesis by simp
qed

lemma next_seq_of_simp:
  "0 \<le> uploadSeq c \<Longrightarrow> uploadSeq c < 2 ^ 63 - 1 \<Longrightarrow>
     next_seq_of c = (uploadSeq c, c\<lparr>uploadSeq := uploadSeq c + 1\<rparr>)"
  by (simp add: next_seq_of_def Let_def)

lemma chunk_loop_spec:
  assumes "chunk_loop m p i c = (chunks, c')" and "0 < m" and "0 \<le> uploadSeq c"
    and "uploadSeq c + int (length p - i) < 2 ^ 63"
  shows "concat (map snd chunks) = drop i p \<and> numbered (uploadSeq c) chunks \<and>
    c' = c\<lparr>uploadSeq := uploadSeq c + int (length chunks)\<rparr> \<and> length chunks \<le> length p - i \<and>
    (\<forall>x \<in> set chunks. length (snd x) \<le> m)"
  using assms
proof (induction m p i c arbitrary: chunks c' rule: chunk_loop.induct)
  case (1 m p i c)
  show ?case
  proof (cases "i < length p")
    case False
    then have "chunk_loop m p i c = ([], c)" by (subst chunk_loop.simps) simp
    with False "1.prems"(1) show ?thesis by simp
  next
    case True
    define e where "e = (if length p < i + m then length p else i + m)"
    define c1 where "c1 = c\<lparr>uploadSeq := uploadSeq c + 1\<rparr>"
    have ns: "next_seq_of c = (uploadSeq c, c1)"
      using True "1.prems"(3,4) unfolding c1_def by (intro next_seq_of_simp) auto
    obtain rest c2 where r: "chunk_loop m p (i + m) c1 = (rest, c2)"
      by (cases "chunk_loop m p (i + m) c1")
    have eq: "chunks = (uploadSeq c, go_slice p i e) # rest" "c' = c2"
      using "1.prems"(1,2) True ns r by (auto simp: chunk_loop.simps [of m p i c] e_def Let_def)
    have bnd: "uploadSeq c1 + int (length p - (i + m)) < 2 ^ 63"
      using "1.prems"(2,4) True by (simp add: c1_def)
    have IH: "concat (map snd rest) = drop (i + m) p \<and> numbered (uploadSeq c1) rest \<and>
      c2 = c1\<lparr>uploadSeq := uploadSeq c1 + int (length rest)\<rparr> \<and> length rest \<le> length p - (i + m) \<and>
      (\<forall>x \<in> set rest. length (snd x) \<le> m)"
      by (rule "1.IH" [OF _ _ ns [symmetric] refl r])
        (use "1.prems"(2,3) True bnd in \<open>simp_all add: e_def c1_def\<close>)
    have sl: "go_slice p i e = take m (drop i p)"
      by (simp add: go_slice_def e_def)
    have "go_slice p i e @ drop (i + m) p = drop i p"
      unfolding sl by (metis append_take_drop_id drop_drop add.commute)
    with IH eq True "1.prems"(2) sl show ?thesis
      by (auto simp: c1_def numbered_Cons)
  qed
qed

lemma client_write_packet:
  assumes "client_write p replies c = (WOk n, posts, c')" and "uploadMode c \<noteq> uploadModeStream"
    and "0 \<le> uploadSeq c" and "uploadSeq c + int (length p) + 1 < 2 ^ 63"
    and "0 < MaxChunkSize (ClientConfig (cc_client c))"
  shows "concat (map snd posts) = p \<and> numbered (uploadSeq c) posts \<and> n = int (length p) \<and>
    c' = c\<lparr>uploadSeq := uploadSeq c + int (length posts)\<rparr> \<and> length posts \<le> length p + 1 \<and>
    (\<forall>x \<in> set posts. int (length (snd x)) \<le> MaxChunkSize (ClientConfig (cc_client c)))"
proof (cases "int (length p) \<le> MaxChunkSize (ClientConfig (cc_client c))")
  case True
  have "next_seq_of c = (uploadSeq c, c\<lparr>uploadSeq := uploadSeq c + 1\<rparr>)"
    using assms(3,4) by (intro next_seq_of_simp) auto
  with assms True show ?thesis
    by (auto simp: client_write_def Let_def numbered_Cons split: option.splits)
next
  case False
  let ?m = "nat (MaxChunkSize (ClientConfig (cc_client c)))"
  obtain chunks c1 where k: "chunk_loop ?m p 0 c = (chunks, c1)" by (cases "chunk_loop ?m p 0 c")
  with assms False have e: "posts = chunks" "c' = c1" "n = int (length p)"
    by (auto simp: client_write_def Let_def split: option.splits)
  from chunk_loop_spec [OF k] assms(3-5) e show ?thesis by (auto simp: le_nat_iff)
qed

section \<open>A series of writes\<close>

fun client_writes :: "(bytes \<times> reply list) list \<Rightarrow> client_conn \<Rightarrow> (int \<times> bytes) list option \<times> client_conn" where
  "client_writes [] c = (Some [], c)"
| "client_writes ((p, rs) # ws) c =
     (case client_write p rs c of
        (WOk n, posts, c1) \<Rightarrow>
          (case client_writes ws c1 of (None, c2) \<Rightarrow> (None, c2)
           | (Some more1, c2) \<Rightarrow> (Some (posts @ more1), c2))
      | (_, posts, c1) \<Rightarrow> (None, c1))"

lemma client_writes_spec:
  assumes "client_writes ws c = (Some posts, c')" and "uploadMode c \<noteq> uploadModeStream"
    and "0 \<le> uploadSeq c"
    and "uploadSeq c + int (length (concat (map fst ws))) + int (length ws) < 2 ^ 63"
    and "0 < MaxChunkSize (ClientConfig (cc_client c))"
  shows "concat (map snd posts) = concat (map fst ws) \<and> numbered (uploadSeq c) posts \<and>
    length posts \<le> length (concat (map fst ws)) + length ws \<and>
    (\<forall>x \<in> set posts. int (length (snd x)) \<le> MaxChunkSize (ClientConfig (cc_client c)))"
  using assms
proof (induction ws c arbitrary: posts c' rule: client_writes.induct)
  case (1 c)
  then show ?case by simp
next
  case (2 p rs ws c)
  from "2.prems"(1) obtain n ps c1 where w: "client_write p rs c = (WOk n, ps, c1)"
    by (auto split: write_result.splits prod.splits)
  with "2.prems"(1) obtain more1 c2 where m: "client_writes ws c1 = (Some more1, c2)"
    "posts = ps @ more1" by (auto split: option.splits prod.splits)
  have W: "concat (map snd ps) = p \<and> numbered (uploadSeq c) ps \<and> n = int (length p) \<and>
    c1 = c\<lparr>uploadSeq := uploadSeq c + int (length ps)\<rparr> \<and> length ps \<le> length p + 1 \<and>
    (\<forall>x \<in> set ps. int (length (snd x)) \<le> MaxChunkSize (ClientConfig (cc_client c)))"
    by (rule client_write_packet [OF w "2.prems"(2,3) _ "2.prems"(5)]) (use "2.prems"(4) in simp)
  have c1: "uploadMode c1 = uploadMode c" "cc_client c1 = cc_client c"
    "uploadSeq c1 = uploadSeq c + int (length ps)" using W by auto
  have IH: "concat (map snd more1) = concat (map fst ws) \<and> numbered (uploadSeq c1) more1 \<and>
    length more1 \<le> length (concat (map fst ws)) + length ws \<and>
    (\<forall>x \<in> set more1. int (length (snd x)) \<le> MaxChunkSize (ClientConfig (cc_client c1)))"
    by (rule "2.IH" [OF w [symmetric] refl refl m(1)]) (use "2.prems" W c1 in simp_all)
  have "numbered (uploadSeq c) (ps @ more1)"
    using W IH c1(3) by (intro numbered_append) auto
  with W IH c1(2) m(2) show ?case by auto
qed

section \<open>The posts at the server\<close>

text \<open>
  \<open>serve_posts\<close> hands the posts to the server, one request per arrival, each with its own
  time, padding and source address.
\<close>

fun serve_posts :: "(int \<Rightarrow> http_request \<Rightarrow> 'e + sid) \<Rightarrow> client_conn \<Rightarrow> (int \<times> bytes \<times> string) list
    \<Rightarrow> (int \<times> bytes) list \<Rightarrow> server \<Rightarrow> server option" where
  "serve_posts v c ((now, pad, addr) # es) ((sq, d) # posts) sv =
     (case ServeHTTP (v now) now (post_request c pad addr d sq) sv of None \<Rightarrow> None
      | Some (h, sv') \<Rightarrow> serve_posts v c es posts sv')"
| "serve_posts v c es posts sv = Some sv"

definition fresh_upload :: "server \<Rightarrow> sid \<Rightarrow> nat \<Rightarrow> bool" where
  "fresh_upload sv i r \<longleftrightarrow> \<not> accept_closed sv \<and> manager_inv (mgr sv) \<and>
     Get i (mgr sv) = Some r \<and> packet_live (sess_at sv r) \<and> next_seq (sess_at sv r) = 0"

lemma tryEmit_session:
  assumes "tryEmit r remote sv = Some sv'"
  shows "sessions (mgr sv') = sessions (mgr sv) \<and> conf sv' = conf sv \<and> accept_closed sv' = accept_closed sv \<and>
    length (heap (mgr sv')) = length (heap (mgr sv)) \<and>
    (\<exists>a. sess_at sv' r = (sess_at sv r)\<lparr>accepted := a\<rparr>) \<and>
    (manager_inv (mgr sv) \<and> r < length (heap (mgr sv)) \<longrightarrow> manager_inv (mgr sv'))"
proof -
  define sv1 where "sv1 = upd_sess r (\<lambda>s. s\<lparr>accepted := True\<rparr>) sv"
  have m: "manager_inv (mgr sv) \<and> r < length (heap (mgr sv)) \<longrightarrow> manager_inv (mgr sv1)"
    unfolding sv1_def by (intro impI upd_sess_inv) (auto simp: sess_at_inv)
  have s: "sess_at sv1 r = (sess_at sv r)\<lparr>accepted := True\<rparr> \<or> sess_at sv1 r = sess_at sv r"
    by (simp add: sv1_def sess_at_upd)
  have f: "sessions (mgr sv1) = sessions (mgr sv)" "conf sv1 = conf sv"
    "accept_closed sv1 = accept_closed sv" "length (heap (mgr sv1)) = length (heap (mgr sv))"
    by (simp_all add: sv1_def)
  have e: "\<exists>a. s = s\<lparr>accepted := a\<rparr>" for s :: session
    by (rule exI [of _ "accepted s"]) simp
  have e1: "\<exists>a. sess_at sv1 r = (sess_at sv r)\<lparr>accepted := a\<rparr>"
    using s e [of "sess_at sv r"] by metis
  consider "sv' = sv" | "sv' = sv1" | cs where "sv' = sv1\<lparr>accept_ch := cs\<rparr>"
    using tryEmit_cases [OF assms] by (auto simp: sv1_def Let_def)
  then show ?thesis
    by cases (use m f e e1 in simp_all)
qed

lemma post_step:
  assumes fr: "fresh_upload sv i r" and v: "v (post_request c pad addr d sq) = Inr i"
    and sq: "0 \<le> sq" "sq < 2 ^ 63"
    and d: "int (length d) < wrap64 (MaxChunkSize (conf sv) + 1024)"
  shows "\<exists>sv'. ServeHTTP v now (post_request c pad addr d sq) sv = Some (Done (Status 200), sv') \<and>
    fresh_upload sv' i r \<and> conf sv' = conf sv \<and>
    lookup_upload (sess_at sv' r) = (lookup_upload (sess_at sv r))(sq \<mapsto> d)"
proof -
  let ?r = "post_request c pad addr d sq" and ?s = "sess_at sv r"
  have m: "manager_inv (mgr sv)" "map_of (sessions (mgr sv)) i = Some r" and live: "packet_live ?s"
    and n0: "next_seq ?s = 0" and op: "\<not> accept_closed sv"
    using fr by (auto simp: fresh_upload_def Get_def)
  then have rl: "r < length (heap (mgr sv))" using manager_inv_lookup by blast
  have g: "GetOrCreate now i (mgr sv) = (r, mgr sv)" using m(2) by (simp add: GetOrCreate_def)
  obtain mp where mp: "upload_buf ?s = Some mp" "\<not> upload_done ?s" using packet_liveD [OF live] by blast
  then have push: "PushUpload sq d ?s = Some (push_seq sq d ?s)" and
    ps: "push_seq sq d ?s = ?s\<lparr>upload_buf := Some (mp(sq \<mapsto> d))\<rparr>"
    by (simp_all add: PushUpload_def push_seq_def)
  define s1 where "s1 = (push_seq sq d ?s)\<lparr>has_upload := True\<rparr>"
  have l1: "packet_live s1" using uq.push_live [OF live] by (simp add: s1_def packet_live_def)
  define sv1 where "sv1 = upd_sess r (\<lambda>_. s1) sv"
  have at1: "sess_at sv1 r = s1" using rl by (simp add: sv1_def sess_at_upd)
  have "session_inv s1" using l1 by (simp add: packet_live_def)
  then have m1: "manager_inv (mgr sv1)"
    unfolding sv1_def using m(1) by (intro upd_sess_inv) (simp_all add: s1_def ps)
  obtain sv2 where t: "tryEmit r addr sv1 = Some sv2"
    using tryEmit_total [of sv1] op by (auto simp: sv1_def)
  note T = tryEmit_session [OF t]
  then obtain a where a: "sess_at sv2 r = s1\<lparr>accepted := a\<rparr>" using at1 by auto
  have body: "read_all_limited (wrap64 (MaxChunkSize (conf sv) + 1024)) ?r = Some d"
    using d read_all_limited_short [of ?r "wrap64 (MaxChunkSize (conf sv) + 1024)"]
    by (simp add: post_request_def addAuth_def)
  have seq: "ParseInt (query_get ?r ''seq'') = Some sq"
    using sq ParseInt_FormatInt [of sq] by (simp add: query_get_def assoc_get_def post_request_def addAuth_def)
  have hdr: "header_get ?r ''X-NV-Mode'' \<noteq> ''stream''"
    by (simp add: header_get_def assoc_get_def post_request_def addAuth_def lower_def lower_char_def)
  have meth: "http_method ?r = ''POST''" "remote_addr ?r = addr"
    by (simp_all add: post_request_def addAuth_def)
  have serve: "ServeHTTP v now ?r sv = Some (Done (Status 200), sv2)"
    using v hdr seq body push g t by (simp add: ServeHTTP_def meth handleUpload_def sv1_def s1_def sess_at_def)
  have "packet_live (sess_at sv2 r)" using l1 by (simp add: a packet_live_def)
  moreover have "next_seq (sess_at sv2 r) = 0" by (simp add: a s1_def ps n0)
  moreover have "lookup_upload (sess_at sv2 r) = (lookup_upload ?s)(sq \<mapsto> d)"
    by (auto simp: a s1_def ps lookup_upload_def mp(1))
  moreover have "fresh_upload sv2 i r"
    using calculation(1,2) T m1 rl m(2) op by (simp add: fresh_upload_def Get_def sv1_def)
  ultimately show ?thesis using serve T by (auto simp: sv1_def)
qed

lemma serve_posts_ok:
  assumes "fresh_upload sv i r"
    and "\<forall>now \<in> fst ` set env. \<forall>pad addr d sq. v now (post_request c pad addr d sq) = Inr i"
    and "\<forall>(sq, d) \<in> set arrivals. 0 \<le> sq \<and> sq < 2 ^ 63 \<and> int (length d) < wrap64 (MaxChunkSize (conf sv) + 1024)"
    and "length env = length arrivals"
  shows "\<exists>sv'. serve_posts v c env arrivals sv = Some sv' \<and> fresh_upload sv' i r \<and>
    lookup_upload (sess_at sv' r) = lookup_upload (sess_at sv r) ++ map_of (rev arrivals)"
  using assms
proof (induction arrivals arbitrary: sv env)
  case Nil
  then show ?case by simp
next
  case (Cons a arrivals)
  obtain sq d where a: "a = (sq, d)" by (cases a)
  obtain now pad addr env' where env: "env = (now, pad, addr) # env'" "length env' = length arrivals"
    using Cons.prems(4) by (cases env) auto
  have b: "0 \<le> sq" "sq < 2 ^ 63" "int (length d) < wrap64 (MaxChunkSize (conf sv) + 1024)"
    using Cons.prems(3) by (auto simp: a)
  obtain sv1 where s1: "ServeHTTP (v now) now (post_request c pad addr d sq) sv = Some (Done (Status 200), sv1)"
    "fresh_upload sv1 i r" "conf sv1 = conf sv"
    "lookup_upload (sess_at sv1 r) = (lookup_upload (sess_at sv r))(sq \<mapsto> d)"
    using post_step [where v = "v now" and c = c and pad = pad and addr = addr and now = now, OF Cons.prems(1) _ b]
      Cons.prems(2) by (auto simp: env)
  obtain sv' where "serve_posts v c env' arrivals sv1 = Some sv'" "fresh_upload sv' i r"
    "lookup_upload (sess_at sv' r) = lookup_upload (sess_at sv1 r) ++ map_of (rev arrivals)"
    using Cons.IH [OF s1(2) _ _ env(2)] Cons.prems(2,3) s1(3) by (auto simp: env)
  then show ?case
    using s1(1,4) by (simp add: a env map_add_def fun_eq_iff split: option.splits)
qed

lemma numbered_lookup:
  assumes "numbered 0 posts" and "set arrivals = set posts"
  shows "map_of (rev arrivals) x =
    (if 0 \<le> x \<and> x < int (length posts) then Some (snd (posts ! nat x)) else None)"
proof -
  have mem: "p \<in> set posts \<longleftrightarrow> (\<exists>j < length posts. p = (int j, snd (posts ! j)))" for p
    using numbered_nth [OF assms(1)] unfolding in_set_conv_nth
    by (metis add_0 prod.collapse snd_conv fst_conv)
  show ?thesis
  proof (cases "map_of (rev arrivals) x")
    case None
    then have "x \<notin> fst ` set posts" using assms(2) by (simp add: map_of_eq_None_iff)
    have "x \<in> fst ` set posts" if "0 \<le> x" "x < int (length posts)"
    proof -
      have "nat x < length posts" "x = int (nat x)" using that by linarith+
      then have "(x, snd (posts ! nat x)) \<in> set posts" using mem by blast
      then show ?thesis by (metis fst_conv imageI)
    qed
    with None \<open>x \<notin> fst ` set posts\<close> show ?thesis by auto
  next
    case (Some d)
    then have "(x, d) \<in> set posts" using map_of_SomeD assms(2) by fastforce
    with mem Some show ?thesis by fastforce
  qed
qed

text \<open>Of \<open>k\<close> chunks that have all arrived, every read takes some.\<close>

interpretation scr: draining_source conn_rd "conn_content chunk k" "conn_ok chunk k"
    "\<lambda>cs. \<forall>i. next_seq (snd cs) \<le> i \<and> i < int k \<longrightarrow> lookup_upload (snd cs) i = Some (chunk i)"
    "\<lambda>cs. length (conn_content chunk k cs) + (k - nat (next_seq (snd cs)))" for chunk k
proof unfold_locales
  fix cs cs' :: "split_conn \<times> session" and n r
  assume ok: "conn_ok chunk k cs" and full: "\<forall>i. next_seq (snd cs) \<le> i \<and> i < int k \<longrightarrow>
      lookup_upload (snd cs) i = Some (chunk i)" and n: "0 < n" and rd: "conn_rd n cs = (r, cs')"
  obtain c s c' s' where cs: "cs = (c, s)" "cs' = (c', s')" by (cases cs, cases cs')
  note nx = conn_rd_next [OF ok [unfolded cs] rd [unfolded cs]]
  have nn: "0 \<le> next_seq s" "next_seq s \<le> int k" using ok by (auto simp: cs conn_ok_def)
  let ?t = "\<lambda>cs. length (conn_content chunk k cs) + (k - nat (next_seq (snd cs)))"
  from conn_rd_cases [OF ok [unfolded cs] rd [unfolded cs]]
  show "(\<forall>i. next_seq (snd cs') \<le> i \<and> i < int k \<longrightarrow> lookup_upload (snd cs') i = Some (chunk i)) \<and>
    (if ?t cs = 0 then ?t cs' = 0 else ?t cs' < ?t cs)"
  proof (elim disjE conjE)
    assume "leftover c \<noteq> []" "r = Some (take n (leftover c))" "c' = c\<lparr>leftover := drop n (leftover c)\<rparr>" "s' = s"
    with full n show ?thesis by (auto simp: cs conn_content_def)
  next
    assume *: "leftover c = []" "lookup_upload s (next_seq s) = None" "r = None" "c' = c" "s' = s"
    then have "next_seq s = int k" using full nn by (force simp: cs)
    with * full show ?thesis by (simp add: cs conn_content_def)
  next
    assume *: "leftover c = []" "r = Some (take n (chunk (next_seq s)))" "next_seq s' = next_seq s + 1"
      "next_seq s < int k" "lookup_upload s' = (lookup_upload s)(next_seq s := None)"
    have "k - nat (next_seq s') < k - nat (next_seq s)" using * nn by linarith
    moreover have "length (conn_content chunk k (c', s')) \<le> length (conn_content chunk k (c, s))"
      using nx *(2) by simp
    ultimately show ?thesis using full * by (auto simp: cs)
  qed
qed simp

lemma chunk_loop_broken: "chunk_loop m p i c = (chunks, c') \<Longrightarrow> brokenErr c' = brokenErr c"
proof (induction m p i c arbitrary: chunks c' rule: chunk_loop.induct)
  case (1 m p i c)
  show ?case
  proof (cases "i < length p \<and> 0 < m")
    case True
    obtain sq c1 where s: "next_seq_of c = (sq, c1)" by (cases "next_seq_of c")
    obtain rest c2 where r: "chunk_loop m p (i + m) c1 = (rest, c2)" by (metis surj_pair)
    then have "c' = c2" using "1.prems" True s
      by (auto simp: chunk_loop.simps [of m p i c] Let_def split: prod.splits)
    moreover have "brokenErr c2 = brokenErr c1"
      by (rule "1.IH" [OF True refl s [symmetric] refl r])
    moreover have "brokenErr c1 = brokenErr c" using s by (auto simp: next_seq_of_def Let_def)
    ultimately show ?thesis by simp
  next
    case False
    then have "chunk_loop m p i c = ([], c)" by (subst chunk_loop.simps) (simp only: if_False)
    then show ?thesis using "1.prems" by simp
  qed
qed

lemma write_error_marks:
  assumes w: "client_write p rs c = (WErr e, posts, c')" and nb: "brokenErr c = None"
  shows "\<exists>c1. c' = markBroken e c1 \<and> brokenErr c1 = None"
proof (cases "uploadMode c = uploadModeStream")
  case True
  with w nb have "c' = markBroken e c"
    by (auto simp: client_write_def isBroken_def split: option.splits pipe_result.splits prod.splits)
  with nb show ?thesis by blast
next
  case False
  define m where "m = (if MaxChunkSize (ClientConfig (cc_client c)) \<le> 0 then 65536
    else MaxChunkSize (ClientConfig (cc_client c)))"
  obtain sq c1 where s: "next_seq_of c = (sq, c1)" by (cases "next_seq_of c")
  obtain cs c2 where k: "chunk_loop (nat m) p 0 c = (cs, c2)" by (metis surj_pair)
  have nb1: "brokenErr c1 = None" using s nb by (auto simp: next_seq_of_def Let_def)
  have nb2: "brokenErr c2 = None" using chunk_loop_broken [OF k] nb by simp
  have "c' = markBroken e c1 \<or> c' = markBroken e c2"
    using w False nb unfolding client_write_def isBroken_def m_def [symmetric] Let_def s k
    by (auto split: if_splits option.splits)
  with nb1 nb2 show ?thesis by blast
qed

section \<open>Properties\<close>

lemma upload_composed:
  assumes "client_writes ws c = (Some posts, c')" and "uploadMode c = uploadModePacket"
    and "uploadSeq c = 0" and "length (concat (map fst ws)) + length ws < 2 ^ 62"
    and "0 < MaxChunkSize (ClientConfig (cc_client c))"
    and "MaxChunkSize (ClientConfig (cc_client c)) \<le> MaxChunkSize (conf sv)"
    and "MaxChunkSize (conf sv) < 2 ^ 62"
    and "fresh_upload sv i r" and "lookup_upload (sess_at sv r) = Map.empty"
    and "\<forall>now \<in> fst ` set env. \<forall>pad addr d sq. v now (post_request c pad addr d sq) = Inr i"
    and "set arrivals = set posts" and "length env = length arrivals"
    and "\<forall>n \<in> set ns. 0 < n" and "length (concat (map fst ws)) + length posts \<le> length ns"
  shows "\<exists>sv'. serve_posts v c env arrivals sv = Some sv' \<and>
    fst (sc.reads ns (newSplitConn r addr, sess_at sv' r)) = concat (map fst ws)"
proof -
  let ?chunk = "\<lambda>x. snd (posts ! nat x)" and ?k = "length posts"
  have mode: "uploadMode c \<noteq> uploadModeStream"
    using assms(2) by (simp add: uploadModePacket_def uploadModeStream_def)
  have W: "concat (map snd posts) = concat (map fst ws) \<and> numbered 0 posts \<and>
    length posts \<le> length (concat (map fst ws)) + length ws \<and>
    (\<forall>x \<in> set posts. int (length (snd x)) \<le> MaxChunkSize (ClientConfig (cc_client c)))"
    using client_writes_spec [OF assms(1) mode] assms(3-5) by simp
  have k: "int ?k < 2 ^ 62" using W assms(4) by simp
  have small: "\<forall>(sq, d) \<in> set arrivals. 0 \<le> sq \<and> sq < 2 ^ 63 \<and>
      int (length d) < wrap64 (MaxChunkSize (conf sv) + 1024)"
  proof (clarify)
    fix sq d assume "(sq, d) \<in> set arrivals"
    then have m: "(sq, d) \<in> set posts" using assms(11) by simp
    then obtain j where "j < ?k" "sq = int j"
      using W numbered_nth [of 0 posts] by (auto simp: in_set_conv_nth) (metis fst_conv add_0)
    moreover have "int (length d) \<le> MaxChunkSize (ClientConfig (cc_client c))"
      using W m by fastforce
    ultimately show "0 \<le> sq \<and> sq < 2 ^ 63 \<and> int (length d) < wrap64 (MaxChunkSize (conf sv) + 1024)"
      using k assms(6,7) by simp
  qed
  obtain sv' where s: "serve_posts v c env arrivals sv = Some sv'" "fresh_upload sv' i r"
    "lookup_upload (sess_at sv' r) = map_of (rev arrivals)"
    using serve_posts_ok [OF assms(8) assms(10) small assms(12)] assms(9) by auto
  have lk: "lookup_upload (sess_at sv' r) x = (if 0 \<le> x \<and> x < int ?k then Some (?chunk x) else None)" for x
    using numbered_lookup [of posts arrivals x] W assms(11) s(3) by simp
  have n0: "next_seq (sess_at sv' r) = 0" "packet_live (sess_at sv' r)"
    using s(2) by (simp_all add: fresh_upload_def)
  have ok: "conn_ok ?chunk ?k (newSplitConn r addr, sess_at sv' r)"
  proof -
    have "d = ?chunk x \<and> x < int ?k" if "lookup_upload (sess_at sv' r) x = Some d" for x d
      using lk [of x] that by (simp split: if_splits)
    moreover have "int ?k < 2 ^ 63" using k by simp
    moreover have "packet_live (sess_at sv' r)" "0 \<le> next_seq (sess_at sv' r)"
      "next_seq (sess_at sv' r) \<le> int ?k" using n0 by simp_all
    ultimately show ?thesis unfolding conn_ok_def snd_conv by blast
  qed
  have "map (?chunk \<circ> int) [0..<?k] = map snd posts" by (rule nth_equalityI) simp_all
  then have content: "conn_content ?chunk ?k (newSplitConn r addr, sess_at sv' r) = concat (map fst ws)"
    using W n0(1) by (simp add: conn_content_def newSplitConn_def)
  have "fst (sc.reads ns (newSplitConn r addr, sess_at sv' r)) =
      conn_content ?chunk ?k (newSplitConn r addr, sess_at sv' r)"
    using assms(13,14) content lk by (intro scr.reads_all [OF ok]) (simp_all add: n0(1))
  with s(1) content show ?thesis by auto
qed


text \<open>A client and the server it talks to, for the witness.\<close>

definition demo_conn :: client_conn where
  "demo_conn = \<lparr>cc_client = NewClient ''https://example.org'' (demo_config\<lparr>MaxChunkSize := 2\<rparr>) None,
     tokenB64 = ''dG9r'', sessionB64 = ''AQ'', uploadMode = ''packet'', uploadSeq = 0, streamWriter = None,
     downloadBody = True, downloadOffset = 0, brokenErr = None, conn_closed = False\<rparr>"

definition demo_ws :: "(bytes \<times> reply list) list" where
  "demo_ws = [([1, 2, 3], [Reply 200, Reply 200]), ([4], [Reply 200])]"

lemma demo_writes:
  assumes "MaxChunkSize (ClientConfig (cc_client cn)) = 2" and "uploadMode cn = ''packet''"
    and "brokenErr cn = None" and "uploadSeq cn = 0"
  shows "\<exists>c'. client_writes demo_ws cn = (Some [(0, [1, 2]), (1, [3]), (2, [4])], c')"
proof -
  have l: "chunk_loop 2 [1, 2, 3] 0 cn = ([(0, [1, 2]), (1, [3])], cn\<lparr>uploadSeq := 2\<rparr>)"
    by (simp add: chunk_loop.simps next_seq_of_def Let_def assms go_slice_def)
  have "client_write [1, 2, 3] [Reply 200, Reply 200] cn = (WOk 3, [(0, [1, 2]), (1, [3])], cn\<lparr>uploadSeq := 2\<rparr>)"
    by (simp add: client_write_def isBroken_def assms uploadModeStream_def Let_def l reply_err_def)
  moreover have "client_write [4] [Reply 200] (cn\<lparr>uploadSeq := 2\<rparr>) = (WOk 1, [(2, [4])], cn\<lparr>uploadSeq := 3\<rparr>)"
    by (simp add: client_write_def isBroken_def assms uploadModeStream_def Let_def next_seq_of_def reply_err_def)
  ultimately show ?thesis by (simp add: demo_ws_def)
qed

lemma one_session_fresh: "fresh_upload one_session [1] 0"
proof -
  have "manager_inv (mgr (NewServer demo_config))" using emit_inv_new [of demo_config] by (simp add: emit_inv_def)
  then have "manager_inv (mgr one_session)" by (simp add: one_session_def GetOrCreate_inv)
  moreover have "Get [1] (mgr one_session) = Some 0" "\<not> accept_closed one_session"
    by (simp_all add: one_session_def Get_def GetOrCreate_def NewServer_def NewManager_def Let_def)
  ultimately show ?thesis
    using packet_live_new by (simp add: fresh_upload_def one_session_simps new_queue)
qed


lemma read_loop_offset:
  assumes "read_loop gets rds k n c = (res, offs, c')" and "0 \<le> downloadOffset c"
    and "\<forall>d. res = Inr d \<longrightarrow> downloadOffset c + int (length d) < 2 ^ 63"
  shows "downloadOffset c' = downloadOffset c + (case res of Inr d \<Rightarrow> int (length d) | Inl e \<Rightarrow> 0) \<and>
    (\<forall>off \<in> set offs. off = downloadOffset c) \<and> length offs \<le> n"
  using assms
proof (induction n arbitrary: k c res offs c')
  case 0
  then show ?case by auto
next
  case (Suc n)
  obtain err o1 c1 where s: "(if downloadBody c then (None, [], c)
      else (case startDownload (gets k) c of (e, c1) \<Rightarrow> (e, [downloadOffset c], c1))) = (err, o1, c1)"
    by (metis prod_cases3)
  then have c1: "downloadOffset c1 = downloadOffset c" "set o1 \<subseteq> {downloadOffset c}" "length o1 \<le> 1"
    by (auto simp: startDownload_def split: if_splits option.splits)
  show ?case
  proof (cases "(err \<noteq> None \<and> k < 2) \<or> (err = None \<and> (rds k = BData [] \<or> (\<exists>e. rds k = BErr e) \<and> k < 2))")
    case True
    define c2 where "c2 = (if err = None \<and> rds k \<noteq> BData [] then c1\<lparr>downloadBody := False\<rparr> else c1)"
    obtain x os c3 where r: "read_loop gets rds (k + 1) n c2 = (x, os, c3)"
      by (metis prod_cases3)
    have "res = x \<and> offs = o1 @ os \<and> c' = c3"
      using Suc.prems(1) s True r by (auto simp: c2_def Let_def split: option.splits)
    moreover have "downloadOffset c2 = downloadOffset c" by (simp add: c2_def c1)
    ultimately show ?thesis
      using Suc.IH [OF r] Suc.prems(2,3) c1(2,3) by auto
  next
    case False
    then have "offs = o1 \<and> (\<exists>e. res = Inl e \<and> downloadOffset c' = downloadOffset c1 \<or>
        (\<exists>d. res = Inr d \<and> downloadOffset c' = wrap64 (downloadOffset c1 + int (length d))))"
      using Suc.prems(1) s by (auto simp: Let_def split: option.splits body_read.splits if_splits)
    then show ?thesis using c1 Suc.prems(2,3) by auto
  qed
qed

lemma get_request_offset:
  assumes "SessionKeyName (ClientConfig (cc_client c)) \<noteq> ''off''" and "0 \<le> downloadOffset c" "downloadOffset c < 2 ^ 63"
  shows "download_offset_of (get_request c pad from_addr) = downloadOffset c"
proof -
  have "query_get (get_request c pad from_addr) ''off'' = FormatInt (int (nat (downloadOffset c)))"
    using assms by (simp add: get_request_def addAuth_def query_get_def assoc_get_def)
  with download_offset_FormatInt [OF this] assms show ?thesis by simp
qed

text \<open>
  Resuming is exact on the client's side. A \<open>Read\<close> asks at most three times for the
  stream, each time for the offset of the bytes already returned; it advances the offset by
  exactly what it returns, and the server parses the offset back from the request.
\<close>

theorem resume_offset_exact:
  assumes "client_read gets rds c = (res, offs, c')" and "0 \<le> downloadOffset c"
    and "\<forall>d. res = Inr d \<longrightarrow> downloadOffset c + int (length d) < 2 ^ 63"
    and "downloadOffset c < 2 ^ 63" and "SessionKeyName (ClientConfig (cc_client c)) \<noteq> ''off''"
  shows "downloadOffset c' = downloadOffset c + (case res of Inr d \<Rightarrow> int (length d) | Inl e \<Rightarrow> 0) \<and>
    (\<forall>off \<in> set offs. off = downloadOffset c) \<and> length offs \<le> 3 \<and>
    download_offset_of (get_request c pad from_addr) = downloadOffset c"
proof -
  note o = get_request_offset [OF assms(5,2,4), of pad from_addr]
  show ?thesis
  proof (cases "brokenErr c")
    case None
    then have "read_loop gets rds 0 3 c = (res, offs, c')"
      using assms(1) by (simp add: client_read_def isBroken_def)
    from read_loop_offset [OF this assms(2,3)] o show ?thesis by simp
  next
    case (Some e)
    then show ?thesis using assms(1) o by (auto simp: client_read_def isBroken_def)
  qed
qed

theorem resume_offset_exact_witness:
  "download_offset_of (get_request (snd (snd (client_read (\<lambda>_. Reply 200) (\<lambda>_. BData [8, 9]) demo_conn))) [] ''a'') = 2"
proof -
  obtain x offs c where r: "client_read (\<lambda>_. Reply 200) (\<lambda>_. BData [8, 9]) demo_conn = (x, offs, c)"
    by (metis prod_cases3)
  then have c: "c = demo_conn\<lparr>downloadOffset := 2\<rparr>"
    by (simp add: client_read_def isBroken_def demo_conn_def eval_nat_numeral wrap64_def)
  have r2: "client_read (\<lambda>_. Reply 200) (\<lambda>_. BData [8, 9]) c = (Inr [8, 9], [], demo_conn\<lparr>downloadOffset := 4\<rparr>)"
    by (simp add: client_read_def isBroken_def c demo_conn_def eval_nat_numeral wrap64_def)
  have "download_offset_of (get_request c [] ''a'') = downloadOffset c"
    using resume_offset_exact [OF r2, of "[]" "''a''"]
    by (simp add: c demo_conn_def NewClient_def defaults_def demo_config_def)
  then have "download_offset_of (get_request c [] ''a'') = 2" by (simp add: c)
  then show ?thesis by (simp add: r c)
qed



text \<open>
  Reading after \<open>Close\<close> opens a new download. \<open>Read\<close> takes the error of the closed body
  for a broken stream and sends another GET for the session, whose body nobody will close:
  the connection is closed already, so a second \<open>Close\<close> does nothing.
\<close>

theorem read_after_close_reopens:
  assumes "brokenErr c = None" and "downloadBody c" and "rds 0 = BErr e"
    and "gets 1 = Reply 200" and "rds 1 = BData d" and "d \<noteq> []"
  shows "\<exists>c'. client_read gets rds (ClientClose c) = (Inr d, [downloadOffset c], c') \<and>
    downloadBody c' \<and> ClientClose c' = c'"
proof -
  have "brokenErr (ClientClose c) = None" "downloadBody (ClientClose c)"
    "downloadOffset (ClientClose c) = downloadOffset c" "conn_closed (ClientClose c)"
    using assms(1,2) by (simp_all add: ClientClose_def)
  then show ?thesis
    using assms(3-6)
    by (simp add: client_read_def isBroken_def eval_nat_numeral startDownload_def reply_err_def)
      (simp add: ClientClose_def)
qed

theorem read_after_close_reopens_witness:
  "\<exists>c'. client_read (\<lambda>_. Reply 200) (\<lambda>k. if k = 0 then BErr ErrClosedPipe else BData [5]) (ClientClose demo_conn) =
     (Inr [5], [0], c') \<and> downloadBody c'"
  using read_after_close_reopens [of demo_conn "\<lambda>k. if k = 0 then BErr ErrClosedPipe else BData [5]"
      ErrClosedPipe "\<lambda>_. Reply 200" "[5]"]
  by (auto simp: demo_conn_def)

end
