(* ===== verification/Xhttp_Limits.thy ===== *)
theory Xhttp_Limits
  imports Xhttp_Client
begin

text \<open>
  Model of the two resource limits of \<open>internal/transport/xhttp\<close>: the per-address request
  rate (ratelimit.go) and the semaphore of parallel uploads (multiplex.go).
\<close>

section \<open>ratelimit.go\<close>

record client_rate =
  rate_count :: int
  windowAt :: int

record rate_limiter =
  clients :: "(string \<times> client_rate) list"
  maxRate :: int
  window :: int

definition NewRateLimiter :: "int \<Rightarrow> int \<Rightarrow> rate_limiter" where
  "NewRateLimiter maxPerWindow w = \<lparr>clients = [], maxRate = maxPerWindow, window = w\<rparr>"

text \<open>The address up to its last colon, or all of it when it has none.\<close>

definition strip_port :: "string \<Rightarrow> string" where
  "strip_port a =
     (case dropWhile (\<lambda>c. c \<noteq> CHR '':'') (rev a) of [] \<Rightarrow> a | _ # r \<Rightarrow> rev r)"

definition Allow :: "int \<Rightarrow> http_request \<Rightarrow> rate_limiter option \<Rightarrow> bool \<times> rate_limiter option" where
  "Allow now r rl =
     (case rl of None \<Rightarrow> (True, None)
      | Some l \<Rightarrow>
        if maxRate l \<le> 0 then (True, rl)
        else let ip = strip_port (remote_addr r) in
          (case map_of (clients l) ip of
             None \<Rightarrow> (True, Some (l\<lparr>clients :=
               AList.update ip \<lparr>rate_count = 1, windowAt = now\<rparr> (clients l)\<rparr>))
           | Some cr \<Rightarrow>
               if window l < now - windowAt cr
               then (True, Some (l\<lparr>clients := AList.update ip \<lparr>rate_count = 1, windowAt = now\<rparr> (clients l)\<rparr>))
               else let n = wrap64 (rate_count cr + 1) in
                 (n \<le> maxRate l, Some (l\<lparr>clients := AList.update ip (cr\<lparr>rate_count := n\<rparr>) (clients l)\<rparr>))))"

definition rate_dead :: "int \<Rightarrow> int \<Rightarrow> string \<times> client_rate \<Rightarrow> bool" where
  "rate_dead now w e \<longleftrightarrow> wrap64 (w * 2) < now - windowAt (snd e)"

definition rate_cleanup_entry :: "int \<Rightarrow> int \<Rightarrow> string \<times> client_rate \<Rightarrow> rate_limiter \<Rightarrow> rate_limiter" where
  "rate_cleanup_entry now w e l =
     (if rate_dead now w e then l\<lparr>clients := AList.delete (fst e) (clients l)\<rparr> else l)"

definition rate_cleanup :: "int \<Rightarrow> rate_limiter \<Rightarrow> rate_limiter" where
  "rate_cleanup now l = fold (rate_cleanup_entry now (window l)) (clients l) l"

interpretation rt: swept_table clients "rate_cleanup_entry now w" "rate_dead now w" for now w
  by unfold_locales (simp add: rate_cleanup_entry_def)

text \<open>A series of requests at their times, and the answers.\<close>

fun allow_run :: "(int \<times> http_request) list \<Rightarrow> rate_limiter option \<Rightarrow> bool list \<times> rate_limiter option" where
  "allow_run [] rl = ([], rl)"
| "allow_run ((now, r) # es) rl =
     (let (b, rl1) = Allow now r rl; (bs, rl2) = allow_run es rl1 in (b # bs, rl2))"

definition allowed_of :: "string \<Rightarrow> (int \<times> http_request) list \<Rightarrow> bool list \<Rightarrow> nat" where
  "allowed_of ip es bs =
     length (filter (\<lambda>(e, b). b \<and> strip_port (remote_addr (snd e)) = ip) (zip es bs))"

definition requests_of :: "string \<Rightarrow> (int \<times> http_request) list \<Rightarrow> nat" where
  "requests_of ip es = length (filter (\<lambda>e. strip_port (remote_addr (snd e)) = ip) es)"

lemma Allow_other:
  assumes "strip_port (remote_addr r) \<noteq> ip" and "Allow now r (Some l) = (b, Some l')"
  shows "map_of (clients l') ip = map_of (clients l) ip \<and> maxRate l' = maxRate l \<and> window l' = window l"
  using assms by (auto simp: Allow_def Let_def split: if_splits option.splits)

lemma Allow_same:
  assumes "strip_port (remote_addr r) = ip" and "map_of (clients l) ip = Some cr"
    and "0 < maxRate l" and "now - windowAt cr \<le> window l"
    and "0 \<le> rate_count cr" and "rate_count cr < 2 ^ 63 - 1"
  shows "\<exists>l'. Allow now r (Some l) = (rate_count cr + 1 \<le> maxRate l, Some l') \<and>
    map_of (clients l') ip = Some (cr\<lparr>rate_count := rate_count cr + 1\<rparr>) \<and>
    maxRate l' = maxRate l \<and> window l' = window l"
  using assms by (simp add: Allow_def Let_def)

lemma Allow_Some: "\<exists>b l'. Allow now r (Some l) = (b, Some l')"
  by (auto simp: Allow_def Let_def split: option.splits)

lemma allow_run_window:
  assumes "map_of (clients l) ip = Some cr" and "0 < maxRate l" and "0 \<le> rate_count cr"
    and "\<forall>(now, r) \<in> set es. now - windowAt cr \<le> window l"
    and "rate_count cr + int (length es) < 2 ^ 63 - 1"
    and "allow_run es (Some l) = (bs, l')"
  shows "int (allowed_of ip es bs) = max 0 (min (int (requests_of ip es)) (maxRate l - rate_count cr))"
  using assms
proof (induction es arbitrary: l cr bs l')
  case Nil
  then show ?case by (simp add: allowed_of_def requests_of_def)
next
  case (Cons e es)
  obtain now r where e: "e = (now, r)" by (cases e)
  obtain b l1 where a: "Allow now r (Some l) = (b, Some l1)" using Allow_Some by blast
  obtain bs1 l2 where rest: "allow_run es (Some l1) = (bs1, l2)" by (cases "allow_run es (Some l1)")
  have bs: "bs = b # bs1" using Cons.prems(6) e a rest by simp
  show ?case
  proof (cases "strip_port (remote_addr r) = ip")
    case True
    let ?cr = "cr\<lparr>rate_count := rate_count cr + 1\<rparr>"
    have l1: "b = (rate_count cr + 1 \<le> maxRate l)" "map_of (clients l1) ip = Some ?cr"
      "maxRate l1 = maxRate l" "window l1 = window l"
      using Allow_same [OF True Cons.prems(1,2), of now] Cons.prems(3-5) a e by auto
    have "int (allowed_of ip es bs1) = max 0 (min (int (requests_of ip es)) (maxRate l1 - rate_count ?cr))"
      by (rule Cons.IH [OF l1(2) _ _ _ _ rest]) (use Cons.prems(2-5) l1(3,4) in auto)
    then show ?thesis
      using True l1(1,3) by (auto simp: e bs allowed_of_def requests_of_def max_def min_def)
  next
    case False
    note o = Allow_other [OF False a]
    have "int (allowed_of ip es bs1) = max 0 (min (int (requests_of ip es)) (maxRate l1 - rate_count cr))"
      by (rule Cons.IH [OF _ _ _ _ _ rest]) (use Cons.prems(1-5) o in auto)
    then show ?thesis using False o by (simp add: e bs allowed_of_def requests_of_def)
  qed
qed

section \<open>multiplex.go\<close>

text \<open>
  The semaphore channel as its capacity and number of tokens; \<open>None\<close> is an operation that
  blocks. \<open>cur_sem\<close> is the field the writer reads afresh for each channel operation.
\<close>

record sem =
  sem_cap :: nat
  tokens :: nat

record mux_writer =
  mux_conn :: client_conn
  cur_sem :: sem

definition NewMultiplexedWriter :: "client_conn \<Rightarrow> nat option \<Rightarrow> mux_writer" where
  "NewMultiplexedWriter c adaptive =
     (let initial = (case adaptive of None \<Rightarrow> 1 | Some n \<Rightarrow> n)
      in \<lparr>mux_conn = c, cur_sem = \<lparr>sem_cap = initial, tokens = initial\<rparr>\<rparr>)"

definition acquire :: "sem \<Rightarrow> sem option" where
  "acquire s = (if tokens s = 0 then None else Some (s\<lparr>tokens := tokens s - 1\<rparr>))"

definition release :: "sem \<Rightarrow> sem option" where
  "release s = (if tokens s < sem_cap s then Some (s\<lparr>tokens := tokens s + 1\<rparr>) else None)"

definition resize :: "nat \<Rightarrow> mux_writer \<Rightarrow> mux_writer" where
  "resize target w =
     (let current = sem_cap (cur_sem w) in
      if target = current then w
      else let fill = (if current < target then current else target)
           in w\<lparr>cur_sem := \<lparr>sem_cap = target, tokens = fill + (target - current)\<rparr>\<rparr>)"

text \<open>
  One round of the loop of \<open>Write\<close> on chunk \<open>chunk\<close>, in which the watcher may resize the
  semaphore (\<open>mid\<close>) while the chunk is being posted. Outer \<open>None\<close> is a writer that blocks.
\<close>

definition mux_round :: "nat option \<Rightarrow> bytes \<Rightarrow> reply \<Rightarrow> mux_writer
    \<Rightarrow> (client_err option \<times> (int \<times> bytes) \<times> mux_writer) option" where
  "mux_round mid chunk rep w =
     (case acquire (cur_sem w) of None \<Rightarrow> None
      | Some s \<Rightarrow>
        let (sq, c) = next_seq_of (mux_conn w);
            w1 = w\<lparr>cur_sem := s, mux_conn := c\<rparr>;
            w2 = (case mid of None \<Rightarrow> w1 | Some target \<Rightarrow> resize target w1)
        in (case release (cur_sem w2) of None \<Rightarrow> None
            | Some s' \<Rightarrow> Some (reply_err rep, (sq, chunk), w2\<lparr>cur_sem := s'\<rparr>)))"

function mux_write :: "nat \<Rightarrow> bytes \<Rightarrow> nat \<Rightarrow> reply list \<Rightarrow> mux_writer
    \<Rightarrow> ((nat \<times> client_err option) \<times> (int \<times> bytes) list \<times> mux_writer) option" where
  "mux_write maxChunk p written reps w =
     (if written < length p \<and> 0 < maxChunk then
        (let e = (if length p < written + maxChunk then length p else written + maxChunk) in
         case mux_round None (go_slice p written e)
             (case reps of [] \<Rightarrow> NoReply '''' | r # _ \<Rightarrow> r) w of
           None \<Rightarrow> None
         | Some (Some err, post, w1) \<Rightarrow> Some ((written, Some err), [post], w1)
         | Some (None, post, w1) \<Rightarrow>
             (case mux_write maxChunk p e (tl reps) w1 of None \<Rightarrow> None
              | Some (res, posts, w2) \<Rightarrow> Some (res, post # posts, w2)))
      else Some ((written, None), [], w))"
  by pat_completeness auto
termination by (relation "measure (\<lambda>(m, p, i, c). length p - i)") auto

section \<open>Properties\<close>



text \<open>
  The sweep of the limiter forgets exactly the addresses whose window began more than two
  windows ago: a limit in force is never lifted by it.
\<close>

theorem rate_cleanup_exact:
  assumes "distinct (map fst (clients l))"
  shows "map_of (clients (rate_cleanup now l)) ip =
    (case map_of (clients l) ip of None \<Rightarrow> None
     | Some cr \<Rightarrow> if wrap64 (window l * 2) < now - windowAt cr then None else Some cr)"
  using rt.sweep_lookup [OF assms, of now "window l" ip]
  by (simp add: rate_cleanup_def rt.sweep_def rate_dead_def split: option.splits)

theorem rate_cleanup_exact_witness:
  "map_of (clients (rate_cleanup 100 ((NewRateLimiter 2 10)\<lparr>clients := [(''a'', \<lparr>rate_count = 9, windowAt = 70\<rparr>)]\<rparr>))) ''a'' = None"
  using rate_cleanup_exact [of "(NewRateLimiter 2 10)\<lparr>clients := [(''a'', \<lparr>rate_count = 9, windowAt = 70\<rparr>)]\<rparr>" 100 "''a''"]
  by (simp add: NewRateLimiter_def)

text \<open>
  Resizing under a writer blocks it. If the controller changes the parallelism while a
  chunk is being posted, the writer returns its token to the new semaphore, which was created
  full: whatever the new size, the send cannot proceed and \<open>Write\<close> does not return.
\<close>

theorem resize_during_post_blocks:
  assumes "target \<noteq> sem_cap (cur_sem w)"
  shows "mux_round (Some target) chunk rep w = None"
  using assms
  by (auto simp: mux_round_def acquire_def release_def resize_def Let_def split: prod.splits)

theorem resize_during_post_blocks_witness:
  "mux_round (Some 4) [1] (Reply 200) (NewMultiplexedWriter demo_conn (Some 2)) = None"
  by (rule resize_during_post_blocks) (simp add: NewMultiplexedWriter_def)

end
