(* ===== verification/Download_Runs.thy ===== *)
theory Download_Runs
  imports Xhttp_Client
begin

text \<open>
  The download of one session, client and server together: \<open>Read\<close> of \<open>client.go\<close>, the GET
  handlers of \<open>server.go\<close>, of which several can be at work for the same session, and the relay
  that writes into the session's buffer. \<open>Read\<close> is taken apart into its actions, a handler into
  looks at the buffer and waits for a notification, so that every interleaving of them is a run.
\<close>

section \<open>The actions of Read\<close>

text \<open>A GET with its answer, bytes taken from its body, and the end of the body.\<close>

datatype client_act = AGet reply | AData bytes | AOver

fun act :: "client_act \<Rightarrow> client_conn \<Rightarrow> client_conn" where
  "act (AGet r) c = snd (startDownload r c)"
| "act (AData d) c = c\<lparr>downloadOffset := wrap64 (downloadOffset c + int (length d))\<rparr>"
| "act AOver c = c\<lparr>downloadBody := False\<rparr>"

fun act_ok :: "client_act \<Rightarrow> client_conn \<Rightarrow> bool" where
  "act_ok (AGet r) c = (\<not> downloadBody c)"
| "act_ok (AData d) c = (downloadBody c \<and> d \<noteq> [])"
| "act_ok AOver c = downloadBody c"

fun acts_ok :: "client_act list \<Rightarrow> client_conn \<Rightarrow> bool" where
  "acts_ok [] c = True"
| "acts_ok (a # as) c = (act_ok a c \<and> acts_ok as (act a c))"

fun act_data :: "client_act \<Rightarrow> bytes" where
  "act_data (AData d) = d"
| "act_data _ = []"

lemma acts_ok_append: "acts_ok (as @ bs) c \<longleftrightarrow> acts_ok as c \<and> acts_ok bs (fold act as c)"
  by (induction as arbitrary: c) simp_all

text \<open>
  Every \<open>Read\<close> is a sequence of these actions: a GET only without a body, at most three of
  them, bytes only from a body; and what \<open>Read\<close> returns are the bytes that its actions have
  taken.
\<close>

definition read_by :: "client_act list \<Rightarrow> client_conn \<Rightarrow> client_err + bytes \<Rightarrow> client_conn \<Rightarrow> bool" where
  "read_by as c res c' \<longleftrightarrow> acts_ok as c \<and> c' = fold act as c \<and>
     concat (map act_data as) = (case res of Inr d \<Rightarrow> d | Inl _ \<Rightarrow> [])"

lemma read_by_append:
  "read_by as c (Inl e) c1 \<Longrightarrow> read_by bs c1 res c' \<Longrightarrow> read_by (as @ bs) c res c'"
  by (auto simp: read_by_def acts_ok_append)

lemma read_loop_acts:
  "read_loop gets rds k n c = (res, offs, c') \<Longrightarrow> \<exists>as. read_by as c res c'"
proof (induction n arbitrary: k c res offs c')
  case 0
  then show ?case by (intro exI [of _ "[]"]) (auto simp: read_by_def)
next
  case (Suc n)
  define g where "g = (if downloadBody c then (None, [], c)
    else (case startDownload (gets k) c of (e, c1) \<Rightarrow> (e, [downloadOffset c], c1)))"
  obtain err os c1 where gc: "g = (err, os, c1)" by (cases g)
  define as where "as = (if downloadBody c then [] else [AGet (gets k)])"
  have as: "acts_ok as c" "c1 = fold act as c" "concat (map act_data as) = []" "err = None \<Longrightarrow> downloadBody c1"
    using gc by (auto simp: g_def as_def startDownload_def split: if_splits option.splits prod.splits)
  then have here: "read_by as c (Inl e) c1" for e by (simp add: read_by_def)
  have later: "\<exists>bs. read_by bs c res c'" if "read_by bs c (Inl e) c2" "read_loop gets rds (k + 1) n c2 = (res, o', c')" for bs c2 e o'
    using that Suc.IH read_by_append by metis
  note L = Suc.prems [unfolded read_loop.simps, folded g_def, unfolded gc, simplified]
  show ?case
  proof (cases err)
    case (Some e)
    with L here later show ?thesis by (fastforce split: if_splits prod.splits)
  next
    case None
    note body = as(4) [OF None]
    show ?thesis
    proof (cases "rds k")
      case (BData d)
      have "read_by (as @ [AData d]) c (Inr d) (c1\<lparr>downloadOffset := wrap64 (downloadOffset c1 + int (length d))\<rparr>)" if "d \<noteq> []"
        by (rule read_by_append [OF here]) (simp add: read_by_def body that)
      with L None BData here later show ?thesis by (fastforce split: if_splits prod.splits)
    next
      case (BErr e)
      have "read_by (as @ [AOver]) c (Inl x) (c1\<lparr>downloadBody := False\<rparr>)" for x
        by (rule read_by_append [OF here]) (simp add: read_by_def body)
      note over = this
      show ?thesis
      proof (cases "k < 2")
        case True
        then show ?thesis using L None BErr later [OF over] by (simp add: Let_def split: prod.splits)
      next
        case False
        then show ?thesis using L None BErr over by auto
      qed
    qed
  qed
qed

lemma client_read_acts:
  assumes "client_read gets rds c = (res, offs, c')"
  shows "\<exists>as. acts_ok as c \<and> c' = fold act as c \<and>
    concat (map act_data as) = (case res of Inr d \<Rightarrow> d | Inl _ \<Rightarrow> [])"
proof (cases "isBroken c")
  case None
  then show ?thesis using assms read_loop_acts [of gets rds 0 3 c] by (simp add: client_read_def read_by_def)
next
  case (Some e)
  then show ?thesis using assms by (intro exI [of _ "[]"]) (auto simp: client_read_def)
qed

section \<open>The handlers\<close>

text \<open>
  A handler of a GET at work: its session, its offset, and whether it waits in the select. Its
  next move is a look at the buffer, the receipt of a notification or, while it waits, the end
  of the request. The result has the bytes written to the response and what remains of the
  handler; \<open>None\<close> says that it cannot make this move now.
\<close>

record get_handler =
  h_sess :: nat
  h_offset :: int
  h_waiting :: bool

datatype move = Look bool | Wake | Cancel

definition handler_move :: "move \<Rightarrow> get_handler \<Rightarrow> server \<Rightarrow> (bytes \<times> get_handler option \<times> server) option" where
  "handler_move x h sv = (case x of
     Look wok \<Rightarrow>
       if h_waiting h then None
       else (case download_look wok (h_sess h) (h_offset h) sv of
           (LSent d newOffset, sv') \<Rightarrow> Some (d, Some (h\<lparr>h_offset := newOffset\<rparr>), sv')
         | (LReturn, sv') \<Rightarrow> Some ([], None, sv')
         | (LWait, sv') \<Rightarrow> Some ([], Some (h\<lparr>h_waiting := True\<rparr>), sv'))
   | Wake \<Rightarrow>
       if h_waiting h then map_option (\<lambda>sv'. ([], Some (h\<lparr>h_waiting := False\<rparr>), sv')) (download_wake (h_sess h) sv)
       else None
   | Cancel \<Rightarrow> if h_waiting h then Some ([], None, sv) else None)"

section \<open>Runs\<close>

text \<open>
  The state of a download: what the relay has written and what \<open>Read\<close> has returned, the handler
  of the GET whose body the client has, with the bytes on their way from it, and the handlers of
  earlier GETs that the server has not yet seen end. \<open>dl_stolen\<close> records that one of these has
  taken a notification.
\<close>

record download =
  dl_srv :: server
  dl_conn :: client_conn
  dl_written :: bytes
  dl_got :: bytes
  dl_cur :: "get_handler option"
  dl_wire :: bytes
  dl_old :: "get_handler list"
  dl_stolen :: bool

text \<open>
  \<open>dl_step v tm site i ref\<close>: a step of the download of session \<open>i\<close>, which is object \<open>ref\<close> of the
  server with the authenticator \<open>v\<close>; GETs arrive at times in \<open>tm\<close>, and \<open>site\<close> is what the
  fallback site answers. The relay writes or closes; a handler moves; the client takes bytes
  from the body, finds its end, or sends a GET, which is served, served with the answer lost, or
  rejected; the client writes; and anything else may happen that leaves the buffer and the table
  entry of the session alone.
\<close>

inductive dl_step :: "(int \<Rightarrow> http_request \<Rightarrow> 'e + sid) \<Rightarrow> int set \<Rightarrow> (http_request \<Rightarrow> nat \<times> bytes) \<Rightarrow>
    sid \<Rightarrow> nat \<Rightarrow> download \<Rightarrow> download \<Rightarrow> bool" for v tm site i ref where
  relay_writes: "conn_send p c (sess_at (dl_srv t) ref) = (Inr n, s') \<Longrightarrow>
    dl_step v tm site i ref t (t\<lparr>dl_srv := upd_sess ref (\<lambda>_. s') (dl_srv t), dl_written := dl_written t @ p\<rparr>)"
| relay_closes: "dl_step v tm site i ref t (t\<lparr>dl_srv := upd_sess ref (conn_close c) (dl_srv t)\<rparr>)"
| current_moves: "dl_cur t = Some h \<Longrightarrow> handler_move x h (dl_srv t) = Some (d, h', sv') \<Longrightarrow>
    dl_step v tm site i ref t (t\<lparr>dl_srv := sv', dl_cur := h', dl_wire := dl_wire t @ d\<rparr>)"
| earlier_moves: "dl_old t = xs @ h # ys \<Longrightarrow> handler_move x h (dl_srv t) = Some (d, h', sv') \<Longrightarrow>
    dl_step v tm site i ref t (t\<lparr>dl_srv := sv', dl_old := xs @ (case h' of None \<Rightarrow> [] | Some h2 \<Rightarrow> [h2]) @ ys,
      dl_stolen := (dl_stolen t \<or> x = Wake)\<rparr>)"
| takes: "act_ok (AData d) (dl_conn t) \<Longrightarrow> dl_wire t = d @ w \<Longrightarrow>
    dl_step v tm site i ref t (t\<lparr>dl_conn := act (AData d) (dl_conn t), dl_got := dl_got t @ d, dl_wire := w\<rparr>)"
| body_ends: "act_ok AOver (dl_conn t) \<Longrightarrow>
    dl_step v tm site i ref t (t\<lparr>dl_conn := act AOver (dl_conn t), dl_cur := None, dl_wire := [],
      dl_old := dl_old t @ (case dl_cur t of None \<Rightarrow> [] | Some h \<Rightarrow> [h])\<rparr>)"
| get_served: "act_ok (AGet (Reply 200)) (dl_conn t) \<Longrightarrow> now \<in> tm \<Longrightarrow>
    ServeHTTP (v now) now (get_request (dl_conn t) pad addr) (dl_srv t) = Some (DownloadLoop r off, sv') \<Longrightarrow>
    dl_step v tm site i ref t (t\<lparr>dl_srv := sv', dl_conn := act (AGet (Reply 200)) (dl_conn t),
      dl_cur := Some \<lparr>h_sess = r, h_offset = off, h_waiting = False\<rparr>, dl_wire := []\<rparr>)"
| get_answer_lost: "act_ok (AGet a) (dl_conn t) \<Longrightarrow> reply_err a \<noteq> None \<Longrightarrow> now \<in> tm \<Longrightarrow>
    ServeHTTP (v now) now (get_request (dl_conn t) pad addr) (dl_srv t) = Some (DownloadLoop r off, sv') \<Longrightarrow>
    dl_step v tm site i ref t (t\<lparr>dl_srv := sv', dl_conn := act (AGet a) (dl_conn t),
      dl_old := dl_old t @ [\<lparr>h_sess = r, h_offset = off, h_waiting = False\<rparr>]\<rparr>)"
| get_rejected: "act_ok (AGet (Reply st)) (dl_conn t) \<Longrightarrow> now \<in> tm \<Longrightarrow>
    ServeHTTP (v now) now (get_request (dl_conn t) pad addr) (dl_srv t) = Some (Done Fallback, sv') \<Longrightarrow>
    site (get_request (dl_conn t) pad addr) = (st, page) \<Longrightarrow>
    dl_step v tm site i ref t (t\<lparr>dl_srv := sv', dl_conn := act (AGet (Reply st)) (dl_conn t),
      dl_wire := (if reply_err (Reply st) = None then page else [])\<rparr>)"
| client_writes: "client_write p rs (dl_conn t) = (res, posts, c') \<Longrightarrow>
    dl_step v tm site i ref t (t\<lparr>dl_conn := c'\<rparr>)"
| others: "download_buf (sess_at sv' ref) = download_buf (sess_at (dl_srv t) ref) \<Longrightarrow>
    Get i (mgr sv') = Get i (mgr (dl_srv t)) \<Longrightarrow> length (heap (mgr (dl_srv t))) \<le> length (heap (mgr sv')) \<Longrightarrow>
    dl_step v tm site i ref t (t\<lparr>dl_srv := sv'\<rparr>)"

section \<open>What a step of a handler does\<close>

lemma recv_notify_represents: "represents (db\<lparr>notify := b\<rparr>) W = represents db W"
  by (simp add: represents_def)

lemma ReadFrom_nothing:
  "ReadFrom off n db = ([], off', None) \<Longrightarrow> represents db W \<Longrightarrow> 0 < n \<Longrightarrow> int (length W) \<le> off"
  using represents_end [of db W] by (auto simp: ReadFrom_def Let_def end_off_def split: if_splits)

lemma Close_notify: "notify (Close db)"
  by (simp add: Close_def)

lemma Advance_notify: "notify (Advance off db) = notify db"
  by (simp add: Advance_def compactLocked_def Let_def)

definition h_ok :: "nat \<Rightarrow> bytes \<Rightarrow> get_handler \<Rightarrow> bool" where
  "h_ok ref W h \<longleftrightarrow> h_sess h = ref \<and> 0 \<le> h_offset h \<and> h_offset h \<le> int (length W)"

definition same_table :: "server \<Rightarrow> server \<Rightarrow> bool" where
  "same_table sv sv' \<longleftrightarrow> sessions (mgr sv') = sessions (mgr sv) \<and> length (heap (mgr sv')) = length (heap (mgr sv))"

lemma same_table_upd [simp]: "same_table sv (upd_sess ref f sv)"
  by (simp add: same_table_def)

lemma same_table_refl [simp]: "same_table sv sv"
  by (simp add: same_table_def)

lemma handler_move_effect:
  assumes h: "h_ok ref W h" and rep: "represents (download_buf (sess_at sv ref)) W" and ref: "ref < length (heap (mgr sv))"
    and mv: "handler_move x h sv = Some (d, h', sv')"
  shows "represents (download_buf (sess_at sv' ref)) W \<and> same_table sv sv' \<and>
    take (nat (h_offset h)) W @ d = take (nat (h_offset h) + length d) W \<and>
    (case h' of None \<Rightarrow> d = []
     | Some h2 \<Rightarrow> h_ok ref W h2 \<and> h_offset h2 = h_offset h + int (length d) \<and>
         (h_waiting h2 \<longrightarrow> int (length W) \<le> h_offset h2)) \<and>
    (x \<noteq> Wake \<longrightarrow> notify (download_buf (sess_at sv' ref)) = notify (download_buf (sess_at sv ref)))"
proof (cases x)
  case (Look wok)
  have hs: "h_sess h = ref" "\<not> h_waiting h" using h mv Look by (auto simp: h_ok_def handler_move_def split: if_splits)
  obtain data o' e where r: "ReadFrom (h_offset h) 32768 (download_buf (sess_at sv ref)) = (data, o', e)"
    by (cases "ReadFrom (h_offset h) 32768 (download_buf (sess_at sv ref))")
  have p: "take (nat (h_offset h)) W @ data = take (nat o') W" "h_offset h \<le> o'" "o' \<le> int (length W)"
    using db.read_prefix [OF rep _ _ r] h by (auto simp: h_ok_def)
  have o': "o' = h_offset h + int (length data)" by (rule ReadFrom_offset [OF r])
  then have n: "nat o' = nat (h_offset h) + length data" using h by (simp add: h_ok_def nat_add_distrib)
  show ?thesis
  proof (cases "data = []")
    case True
    then show ?thesis using mv Look hs r rep h ReadFrom_nothing [of "h_offset h" 32768 "download_buf (sess_at sv ref)" o' W]
      by (auto simp: handler_move_def download_look_def h_ok_def split: if_splits)
  next
    case False
    then show ?thesis using mv Look hs r rep ref h p o' n
      by (auto simp: handler_move_def download_look_def h_ok_def sess_at_upd Advance_represents Advance_notify split: if_splits)
  qed
next
  case Wake
  then show ?thesis using mv h rep ref
    by (auto simp: handler_move_def download_wake_def recv_notify_def h_ok_def sess_at_upd recv_notify_represents split: if_splits)
next
  case Cancel
  then show ?thesis using mv rep by (auto simp: handler_move_def split: if_splits)
qed

section \<open>What a request does\<close>

lemma get_on_session:
  assumes g: "Get i (mgr sv) = Some ref" and ref: "ref < length (heap (mgr sv))"
    and v: "v q = Inr i" "http_method q = ''GET''" and s: "ServeHTTP v now q sv = Some (h, sv')"
  shows "h = DownloadLoop ref (download_offset_of q) \<and> same_table sv sv' \<and>
    download_buf (sess_at sv' ref) = download_buf (sess_at sv ref)"
proof -
  have "GetOrCreate now i (mgr sv) = (ref, mgr sv)" using g by (simp add: GetOrCreate_def Get_def)
  then have h: "h = DownloadLoop ref (download_offset_of q)"
    and t: "tryEmit ref (remote_addr q) (upd_sess ref (\<lambda>s. MarkConnected (s\<lparr>has_download := True\<rparr>)) sv) = Some sv'"
    using v s by (auto simp: ServeHTTP_def handleDownload_def split: option.splits)
  from tryEmit_session [OF t] ref h show ?thesis
    by (auto simp: same_table_def sess_at_upd MarkConnected_def)
qed

definition same_download :: "client_conn \<Rightarrow> client_conn \<Rightarrow> bool" where
  "same_download c c' \<longleftrightarrow> downloadOffset c' = downloadOffset c \<and> downloadBody c' = downloadBody c \<and>
     cc_client c' = cc_client c \<and> tokenB64 c' = tokenB64 c \<and> sessionB64 c' = sessionB64 c"

lemma same_download_step [simp]:
  "same_download c c" "same_download c (markBroken e c)" "same_download c (snd (next_seq_of c))"
  "same_download c (c\<lparr>streamWriter := w\<rparr>)"
  by (simp_all add: same_download_def markBroken_def ClientClose_def next_seq_of_def Let_def)

lemma same_download_trans: "same_download c c1 \<Longrightarrow> same_download c1 c2 \<Longrightarrow> same_download c c2"
  by (simp add: same_download_def)

lemma chunk_loop_download: "same_download c (snd (chunk_loop m p i c))"
proof (induction m p i c rule: chunk_loop.induct)
  case (1 m p i c)
  obtain sq c1 where n: "next_seq_of c = (sq, c1)" by (cases "next_seq_of c")
  show ?case
  proof (cases "i < length p \<and> 0 < m")
    case True
    have "same_download c1 (snd (chunk_loop m p (i + m) c1))"
      by (rule "1.IH" [OF True refl n [symmetric] refl])
    moreover have "same_download c c1" using same_download_step(3) [of c] by (simp add: n)
    ultimately show ?thesis
      using True n same_download_trans
      by (subst chunk_loop.simps) (auto simp: Let_def split: prod.splits)
  next
    case False
    then have "chunk_loop m p i c = ([], c)" by (subst chunk_loop.simps) auto
    then show ?thesis by simp
  qed
qed

lemma client_write_download:
  assumes "client_write p rs c = (res, posts, c')"
  shows "same_download c c'"
proof -
  have next_seq: "same_download c c1" if "next_seq_of c = (sq, c1)" for sq c1
    using same_download_step(3) [of c] by (simp add: that)
  have loop: "same_download c c1" if "chunk_loop m p 0 c = (chunks, c1)" for m chunks c1
    using chunk_loop_download [of c m p 0] by (simp add: that)
  have broken: "same_download c (markBroken e c1)" if "same_download c c1" for e c1
    by (rule same_download_trans [OF that]) simp
  show ?thesis
    using assms next_seq loop broken
    by (auto simp: client_write_def Let_def split: option.splits if_splits prod.splits pipe_result.splits)
qed

section \<open>The invariant\<close>

text \<open>
  Its parts: the session is in the table and its buffer holds what was written; the client is the
  one that dialled, at the offset of what it has returned; what it has returned and what is on its
  way are a prefix of what was written; the current handler is at the end of this prefix; and it
  does not wait in vain.
\<close>

definition dl_session :: "sid \<Rightarrow> nat \<Rightarrow> bytes \<Rightarrow> server \<Rightarrow> bool" where
  "dl_session i ref W sv \<longleftrightarrow> represents (download_buf (sess_at sv ref)) W \<and> Get i (mgr sv) = Some ref \<and>
     ref < length (heap (mgr sv))"

definition dl_client :: "client_conn \<Rightarrow> bytes \<Rightarrow> client_conn \<Rightarrow> bool" where
  "dl_client c0 got c \<longleftrightarrow> cc_client c = cc_client c0 \<and> tokenB64 c = tokenB64 c0 \<and> sessionB64 c = sessionB64 c0 \<and>
     downloadOffset c = int (length got)"

definition dl_stream :: "bytes \<Rightarrow> bytes \<Rightarrow> bytes \<Rightarrow> bool" where
  "dl_stream W got wire \<longleftrightarrow> (\<exists>u. W = got @ wire @ u)"

definition dl_current :: "nat \<Rightarrow> bytes \<Rightarrow> bool \<Rightarrow> nat \<Rightarrow> get_handler option \<Rightarrow> bool" where
  "dl_current ref W body n cur \<longleftrightarrow> (case cur of None \<Rightarrow> True
     | Some h \<Rightarrow> body \<and> h_ok ref W h \<and> h_offset h = int n)"

definition dl_awake :: "nat \<Rightarrow> bytes \<Rightarrow> server \<Rightarrow> get_handler option \<Rightarrow> bool" where
  "dl_awake ref W sv cur \<longleftrightarrow> (case cur of None \<Rightarrow> True
     | Some h \<Rightarrow> h_waiting h \<longrightarrow> h_offset h < int (length W) \<longrightarrow> notify (download_buf (sess_at sv ref)))"

definition dl_inv :: "sid \<Rightarrow> nat \<Rightarrow> client_conn \<Rightarrow> download \<Rightarrow> bool" where
  "dl_inv i ref c0 t \<longleftrightarrow>
     dl_session i ref (dl_written t) (dl_srv t) \<and> dl_client c0 (dl_got t) (dl_conn t) \<and>
     dl_stream (dl_written t) (dl_got t) (dl_wire t) \<and>
     (downloadBody (dl_conn t) \<or> dl_wire t = []) \<and>
     dl_current ref (dl_written t) (downloadBody (dl_conn t)) (length (dl_got t @ dl_wire t)) (dl_cur t) \<and>
     (\<forall>h \<in> set (dl_old t). h_ok ref (dl_written t) h) \<and>
     (\<not> dl_stolen t \<longrightarrow> dl_awake ref (dl_written t) (dl_srv t) (dl_cur t))"

lemma dl_inv_got: "dl_inv i ref c0 t \<Longrightarrow> dl_got t = take (length (dl_got t)) (dl_written t) \<and> length (dl_got t) \<le> length (dl_written t)"
  by (auto simp: dl_inv_def dl_stream_def)

lemma dl_session_same:
  "dl_session i ref W sv \<Longrightarrow> same_table sv sv' \<Longrightarrow> represents (download_buf (sess_at sv' ref)) W \<Longrightarrow> dl_session i ref W sv'"
  by (simp add: dl_session_def same_table_def Get_def)

lemma dl_awake_notify:
  "dl_awake ref W sv cur \<Longrightarrow> notify (download_buf (sess_at sv' ref)) = notify (download_buf (sess_at sv ref)) \<Longrightarrow>
     dl_awake ref W sv' cur"
  by (simp add: dl_awake_def split: option.splits)

lemma dl_step_written: "dl_step v tm site i ref t t' \<Longrightarrow> \<exists>p. dl_written t' = dl_written t @ p"
  by (cases rule: dl_step.cases) auto

lemma current_moves_inv:
  assumes I: "dl_inv i ref c0 t" and cur: "dl_cur t = Some h" and mv: "handler_move x h (dl_srv t) = Some (d, h', sv')"
  shows "dl_inv i ref c0 (t\<lparr>dl_srv := sv', dl_cur := h', dl_wire := dl_wire t @ d\<rparr>)"
proof -
  let ?n = "length (dl_got t @ dl_wire t)"
  have h: "h_ok ref (dl_written t) h" "h_offset h = int ?n" and body: "downloadBody (dl_conn t)"
    and ses: "dl_session i ref (dl_written t) (dl_srv t)" and str: "dl_stream (dl_written t) (dl_got t) (dl_wire t)"
    using I cur by (auto simp: dl_inv_def dl_current_def)
  from handler_move_effect [OF h(1) _ _ mv] ses
  have E: "represents (download_buf (sess_at sv' ref)) (dl_written t)" "same_table (dl_srv t) sv'"
      "take (nat (h_offset h)) (dl_written t) @ d = take (nat (h_offset h) + length d) (dl_written t)"
      "case h' of None \<Rightarrow> d = []
       | Some h2 \<Rightarrow> h_ok ref (dl_written t) h2 \<and> h_offset h2 = h_offset h + int (length d) \<and>
           (h_waiting h2 \<longrightarrow> int (length (dl_written t)) \<le> h_offset h2)"
    by (auto simp: dl_session_def)
  have "take (?n + length d) (dl_written t) = (dl_got t @ dl_wire t) @ d"
    using E(3) str by (auto simp: dl_stream_def h(2) nat_int_add simp flip: of_nat_add)
  then have "dl_stream (dl_written t) (dl_got t) (dl_wire t @ d)"
    unfolding dl_stream_def by (intro exI [of _ "drop (?n + length d) (dl_written t)"]) (metis append.assoc append_take_drop_id)
  moreover have "dl_current ref (dl_written t) True (length (dl_got t @ dl_wire t @ d)) h'" "dl_awake ref (dl_written t) sv' h'"
    using E(4) h(2) by (auto simp: dl_current_def dl_awake_def split: option.splits)
  ultimately show ?thesis
    using I body dl_session_same [OF ses E(2,1)] by (simp add: dl_inv_def)
qed

lemma earlier_moves_inv:
  assumes I: "dl_inv i ref c0 t" and old: "dl_old t = xs @ h # ys" and mv: "handler_move x h (dl_srv t) = Some (d, h', sv')"
  shows "dl_inv i ref c0 (t\<lparr>dl_srv := sv', dl_old := xs @ (case h' of None \<Rightarrow> [] | Some h2 \<Rightarrow> [h2]) @ ys,
    dl_stolen := (dl_stolen t \<or> x = Wake)\<rparr>)"
proof -
  have h: "h_ok ref (dl_written t) h" and ses: "dl_session i ref (dl_written t) (dl_srv t)"
    using I old by (auto simp: dl_inv_def)
  have E: "represents (download_buf (sess_at sv' ref)) (dl_written t)" "same_table (dl_srv t) sv'"
      "case h' of None \<Rightarrow> True | Some h2 \<Rightarrow> h_ok ref (dl_written t) h2"
      "x \<noteq> Wake \<Longrightarrow> notify (download_buf (sess_at sv' ref)) = notify (download_buf (sess_at (dl_srv t) ref))"
    using handler_move_effect [OF h _ _ mv] ses by (auto simp: dl_session_def split: option.splits)
  have "\<forall>h \<in> set (xs @ (case h' of None \<Rightarrow> [] | Some h2 \<Rightarrow> [h2]) @ ys). h_ok ref (dl_written t) h"
    using I old E(3) by (auto simp: dl_inv_def split: option.splits)
  moreover have "dl_awake ref (dl_written t) sv' (dl_cur t)" if "\<not> dl_stolen t" "x \<noteq> Wake"
    using I dl_awake_notify [OF _ E(4)] that by (simp add: dl_inv_def)
  ultimately show ?thesis
    using I dl_session_same [OF ses E(2,1)] by (simp add: dl_inv_def)
qed

lemma get_inv:
  assumes I: "dl_inv i ref c0 t" and v: "v (get_request (dl_conn t) pad addr) = Inr i"
    and key: "SessionKeyName (ClientConfig (cc_client c0)) \<noteq> ''off''" and small: "int (length (dl_written t)) < 2 ^ 63"
    and s: "ServeHTTP v now (get_request (dl_conn t) pad addr) (dl_srv t) = Some (h, sv')"
  shows "h = DownloadLoop ref (int (length (dl_got t))) \<and> same_table (dl_srv t) sv' \<and>
    download_buf (sess_at sv' ref) = download_buf (sess_at (dl_srv t) ref)"
proof -
  have "int (length (dl_got t)) < 2 ^ 63" using dl_inv_got [OF I] small by linarith
  then have "download_offset_of (get_request (dl_conn t) pad addr) = int (length (dl_got t))"
    using I key get_request_offset [of "dl_conn t" pad addr] by (simp add: dl_inv_def dl_client_def)
  moreover have "http_method (get_request (dl_conn t) pad addr) = ''GET''" by (simp add: get_request_def addAuth_def)
  moreover have "Get i (mgr (dl_srv t)) = Some ref" "ref < length (heap (mgr (dl_srv t)))"
    using I by (auto simp: dl_inv_def dl_session_def)
  ultimately show ?thesis using get_on_session [OF _ _ v _ s] by simp
qed

lemma dl_step_inv:
  assumes I: "dl_inv i ref c0 t" and st: "dl_step v tm site i ref t t'"
    and v: "\<And>now c pad addr. now \<in> tm \<Longrightarrow> tokenB64 c = tokenB64 c0 \<Longrightarrow> v now (get_request c pad addr) = Inr i"
    and key: "SessionKeyName (ClientConfig (cc_client c0)) \<noteq> ''off''" and small: "int (length (dl_written t')) < 2 ^ 63"
  shows "dl_inv i ref c0 t'"
proof -
  have len: "int (length (dl_written t)) < 2 ^ 63" using dl_step_written [OF st] small by auto
  have tok: "tokenB64 (dl_conn t) = tokenB64 c0" and ses: "dl_session i ref (dl_written t) (dl_srv t)"
    using I by (auto simp: dl_inv_def dl_client_def)
  from st show ?thesis
  proof cases
    case (relay_writes p c n s')
    let ?sv = "upd_sess ref (\<lambda>_. s') (dl_srv t)" and ?db = "download_buf (sess_at (dl_srv t) ref)"
    note W = conn_send_Inr [OF relay_writes(2)]
    have "download_buf (sess_at ?sv ref) = snd (Write p ?db)" using W ses by (simp add: sess_at_upd dl_session_def)
    moreover have "notify (snd (Write p ?db))" using W by (simp add: Write_def Let_def)
    ultimately have "dl_session i ref (dl_written t @ p) ?sv" "dl_awake ref (dl_written t @ p) ?sv (dl_cur t)"
      using ses W by (auto simp: dl_session_def dl_awake_def Write_represents Get_def split: option.splits)
    then show ?thesis
      using I relay_writes(1) by (auto simp: dl_inv_def dl_stream_def dl_current_def h_ok_def split: option.splits)
  next
    case (relay_closes c)
    let ?sv = "upd_sess ref (conn_close c) (dl_srv t)" and ?s = "sess_at (dl_srv t) ref"
    have "download_buf (sess_at ?sv ref) = (if closed ?s then download_buf ?s else Close (download_buf ?s))"
      using ses by (simp add: sess_at_upd dl_session_def conn_close_def SessionClose_def)
    then have "dl_session i ref (dl_written t) ?sv"
        "dl_awake ref (dl_written t) (dl_srv t) (dl_cur t) \<Longrightarrow> dl_awake ref (dl_written t) ?sv (dl_cur t)"
      using ses by (auto simp: dl_session_def dl_awake_def Close_represents Close_notify Get_def split: option.splits)
    then show ?thesis using I relay_closes by (simp add: dl_inv_def)
  next
    case (current_moves h x d h' sv')
    then show ?thesis using current_moves_inv [OF I] by simp
  next
    case (earlier_moves xs h ys x d h' sv')
    then show ?thesis using earlier_moves_inv [OF I] by simp
  next
    case (takes d w)
    have "int (length (dl_got t @ d)) < 2 ^ 63"
      using I takes(3) len by (auto simp: dl_inv_def dl_stream_def)
    moreover have "dl_stream (dl_written t) (dl_got t @ d) w" using I takes(3) by (simp add: dl_inv_def dl_stream_def)
    ultimately show ?thesis using I takes by (auto simp: dl_inv_def dl_client_def)
  next
    case body_ends
    have "dl_stream (dl_written t) (dl_got t) []" using I by (auto simp: dl_inv_def dl_stream_def)
    moreover have "dl_client c0 (dl_got t) (act AOver (dl_conn t))" using I by (simp add: dl_inv_def dl_client_def)
    moreover have "\<forall>h \<in> set (dl_old t @ (case dl_cur t of None \<Rightarrow> [] | Some h \<Rightarrow> [h])). h_ok ref (dl_written t) h"
      using I by (auto simp: dl_inv_def dl_current_def split: option.splits)
    ultimately show ?thesis using ses body_ends(1) by (simp add: dl_inv_def dl_current_def dl_awake_def)
  next
    case (get_served now pad addr r off sv')
    note G = get_inv [OF I v [OF get_served(3) tok] key len get_served(4)]
    have wire: "dl_wire t = []" using I get_served(2) by (simp add: dl_inv_def)
    have "dl_session i ref (dl_written t) sv'" by (rule dl_session_same [OF ses]) (use G ses in \<open>simp_all add: dl_session_def\<close>)
    moreover have "h_ok ref (dl_written t) \<lparr>h_sess = r, h_offset = off, h_waiting = False\<rparr>"
      using G dl_inv_got [OF I, THEN conjunct2] by (simp add: h_ok_def)
    ultimately show ?thesis using I get_served(1) G wire
      by (simp add: dl_inv_def dl_client_def dl_current_def dl_awake_def startDownload_def reply_err_def)
  next
    case (get_answer_lost a now pad addr r off sv')
    note G = get_inv [OF I v [OF get_answer_lost(4) tok] key len get_answer_lost(5)]
    have "dl_session i ref (dl_written t) sv'" by (rule dl_session_same [OF ses]) (use G ses in \<open>simp_all add: dl_session_def\<close>)
    moreover have "h_ok ref (dl_written t) \<lparr>h_sess = r, h_offset = off, h_waiting = False\<rparr>"
      using G dl_inv_got [OF I, THEN conjunct2] by (simp add: h_ok_def)
    moreover have "act (AGet a) (dl_conn t) = dl_conn t" using get_answer_lost(3) by (auto simp: startDownload_def)
    ultimately show ?thesis using I get_answer_lost(1) G dl_awake_notify [of ref "dl_written t" "dl_srv t" "dl_cur t" sv']
      by (auto simp: dl_inv_def)
  next
    case (get_rejected stt now pad addr sv' page)
    then show ?thesis
      using get_inv [where v = "v now" and pad = pad and addr = addr, OF I v [OF get_rejected(3) tok] key len get_rejected(4)]
      by simp
  next
    case (client_writes p rs res posts c')
    note D = client_write_download [OF client_writes(2)]
    then show ?thesis using I client_writes(1) by (auto simp: dl_inv_def dl_client_def same_download_def)
  next
    case (others sv')
    then have "dl_session i ref (dl_written t) sv'" using ses by (auto simp: dl_session_def)
    then show ?thesis using I others dl_awake_notify [of ref "dl_written t" "dl_srv t" "dl_cur t" sv']
      by (auto simp: dl_inv_def)
  qed
qed

lemma dl_steps_written: "(dl_step v tm site i ref)\<^sup>*\<^sup>* t t' \<Longrightarrow> \<exists>p. dl_written t' = dl_written t @ p"
proof (induction rule: rtranclp_induct)
  case (step t1 t2)
  then show ?case using dl_step_written [OF step(2)] by auto
qed simp

lemma dl_steps_inv:
  assumes "(dl_step v tm site i ref)\<^sup>*\<^sup>* t t'" and I: "dl_inv i ref c0 t"
    and v: "\<And>now c pad addr. now \<in> tm \<Longrightarrow> tokenB64 c = tokenB64 c0 \<Longrightarrow> v now (get_request c pad addr) = Inr i"
    and key: "SessionKeyName (ClientConfig (cc_client c0)) \<noteq> ''off''" and small: "int (length (dl_written t')) < 2 ^ 63"
  shows "dl_inv i ref c0 t'"
  using assms(1) small
proof (induction rule: rtranclp_induct)
  case base
  then show ?case using I by simp
next
  case (step t1 t2)
  have "int (length (dl_written t1)) < 2 ^ 63" using dl_step_written [OF step(2)] step(4) by auto
  then show ?case using dl_step_inv [OF step(3) step(2) v key step(4)] by simp
qed

section \<open>Nothing is left behind\<close>

text \<open>
  The current handler alone brings the rest: it wakes up if it waits, then looks and sends until
  it is at the end, and the client takes what is on its way.
\<close>

definition in_window :: "nat \<Rightarrow> int \<Rightarrow> server \<Rightarrow> bool" where
  "in_window ref off sv \<longleftrightarrow> (let db = download_buf (sess_at sv ref) in delivered db - maxRetain db \<le> off)"

lemma look_sends:
  assumes I: "dl_inv i ref c0 t" and cur: "dl_cur t = Some h" "\<not> h_waiting h"
    and w: "in_window ref (h_offset h) (dl_srv t)" "h_offset h < int (length (dl_written t))"
  shows "\<exists>d sv'. d \<noteq> [] \<and> in_window ref (h_offset h + int (length d)) sv' \<and>
    handler_move (Look True) h (dl_srv t) = Some (d, Some (h\<lparr>h_offset := h_offset h + int (length d)\<rparr>), sv')"
proof -
  let ?db = "download_buf (sess_at (dl_srv t) ref)" and ?W = "dl_written t"
  have h: "h_sess h = ref" "0 \<le> h_offset h" and rep: "represents ?db ?W" and ref: "ref < length (heap (mgr (dl_srv t)))"
    using I cur by (auto simp: dl_inv_def dl_current_def h_ok_def dl_session_def)
  define d where "d = take 32768 (drop (nat (h_offset h)) ?W)"
  define off' where "off' = h_offset h + int (length d)"
  have r: "ReadFrom (h_offset h) 32768 ?db = (d, off', None)"
    using ReadFrom_in_window [OF rep _ h(2) w(2), of 32768] w(1) by (simp add: in_window_def d_def off'_def min.commute Let_def)
  have d: "d \<noteq> []" using w(2) h(2) by (auto simp: d_def)
  have e: "off' \<le> end_off ?db"
    using h(2) w(2) by (simp add: represents_end [OF rep] off'_def d_def min_def) linarith
  have "0 \<le> maxRetain ?db" using represents_inv [OF rep] by (simp add: db_inv_def)
  then have "in_window ref off' (upd_sess ref (\<lambda>s. s\<lparr>download_buf := Advance off' (download_buf s)\<rparr>) (dl_srv t))"
    using w(1) ref e by (simp add: in_window_def Let_def sess_at_upd Advance_delivered Advance_fields off'_def)
  with d r h(1) cur(2) show ?thesis
    by (intro exI [of _ d] exI [of _ "upd_sess ref (\<lambda>s. s\<lparr>download_buf := Advance off' (download_buf s)\<rparr>) (dl_srv t)"])
      (simp add: handler_move_def download_look_def off'_def)
qed

lemma handler_drains:
  assumes "dl_inv i ref c0 t" and "dl_cur t = Some h" "\<not> h_waiting h" and "in_window ref (h_offset h) (dl_srv t)"
  shows "\<exists>t' h'. (dl_step v tm site i ref)\<^sup>*\<^sup>* t t' \<and> dl_inv i ref c0 t' \<and> dl_written t' = dl_written t \<and>
    dl_cur t' = Some h' \<and> h_offset h' = int (length (dl_written t))"
  using assms
proof (induction "length (dl_written t) - nat (h_offset h)" arbitrary: t h rule: less_induct)
  case less
  have h: "h_ok ref (dl_written t) h" using less.prems(1,2) by (auto simp: dl_inv_def dl_current_def)
  show ?case
  proof (cases "h_offset h < int (length (dl_written t))")
    case False
    then show ?thesis using less.prems h by (intro exI [of _ t] exI [of _ h]) (simp add: h_ok_def)
  next
    case True
    obtain d sv' where d: "d \<noteq> []" "in_window ref (h_offset h + int (length d)) sv'"
      and mv: "handler_move (Look True) h (dl_srv t) = Some (d, Some (h\<lparr>h_offset := h_offset h + int (length d)\<rparr>), sv')"
      using look_sends [OF less.prems True] by blast
    let ?h = "h\<lparr>h_offset := h_offset h + int (length d)\<rparr>"
    let ?t = "t\<lparr>dl_srv := sv', dl_cur := Some ?h, dl_wire := dl_wire t @ d\<rparr>"
    have one: "dl_step v tm site i ref t ?t" by (rule dl_step.current_moves [OF less.prems(2) mv])
    have I: "dl_inv i ref c0 ?t" by (rule current_moves_inv [OF less.prems(1,2) mv])
    have "length (dl_written t) - nat (h_offset ?h) < length (dl_written t) - nat (h_offset h)"
    proof -
      have "0 < length d" "nat (h_offset ?h) = nat (h_offset h) + length d" "nat (h_offset h) < length (dl_written t)"
        using True d(1) h by (auto simp: h_ok_def nat_add_distrib nat_less_iff)
      then show ?thesis by linarith
    qed
    then obtain t' h' where "(dl_step v tm site i ref)\<^sup>*\<^sup>* ?t t'" "dl_inv i ref c0 t'" "dl_written t' = dl_written t"
        "dl_cur t' = Some h'" "h_offset h' = int (length (dl_written t))"
      using less.hyps [of ?t ?h] I less.prems(3) d(2) by auto
    with one show ?thesis by (meson converse_rtranclp_into_rtranclp)
  qed
qed

lemma woken_again:
  assumes I: "dl_inv i ref c0 t" and cur: "dl_cur t = Some h" and awake: "\<not> dl_stolen t"
    and w: "in_window ref (h_offset h) (dl_srv t)" and left: "h_offset h < int (length (dl_written t))"
  shows "\<exists>t' h'. (dl_step v tm site i ref)\<^sup>*\<^sup>* t t' \<and> dl_inv i ref c0 t' \<and> dl_written t' = dl_written t \<and>
    dl_cur t' = Some h' \<and> \<not> h_waiting h' \<and> in_window ref (h_offset h') (dl_srv t')"
proof (cases "h_waiting h")
  case False
  then show ?thesis using I cur w by blast
next
  case True
  have h: "h_sess h = ref" "ref < length (heap (mgr (dl_srv t)))" and n: "notify (download_buf (sess_at (dl_srv t) ref))"
    using I cur awake left True by (auto simp: dl_inv_def dl_current_def h_ok_def dl_session_def dl_awake_def)
  let ?sv = "upd_sess ref (\<lambda>s. s\<lparr>download_buf := download_buf (sess_at (dl_srv t) ref)\<lparr>notify := False\<rparr>\<rparr>) (dl_srv t)"
  have mv: "handler_move Wake h (dl_srv t) = Some ([], Some (h\<lparr>h_waiting := False\<rparr>), ?sv)"
    using h n True by (simp add: handler_move_def download_wake_def recv_notify_def)
  have "in_window ref (h_offset h) ?sv" using w h by (simp add: in_window_def sess_at_upd Let_def)
  moreover note r_into_rtranclp [of "dl_step v tm site i ref", OF dl_step.current_moves [OF cur mv]] current_moves_inv [OF I cur mv]
  ultimately show ?thesis
    by (intro exI [of _ "t\<lparr>dl_srv := ?sv, dl_cur := Some (h\<lparr>h_waiting := False\<rparr>), dl_wire := dl_wire t @ []\<rparr>"]
        exI [of _ "h\<lparr>h_waiting := False\<rparr>"]) simp
qed

lemma rest_arrives:
  assumes I: "dl_inv i ref c0 t" and cur: "dl_cur t = Some h" and awake: "\<not> dl_stolen t"
    and w: "in_window ref (h_offset h) (dl_srv t)"
  shows "\<exists>t'. (dl_step v tm site i ref)\<^sup>*\<^sup>* t t' \<and> dl_written t' = dl_written t \<and> dl_got t' = dl_written t"
proof -
  obtain t1 h1 where t1: "(dl_step v tm site i ref)\<^sup>*\<^sup>* t t1" "dl_inv i ref c0 t1" "dl_written t1 = dl_written t"
      "dl_cur t1 = Some h1" "h_offset h1 = int (length (dl_written t))"
  proof (cases "h_offset h < int (length (dl_written t))")
    case True
    obtain t0 h0 where t0: "(dl_step v tm site i ref)\<^sup>*\<^sup>* t t0" "dl_inv i ref c0 t0" "dl_written t0 = dl_written t"
        "dl_cur t0 = Some h0" "\<not> h_waiting h0" "in_window ref (h_offset h0) (dl_srv t0)"
      using woken_again [OF I cur awake w True] by blast
    show ?thesis
      using handler_drains [OF t0(2,4-6), of v tm site] t0(1,3) that by (metis rtranclp_trans)
  next
    case False
    have "h_ok ref (dl_written t) h" using I cur by (auto simp: dl_inv_def dl_current_def)
    with False show ?thesis using that [of t h] I cur by (simp add: h_ok_def)
  qed
  have all: "dl_written t = dl_got t1 @ dl_wire t1" and body: "downloadBody (dl_conn t1)"
    using t1 by (auto simp: dl_inv_def dl_current_def dl_stream_def)
  show ?thesis
  proof (cases "dl_wire t1 = []")
    case True
    then show ?thesis using t1 all by auto
  next
    case False
    let ?t = "t1\<lparr>dl_conn := act (AData (dl_wire t1)) (dl_conn t1), dl_got := dl_got t1 @ dl_wire t1, dl_wire := []\<rparr>"
    have "dl_step v tm site i ref t1 ?t"
      by (rule dl_step.takes) (use body False in simp_all)
    with t1(1) have "(dl_step v tm site i ref)\<^sup>*\<^sup>* t ?t" by (rule rtranclp.rtrancl_into_rtrancl)
    with t1(3) all show ?thesis by (intro exI [of _ ?t]) simp
  qed
qed

section \<open>The start, and two handlers\<close>

text \<open>The state after the dial, whose GET has been served.\<close>

definition dl_start :: "server \<Rightarrow> client_conn \<Rightarrow> nat \<Rightarrow> download" where
  "dl_start sv c ref = \<lparr>dl_srv = sv, dl_conn = c, dl_written = [], dl_got = [],
     dl_cur = Some \<lparr>h_sess = ref, h_offset = 0, h_waiting = False\<rparr>, dl_wire = [], dl_old = [], dl_stolen = False\<rparr>"

lemma dl_start_inv:
  assumes "represents (download_buf (sess_at sv ref)) []" and "Get i (mgr sv) = Some ref" "ref < length (heap (mgr sv))"
    and "downloadOffset c = 0" "downloadBody c"
  shows "dl_inv i ref c (dl_start sv c ref)"
  using assms
  by (simp add: dl_inv_def dl_start_def dl_session_def dl_client_def dl_stream_def dl_current_def dl_awake_def h_ok_def)

lemma look_waits:
  assumes "represents (download_buf (sess_at sv (h_sess h))) []" and "\<not> is_done (download_buf (sess_at sv (h_sess h)))"
    and "h_offset h = 0" "\<not> h_waiting h"
  shows "handler_move (Look True) h sv = Some ([], Some (h\<lparr>h_waiting := True\<rparr>), sv)"
proof -
  have "buf (download_buf (sess_at sv (h_sess h))) = []" "discarded (download_buf (sess_at sv (h_sess h))) = 0"
    using assms(1) by (auto simp: represents_def db_inv_def)
  with assms show ?thesis by (simp add: handler_move_def download_look_def ReadFrom_def)
qed

lemma waits_in_vain:
  assumes "h_waiting h" and "\<not> notify (download_buf (sess_at sv (h_sess h)))" and "x \<noteq> Cancel"
  shows "handler_move x h sv = None"
  using assms by (cases x) (simp_all add: handler_move_def download_wake_def recv_notify_def)

lemma fresh_window: "represents db [] \<Longrightarrow> delivered db - maxRetain db \<le> 0"
  using represents_inv [of db "[]"] represents_end [of db "[]"] by (simp add: db_inv_def)

text \<open>The first bytes that the relay writes.\<close>

lemma first_write:
  assumes "dl_inv i ref c0 (dl_start sv c0 ref)" and "\<not> is_done (download_buf (sess_at sv ref))"
  shows "\<exists>t h. dl_step v tm site i ref (dl_start sv c0 ref) t \<and> dl_written t = p \<and> dl_cur t = Some h \<and>
    \<not> dl_stolen t \<and> in_window ref (h_offset h) (dl_srv t)"
proof -
  have rep: "represents (download_buf (sess_at sv ref)) []" and ref: "ref < length (heap (mgr sv))"
    using assms(1) by (simp_all add: dl_inv_def dl_start_def dl_session_def)
  obtain n s' where snd: "conn_send p (newSplitConn ref '''') (sess_at sv ref) = (Inr n, s')"
    using assms(2) by (simp add: conn_send_def Write_def Let_def)
  let ?t = "(dl_start sv c0 ref)\<lparr>dl_srv := upd_sess ref (\<lambda>_. s') sv, dl_written := p\<rparr>"
  have "dl_step v tm site i ref (dl_start sv c0 ref) ?t"
    using dl_step.relay_writes [of p "newSplitConn ref ''''" "dl_start sv c0 ref" ref n s'] snd by (simp add: dl_start_def)
  moreover have "in_window ref 0 (upd_sess ref (\<lambda>_. s') sv)"
    using conn_send_Inr [OF snd] fresh_window [OF rep] ref by (simp add: in_window_def sess_at_upd Write_fields Let_def)
  ultimately show ?thesis by (intro exI [of _ ?t]) (simp add: dl_start_def)
qed

text \<open>A client whose download breaks at once comes back, and both handlers wait.\<close>

abbreviation waiting_at :: "nat \<Rightarrow> get_handler" where
  "waiting_at ref \<equiv> \<lparr>h_sess = ref, h_offset = 0, h_waiting = True\<rparr>"

definition two_waiting :: "server \<Rightarrow> client_conn \<Rightarrow> nat \<Rightarrow> download" where
  "two_waiting sv c ref = (dl_start sv c ref)\<lparr>dl_cur := Some (waiting_at ref), dl_old := [waiting_at ref]\<rparr>"

lemma second_get_waits:
  assumes I: "dl_inv i ref c0 (dl_start sv c0 ref)" and sv: "emit_inv out sv" "\<not> accept_closed sv"
    and undone: "\<not> is_done (download_buf (sess_at sv ref))"
    and v: "\<And>now c pad addr. now \<in> tm \<Longrightarrow> tokenB64 c = tokenB64 c0 \<Longrightarrow> v now (get_request c pad addr) = Inr i"
    and key: "SessionKeyName (ClientConfig (cc_client c0)) \<noteq> ''off''" and now: "now \<in> tm"
  shows "\<exists>sv2 c2. (dl_step v tm site i ref)\<^sup>*\<^sup>* (dl_start sv c0 ref) (two_waiting sv2 c2 ref) \<and> same_table sv sv2 \<and>
    download_buf (sess_at sv2 ref) = download_buf (sess_at sv ref)"
proof -
  let ?h = "\<lparr>h_sess = ref, h_offset = 0, h_waiting = False\<rparr>" and ?R = "dl_step v tm site i ref"
  have rep: "represents (download_buf (sess_at sv ref)) []" and body: "downloadBody c0"
    using I by (simp_all add: dl_inv_def dl_start_def dl_session_def dl_current_def)
  define t1 where "t1 = (dl_start sv c0 ref)\<lparr>dl_cur := Some (waiting_at ref)\<rparr>"
  have s1: "?R (dl_start sv c0 ref) t1"
    using dl_step.current_moves [of "dl_start sv c0 ref" ?h "Look True" "[]" "Some (waiting_at ref)" sv] look_waits [of sv ?h] rep undone
    by (simp add: dl_start_def t1_def)
  define c1 where "c1 = c0\<lparr>downloadBody := False\<rparr>"
  define t2 where "t2 = t1\<lparr>dl_conn := c1, dl_cur := None, dl_old := [waiting_at ref]\<rparr>"
  have s2: "?R t1 t2"
    using dl_step.body_ends [of t1] body by (simp add: t1_def t2_def c1_def dl_start_def)
  have I2: "dl_inv i ref c0 t2"
    using dl_step_inv [OF dl_step_inv [OF I s1 v key] s2 v key] by (simp add: t2_def t1_def dl_start_def)
  obtain k sv2 where get: "ServeHTTP (v now) now (get_request c1 [] '''') sv = Some (k, sv2)"
    using ServeHTTP_total [OF sv] by blast
  have t2: "dl_conn t2 = c1" "dl_srv t2 = sv" "dl_written t2 = []" "dl_got t2 = []" by (simp_all add: t2_def t1_def dl_start_def)
  have "v now (get_request c1 [] '''') = Inr i" by (rule v [OF now]) (simp add: c1_def)
  from get_inv [where v = "v now", OF I2 _ key, unfolded t2, OF this _ get]
  have k: "k = DownloadLoop ref 0" and tab: "same_table sv sv2" and db: "download_buf (sess_at sv2 ref) = download_buf (sess_at sv ref)"
    by simp_all
  define c2 where "c2 = c1\<lparr>downloadBody := True\<rparr>"
  define t3 where "t3 = t2\<lparr>dl_srv := sv2, dl_conn := c2, dl_cur := Some ?h\<rparr>"
  have s3: "?R t2 t3"
    using dl_step.get_served [where v = v and tm = tm and t = t2 and pad = "[]" and addr = "''''" and now = now, unfolded t2, OF _ now get [unfolded k]]
    by (simp add: t3_def c2_def startDownload_def reply_err_def t2_def t1_def dl_start_def c1_def)
  have "?R t3 (two_waiting sv2 c2 ref)"
    using dl_step.current_moves [of t3 ?h "Look True" "[]" "Some (waiting_at ref)" sv2] look_waits [of sv2 ?h] rep undone db
    by (simp add: two_waiting_def t3_def t2_def t1_def dl_start_def)
  with s1 s2 s3 have "?R\<^sup>*\<^sup>* (dl_start sv c0 ref) (two_waiting sv2 c2 ref)"
    by (meson converse_rtranclp_into_rtranclp rtranclp.rtrancl_refl)
  with tab db show ?thesis by blast
qed

text \<open>
  The notification goes to one handler only. A client whose download breaks sends a new GET while
  the handler of the old one may still wait, for the server has not noticed the break. When the
  relay then writes, the old handler can take the notification, and the new one stays where it
  is, with all of the data ahead of it: nothing but the end of its own request can move it,
  until the relay writes again.
\<close>

theorem earlier_get_takes_notification:
  assumes I: "dl_inv i ref c0 (dl_start sv c0 ref)" and sv: "emit_inv out sv" "\<not> accept_closed sv"
    and undone: "\<not> is_done (download_buf (sess_at sv ref))"
    and v: "\<And>now c pad addr. now \<in> tm \<Longrightarrow> tokenB64 c = tokenB64 c0 \<Longrightarrow> v now (get_request c pad addr) = Inr i"
    and key: "SessionKeyName (ClientConfig (cc_client c0)) \<noteq> ''off''" and now: "now \<in> tm"
  shows "\<exists>t h. (dl_step v tm site i ref)\<^sup>*\<^sup>* (dl_start sv c0 ref) t \<and> dl_written t = p \<and> dl_got t = [] \<and>
    dl_cur t = Some h \<and> h_offset h = 0 \<and> in_window ref 0 (dl_srv t) \<and>
    (\<forall>x. x \<noteq> Cancel \<longrightarrow> handler_move x h (dl_srv t) = None)"
proof -
  let ?R = "dl_step v tm site i ref" and ?h = "\<lparr>h_sess = ref, h_offset = 0, h_waiting = False\<rparr>"
  let ?db = "download_buf (sess_at sv ref)"
  have rep: "represents ?db []" and ref: "ref < length (heap (mgr sv))"
    using I by (simp_all add: dl_inv_def dl_start_def dl_session_def)
  obtain sv2 c2 where run: "?R\<^sup>*\<^sup>* (dl_start sv c0 ref) (two_waiting sv2 c2 ref)"
    and tab: "same_table sv sv2" and db: "download_buf (sess_at sv2 ref) = ?db"
    using second_get_waits [where v = v and site = site, OF I sv undone v key now] by blast
  obtain n s' where snd: "conn_send p (newSplitConn ref '''') (sess_at sv2 ref) = (Inr n, s')"
    using undone db by (simp add: conn_send_def Write_def Let_def)
  define sv3 where "sv3 = upd_sess ref (\<lambda>_. s') sv2"
  define t5 where "t5 = (two_waiting sv2 c2 ref)\<lparr>dl_srv := sv3, dl_written := p\<rparr>"
  have s5: "?R (two_waiting sv2 c2 ref) t5"
    using dl_step.relay_writes [of p "newSplitConn ref ''''" "two_waiting sv2 c2 ref" ref n s'] snd
    by (simp add: t5_def two_waiting_def sv3_def dl_start_def)
  have ref3: "ref < length (heap (mgr sv3))" using ref tab by (simp add: sv3_def same_table_def)
  note W = conn_send_Inr [OF snd]
  have at3: "download_buf (sess_at sv3 ref) = snd (Write p ?db)"
    using W ref tab db by (simp add: sv3_def sess_at_upd same_table_def)
  have notified: "notify (download_buf (sess_at sv3 ref))" using W db by (simp add: at3 Write_def Let_def)
  define sv4 where "sv4 = upd_sess ref (\<lambda>s. s\<lparr>download_buf := download_buf (sess_at sv3 ref)\<lparr>notify := False\<rparr>\<rparr>) sv3"
  have wake: "handler_move Wake (waiting_at ref) sv3 = Some ([], Some ?h, sv4)"
    using notified by (simp add: handler_move_def download_wake_def recv_notify_def sv4_def)
  define t6 where "t6 = t5\<lparr>dl_srv := sv4, dl_old := [?h], dl_stolen := True\<rparr>"
  have s6: "?R t5 t6"
    using dl_step.earlier_moves [of t5 "[]" "waiting_at ref" "[]" Wake "[]" "Some ?h" sv4] wake
    by (simp add: t6_def t5_def two_waiting_def dl_start_def)
  have end4: "download_buf (sess_at sv4 ref) = snd (Write p ?db)\<lparr>notify := False\<rparr>"
    using ref3 by (simp add: sv4_def sess_at_upd at3)
  have win: "in_window ref 0 sv4"
    using fresh_window [OF rep] by (simp add: in_window_def Let_def end4 Write_fields)
  have "?R\<^sup>*\<^sup>* (dl_start sv c0 ref) t6" using run s5 s6 by (meson rtranclp.rtrancl_into_rtrancl)
  moreover have "dl_written t6 = p" "dl_got t6 = []" "dl_cur t6 = Some (waiting_at ref)" "dl_srv t6 = sv4"
    by (simp_all add: t6_def t5_def two_waiting_def dl_start_def)
  ultimately show ?thesis using win waits_in_vain [of "waiting_at ref" sv4] end4
    by (intro exI [of _ t6] exI [of _ "waiting_at ref"]) simp
qed

end
