(* ===== verification/Throttle.thy ===== *)
theory Throttle
  imports Complex_Main Interfaces Strconv
begin

text \<open>
  Model of \<open>internal/throttle\<close>: the throttling detector and the adaptive controller that
  listens to it, and the canary that feeds it. Durations are nanoseconds. Operations
  on 64-bit floats are a record of parameters (\<open>float_ops\<close>), so that the model does not
  depend on rounding; a callback registered on a component is a number, and an operation
  returns the calls it starts, each with its argument. The timer loops are their bodies,
  called by the ticks.
\<close>

section \<open>detector.go\<close>

record 'f float_ops =
  fzero :: 'f
  fone :: 'f
  fadd :: "'f \<Rightarrow> 'f \<Rightarrow> 'f"
  fsub :: "'f \<Rightarrow> 'f \<Rightarrow> 'f"
  fmul :: "'f \<Rightarrow> 'f \<Rightarrow> 'f"
  fdiv :: "'f \<Rightarrow> 'f \<Rightarrow> 'f"
  fge :: "'f \<Rightarrow> 'f \<Rightarrow> bool"
  fgt :: "'f \<Rightarrow> 'f \<Rightarrow> bool"
  fof :: "int \<Rightarrow> 'f"

datatype tstate = StateNormal | StateSuspected | StateThrottled

definition state_string :: "tstate \<Rightarrow> string" where
  "state_string s = (case s of StateNormal \<Rightarrow> ''normal'' | StateSuspected \<Rightarrow> ''suspected''
     | StateThrottled \<Rightarrow> ''throttled'')"

record detector_config =
  RTTSpikeMs :: int
  ThroughputDropPct :: int
  WindowSize :: int
  ConfirmCount :: int

definition detector_defaults :: "detector_config \<Rightarrow> detector_config" where
  "detector_defaults c = c\<lparr>
     RTTSpikeMs := (if RTTSpikeMs c \<le> 0 then 500 else RTTSpikeMs c),
     ThroughputDropPct := (if ThroughputDropPct c \<le> 0 then 70 else ThroughputDropPct c),
     WindowSize := (if WindowSize c \<le> 0 then 20 else WindowSize c),
     ConfirmCount := (if ConfirmCount c \<le> 0 then 3 else ConfirmCount c)\<rparr>"

record 'f detector =
  dconfig :: detector_config
  rttSamples :: "int list"
  tputSamples :: "'f list"
  baselineRTT :: int
  baselineTput :: 'f
  suspectedCount :: int
  dstate :: tstate
  dlisteners :: "nat list"

definition NewDetector :: "'f float_ops \<Rightarrow> detector_config \<Rightarrow> 'f detector" where
  "NewDetector F cfg = \<lparr>dconfig = detector_defaults cfg, rttSamples = [], tputSamples = [],
     baselineRTT = 0, baselineTput = fzero F, suspectedCount = 0, dstate = StateNormal,
     dlisteners = []\<rparr>"

definition medianRTT :: "'f detector \<Rightarrow> int" where
  "medianRTT d = (if rttSamples d = [] then 0 else rttSamples d ! (length (rttSamples d) div 2))"

definition avgThroughput :: "'f float_ops \<Rightarrow> 'f detector \<Rightarrow> 'f" where
  "avgThroughput F d =
     (if tputSamples d = [] then fzero F
      else fdiv F (foldl (fadd F) (fzero F) (tputSamples d)) (fof F (int (length (tputSamples d)))))"

text \<open>The two checks of \<open>evaluate\<close>.\<close>

definition rtt_spike :: "'f detector \<Rightarrow> bool" where
  "rtt_spike d =
     (0 < baselineRTT d \<and> 3 \<le> length (rttSamples d) \<and>
      (let recent = last (rttSamples d); threshold = wrap64 (RTTSpikeMs (dconfig d) * 1000000)
       in threshold < recent \<and> wrap64 (baselineRTT d * 3) < recent))"

definition tput_drop :: "'f float_ops \<Rightarrow> 'f detector \<Rightarrow> bool" where
  "tput_drop F d =
     (fgt F (baselineTput d) (fzero F) \<and> 3 \<le> length (tputSamples d) \<and>
      (let recent = last (tputSamples d);
           dropPct = fmul F (fsub F (fone F) (fdiv F recent (baselineTput d))) (fof F 100)
       in fge F dropPct (fof F (ThroughputDropPct (dconfig d)))))"

definition evaluate :: "'f float_ops \<Rightarrow> 'f detector \<Rightarrow> (nat \<times> tstate) list \<times> 'f detector" where
  "evaluate F d =
     (let suspected = (rtt_spike d \<or> tput_drop F d);
          d1 = (if suspected then
                  (let n = wrap64 (suspectedCount d + 1) in
                   d\<lparr>suspectedCount := n,
                     dstate := (if ConfirmCount (dconfig d) \<le> n then StateThrottled else StateSuspected)\<rparr>)
                else d\<lparr>suspectedCount := 0, dstate := StateNormal\<rparr>)
      in ((if dstate d \<noteq> dstate d1 then map (\<lambda>l. (l, dstate d1)) (dlisteners d) else []), d1))"

definition push_window :: "int \<Rightarrow> 'a \<Rightarrow> 'a list \<Rightarrow> 'a list" where
  "push_window w x xs = (let ys = xs @ [x] in if w < int (length ys) then tl ys else ys)"

definition RecordRTT :: "'f float_ops \<Rightarrow> int \<Rightarrow> 'f detector \<Rightarrow> (nat \<times> tstate) list \<times> 'f detector" where
  "RecordRTT F rtt d =
     (let d1 = d\<lparr>rttSamples := push_window (WindowSize (dconfig d)) rtt (rttSamples d)\<rparr>;
          d2 = (if length (rttSamples d1) \<le> 5 then d1\<lparr>baselineRTT := medianRTT d1\<rparr> else d1)
      in evaluate F d2)"

definition RecordThroughput :: "'f float_ops \<Rightarrow> 'f \<Rightarrow> 'f detector \<Rightarrow> (nat \<times> tstate) list \<times> 'f detector" where
  "RecordThroughput F v d =
     (let d1 = d\<lparr>tputSamples := push_window (WindowSize (dconfig d)) v (tputSamples d)\<rparr>;
          d2 = (if length (tputSamples d1) \<le> 5 then d1\<lparr>baselineTput := avgThroughput F d1\<rparr> else d1)
      in evaluate F d2)"

definition detector_GetState :: "'f detector \<Rightarrow> tstate" where
  "detector_GetState d = dstate d"

definition detector_OnStateChange :: "nat \<Rightarrow> 'f detector \<Rightarrow> 'f detector" where
  "detector_OnStateChange l d = d\<lparr>dlisteners := dlisteners d @ [l]\<rparr>"

datatype 'f sample = RTT int | Tput 'f

fun record_sample :: "'f float_ops \<Rightarrow> 'f sample \<Rightarrow> 'f detector \<Rightarrow> (nat \<times> tstate) list \<times> 'f detector" where
  "record_sample F (RTT t) d = RecordRTT F t d"
| "record_sample F (Tput v) d = RecordThroughput F v d"

fun record_all :: "'f float_ops \<Rightarrow> 'f sample list \<Rightarrow> 'f detector \<Rightarrow> (nat \<times> tstate) list \<times> 'f detector" where
  "record_all F [] d = ([], d)"
| "record_all F (x # xs) d =
     (case record_sample F x d of (c, d1) \<Rightarrow> (case record_all F xs d1 of (cs, d2) \<Rightarrow> (c @ cs, d2)))"

section \<open>adaptive.go\<close>

datatype strategy = StrategyMultiply | StrategyRotate | StrategyBoth | StrategyUnset | StrategyOther string

record adaptive_config =
  Strategy :: strategy
  BaseParallelConns :: int
  MaxParallelConns :: int
  RotateIntervalSec :: int

definition adaptive_defaults :: "adaptive_config \<Rightarrow> adaptive_config" where
  "adaptive_defaults c = c\<lparr>
     Strategy := (if Strategy c = StrategyUnset then StrategyBoth else Strategy c),
     BaseParallelConns := (if BaseParallelConns c \<le> 0 then 1 else BaseParallelConns c),
     MaxParallelConns := (if MaxParallelConns c \<le> 0 then 8 else MaxParallelConns c),
     RotateIntervalSec := (if RotateIntervalSec c \<le> 0 then 60 else RotateIntervalSec c)\<rparr>"

record adaptive =
  aconfig :: adaptive_config
  parallelConns :: "32 word"
  rotateSignal :: bool

definition NewAdaptive :: "adaptive_config \<Rightarrow> nat \<Rightarrow> 'f detector \<Rightarrow> adaptive \<times> 'f detector" where
  "NewAdaptive cfg l d =
     (let cfg = adaptive_defaults cfg in
      (\<lparr>aconfig = cfg, parallelConns = word_of_int (BaseParallelConns cfg), rotateSignal = False\<rparr>,
       detector_OnStateChange l d))"

definition ParallelConns :: "adaptive \<Rightarrow> int" where
  "ParallelConns a = sint (parallelConns a)"

definition recv_rotate :: "adaptive \<Rightarrow> adaptive option" where
  "recv_rotate a = (if rotateSignal a then Some (a\<lparr>rotateSignal := False\<rparr>) else None)"

definition onStateChange :: "tstate \<Rightarrow> adaptive \<Rightarrow> adaptive" where
  "onStateChange s a =
     (case s of
        StateThrottled \<Rightarrow>
          let current = ParallelConns a;
              newVal = min (current * 2) (MaxParallelConns (aconfig a));
              a1 = (if current < newVal then a\<lparr>parallelConns := word_of_int newVal\<rparr> else a)
          in if Strategy (aconfig a) = StrategyRotate \<or> Strategy (aconfig a) = StrategyBoth
             then a1\<lparr>rotateSignal := True\<rparr> else a1
      | StateNormal \<Rightarrow>
          let current = ParallelConns a in
          if BaseParallelConns (aconfig a) < current
          then a\<lparr>parallelConns := word_of_int (max (current div 2) (BaseParallelConns (aconfig a)))\<rparr>
          else a
      | StateSuspected \<Rightarrow> a)"

section \<open>canary.go\<close>

record canary_config =
  CEndpoints :: "string list"
  Interval :: int
  Timeout :: int
  FailThreshold :: int

definition canary_defaults :: "canary_config \<Rightarrow> canary_config" where
  "canary_defaults c = c\<lparr>
     CEndpoints := (if CEndpoints c = [] then
        [''https://www.google.com/generate_204'', ''https://cp.cloudflare.com/'',
         ''https://detectportal.firefox.com/success.txt''] else CEndpoints c),
     Interval := (if Interval c \<le> 0 then 30 * 1000000000 else Interval c),
     Timeout := (if Timeout c \<le> 0 then 10 * 1000000000 else Timeout c),
     FailThreshold := (if FailThreshold c \<le> 0 then 3 else FailThreshold c)\<rparr>"

datatype canary_state = CanaryOK | CanaryDegraded | CanaryBlocked

definition canary_string :: "canary_state \<Rightarrow> string" where
  "canary_string s = (case s of CanaryOK \<Rightarrow> ''ok'' | CanaryDegraded \<Rightarrow> ''degraded'' | CanaryBlocked \<Rightarrow> ''blocked'')"

record canary =
  ccfg :: canary_config
  cstate :: canary_state
  consecutiveFails :: int
  clisteners :: "nat list"
  cstopped :: bool

definition NewCanary :: "canary_config \<Rightarrow> canary" where
  "NewCanary cfg = \<lparr>ccfg = canary_defaults cfg, cstate = CanaryOK, consecutiveFails = 0,
     clisteners = [], cstopped = False\<rparr>"

definition canary_Stop :: "canary \<Rightarrow> canary" where
  "canary_Stop c = c\<lparr>cstopped := True\<rparr>"

definition canary_OnStateChange :: "nat \<Rightarrow> canary \<Rightarrow> canary" where
  "canary_OnStateChange l c = c\<lparr>clisteners := clisteners c @ [l]\<rparr>"

text \<open>The answer to one probe: the status of the response, \<open>None\<close> for an error, and the time.\<close>

definition probeEndpoint :: "nat option \<Rightarrow> bool" where
  "probeEndpoint resp = (case resp of None \<Rightarrow> False | Some st \<Rightarrow> \<not> 400 \<le> st)"

text \<open>
  \<open>probe\<close>: the round over the endpoints (\<open>answers\<close>, one per endpoint), which feeds the times
  of the successes to the detector when there is one, and the verdict.
\<close>

fun probe_round :: "'f float_ops \<Rightarrow> (nat option \<times> int) list \<Rightarrow> 'f detector option
    \<Rightarrow> nat \<times> nat \<times> (nat \<times> tstate) list \<times> 'f detector option" where
  "probe_round F [] d = (0, 0, [], d)"
| "probe_round F ((resp, rtt) # as) d =
     (if \<not> probeEndpoint resp then
        (case probe_round F as d of (s, f, c, d') \<Rightarrow> (s, f + 1, c, d'))
      else case d of
          None \<Rightarrow> (case probe_round F as None of (s, f, c, d') \<Rightarrow> (s + 1, f, c, d'))
        | Some det \<Rightarrow>
            (case RecordRTT F rtt det of (c1, det1) \<Rightarrow>
              (case probe_round F as (Some det1) of (s, f, c, d') \<Rightarrow> (s + 1, f, c1 @ c, d'))))"

definition canary_verdict :: "nat \<Rightarrow> nat \<Rightarrow> canary \<Rightarrow> (nat \<times> canary_state) list \<times> canary" where
  "canary_verdict successes failures c =
     (let c1 = (if failures = 0 then c\<lparr>consecutiveFails := 0, cstate := CanaryOK\<rparr>
                else if 0 < successes
                then c\<lparr>consecutiveFails := wrap64 (consecutiveFails c + 1), cstate := CanaryDegraded\<rparr>
                else let n = wrap64 (consecutiveFails c + 1) in
                  c\<lparr>consecutiveFails := n,
                    cstate := (if FailThreshold (ccfg c) \<le> n then CanaryBlocked else CanaryDegraded)\<rparr>)
      in ((if cstate c \<noteq> cstate c1 then map (\<lambda>l. (l, cstate c1)) (clisteners c) else []), c1))"

definition canary_probe :: "'f float_ops \<Rightarrow> (nat option \<times> int) list \<Rightarrow> 'f detector option \<Rightarrow> canary
    \<Rightarrow> (nat \<times> canary_state) list \<times> (nat \<times> tstate) list \<times> 'f detector option \<times> canary" where
  "canary_probe F answers d c =
     (case probe_round F answers d of (successes, failures, dcalls, d') \<Rightarrow>
        (case canary_verdict successes failures c of (calls, c') \<Rightarrow> (calls, dcalls, d', c')))"


section \<open>The states in the order of their numbers\<close>

instantiation tstate :: linorder
begin

definition less_eq_tstate :: "tstate \<Rightarrow> tstate \<Rightarrow> bool" where
  "s \<le> t \<longleftrightarrow> s = StateNormal \<or> t = StateThrottled \<or> s = t"

definition less_tstate :: "tstate \<Rightarrow> tstate \<Rightarrow> bool" where
  "s < (t :: tstate) \<longleftrightarrow> s \<le> t \<and> s \<noteq> t"

instance
proof
  fix s t u :: tstate
  show "s < t \<longleftrightarrow> s \<le> t \<and> \<not> t \<le> s" by (auto simp: less_tstate_def less_eq_tstate_def)
  show "s \<le> s" by (simp add: less_eq_tstate_def)
  show "s \<le> t \<Longrightarrow> t \<le> u \<Longrightarrow> s \<le> u" by (auto simp: less_eq_tstate_def)
  show "s \<le> t \<Longrightarrow> t \<le> s \<Longrightarrow> s = t" by (auto simp: less_eq_tstate_def)
  show "s \<le> t \<or> t \<le> s" by (cases s; cases t) (simp_all add: less_eq_tstate_def)
qed

end

section \<open>The detector\<close>

text \<open>The state for a number of suspected evaluations in a row.\<close>

definition tstate_of :: "int \<Rightarrow> int \<Rightarrow> tstate" where
  "tstate_of confirm n = (if n = 0 then StateNormal else if n < confirm then StateSuspected else StateThrottled)"

lemma tstate_of_mono: "0 < c \<Longrightarrow> 0 \<le> n \<Longrightarrow> n \<le> m \<Longrightarrow> tstate_of c n \<le> tstate_of c m"
  by (auto simp: tstate_of_def less_eq_tstate_def)

definition suspicion :: "'f float_ops \<Rightarrow> 'f detector \<Rightarrow> bool" where
  "suspicion F d \<longleftrightarrow> rtt_spike d \<or> tput_drop F d"

text \<open>The detector at its evaluation of a sample, and the verdicts of a run of samples.\<close>

fun noted :: "'f float_ops \<Rightarrow> 'f sample \<Rightarrow> 'f detector \<Rightarrow> 'f detector" where
  "noted F (RTT t) d =
     (let d1 = d\<lparr>rttSamples := push_window (WindowSize (dconfig d)) t (rttSamples d)\<rparr>
      in if length (rttSamples d1) \<le> 5 then d1\<lparr>baselineRTT := medianRTT d1\<rparr> else d1)"
| "noted F (Tput v) d =
     (let d1 = d\<lparr>tputSamples := push_window (WindowSize (dconfig d)) v (tputSamples d)\<rparr>
      in if length (tputSamples d1) \<le> 5 then d1\<lparr>baselineTput := avgThroughput F d1\<rparr> else d1)"

lemma record_sample_evaluate: "record_sample F x d = evaluate F (noted F x d)"
  by (cases x) (simp_all add: RecordRTT_def RecordThroughput_def Let_def)

lemma noted_same [simp]:
  "dconfig (noted F x d) = dconfig d" "suspectedCount (noted F x d) = suspectedCount d"
  "dstate (noted F x d) = dstate d" "dlisteners (noted F x d) = dlisteners d"
  by (cases x; simp add: Let_def)+

fun verdicts :: "'f float_ops \<Rightarrow> 'f sample list \<Rightarrow> 'f detector \<Rightarrow> bool list" where
  "verdicts F [] d = []"
| "verdicts F (x # xs) d =
     suspicion F (noted F x d) # verdicts F xs (snd (record_sample F x d))"

lemma record_all_snoc:
  "record_all F (xs @ [x]) d =
     (fst (record_all F xs d) @ fst (record_sample F x (snd (record_all F xs d))),
      snd (record_sample F x (snd (record_all F xs d))))"
  by (induction xs arbitrary: d) (auto split: prod.splits)

lemma verdicts_snoc:
  "verdicts F (xs @ [x]) d = verdicts F xs d @ [suspicion F (noted F x (snd (record_all F xs d)))]"
  by (induction xs arbitrary: d) (auto split: prod.splits)

lemma length_verdicts [simp]: "length (verdicts F xs d) = length xs"
  by (induction xs arbitrary: d) auto

lemma evaluate_state:
  "snd (evaluate F d) =
     (let n = (if suspicion F d then wrap64 (suspectedCount d + 1) else 0) in
      d\<lparr>suspectedCount := n,
        dstate := (if \<not> suspicion F d then StateNormal
          else if ConfirmCount (dconfig d) \<le> n then StateThrottled else StateSuspected)\<rparr>)"
  by (simp add: evaluate_def suspicion_def Let_def)

lemma evaluate_calls:
  "fst (evaluate F d) =
     (if dstate d \<noteq> dstate (snd (evaluate F d))
      then map (\<lambda>l. (l, dstate (snd (evaluate F d)))) (dlisteners d) else [])"
  by (simp add: evaluate_def Let_def)

lemma record_sample_config [simp]:
  "dconfig (snd (record_sample F x d)) = dconfig d" "dlisteners (snd (record_sample F x d)) = dlisteners d"
  by (simp_all add: record_sample_evaluate evaluate_state Let_def)

lemma record_all_config [simp]:
  "dconfig (snd (record_all F xs d)) = dconfig d" "dlisteners (snd (record_all F xs d)) = dlisteners d"
  by (induction xs arbitrary: d) (auto split: prod.splits, (metis record_sample_config snd_conv)+)

text \<open>
  The invariant of a detector: its configuration has positive thresholds, its windows hold
  at most \<open>WindowSize\<close> samples, and its state is the one of its count.
\<close>

definition detector_ok :: "'f detector \<Rightarrow> bool" where
  "detector_ok d \<longleftrightarrow>
     0 < WindowSize (dconfig d) \<and> 0 < ConfirmCount (dconfig d) \<and> 0 \<le> suspectedCount d \<and>
     int (length (rttSamples d)) \<le> WindowSize (dconfig d) \<and>
     int (length (tputSamples d)) \<le> WindowSize (dconfig d) \<and>
     dstate d = tstate_of (ConfirmCount (dconfig d)) (suspectedCount d)"

lemma detector_ok_new: "detector_ok (NewDetector F cfg)"
  by (simp add: detector_ok_def NewDetector_def detector_defaults_def tstate_of_def)

lemma push_window_length: "0 < w \<Longrightarrow> int (length xs) \<le> w \<Longrightarrow> int (length (push_window w x xs)) \<le> w"
  by (simp add: push_window_def Let_def)

lemma noted_ok: "detector_ok d \<Longrightarrow> detector_ok (noted F x d)"
  by (cases x) (auto simp: detector_ok_def Let_def push_window_length)

lemma record_sample_ok:
  assumes "detector_ok d" and "suspectedCount d < 2 ^ 63 - 1"
  shows "detector_ok (snd (record_sample F x d)) \<and>
    suspectedCount (snd (record_sample F x d)) = (if suspicion F (noted F x d) then suspectedCount d + 1 else 0)"
  using noted_ok [OF assms(1), of F x] assms(2)
  by (auto simp: record_sample_evaluate evaluate_state detector_ok_def Let_def tstate_of_def)

lemma record_all_ok:
  assumes "detector_ok d" and "suspectedCount d + int (length xs) < 2 ^ 63" and "suspectedCount d = 0"
  shows "detector_ok (snd (record_all F xs d)) \<and>
    suspectedCount (snd (record_all F xs d)) = int (trailing (\<lambda>b. b) (verdicts F xs d))"
  using assms
proof (induction xs rule: rev_induct)
  case Nil
  then show ?case by simp
next
  case (snoc x xs)
  let ?d = "snd (record_all F xs d)"
  from snoc have ih: "detector_ok ?d" "suspectedCount ?d = int (trailing (\<lambda>b. b) (verdicts F xs d))" by auto
  moreover have "trailing (\<lambda>b. b) (verdicts F xs d) \<le> length xs" using trailing_le [of "\<lambda>b. b" "verdicts F xs d"] by simp
  ultimately have "suspectedCount ?d < 2 ^ 63 - 1" using snoc.prems by simp
  from record_sample_ok [OF ih(1) this, of F x] ih(2)
  show ?case by (simp add: record_all_snoc verdicts_snoc)
qed


lemma last_trailing: "trailing (\<lambda>b. b) vs = 0 \<longleftrightarrow> vs = [] \<or> \<not> last vs"
  by (cases vs rule: rev_cases) auto

text \<open>
  C19. The state of a detector that has taken the samples \<open>xs\<close> is a function of the verdicts on
  them: throttled exactly when the last \<open>ConfirmCount\<close> evaluations were all suspected, normal
  exactly when there was none or the last one was not, suspected in between; and the windows
  never outgrow their size.
\<close>

theorem detector_confirms:
  fixes F :: "'f float_ops" and cfg :: detector_config and xs :: "'f sample list"
  assumes "length xs < 2 ^ 63"
  defines "d \<equiv> snd (record_all F xs (NewDetector F cfg))"
    and "v \<equiv> verdicts F xs (NewDetector F cfg)"
    and "c \<equiv> nat (ConfirmCount (detector_defaults cfg))"
  shows "(dstate d = StateThrottled \<longleftrightarrow> c \<le> length xs \<and> (\<forall>b \<in> set (drop (length xs - c) v). b)) \<and>
    (dstate d = StateNormal \<longleftrightarrow> xs = [] \<or> \<not> last v) \<and>
    int (length (rttSamples d)) \<le> WindowSize (detector_defaults cfg) \<and>
    int (length (tputSamples d)) \<le> WindowSize (detector_defaults cfg)"
proof -
  have cnt: "suspectedCount (NewDetector F cfg) = 0" and cf: "dconfig (NewDetector F cfg) = detector_defaults cfg"
    by (simp_all add: NewDetector_def)
  have ok: "detector_ok d" and n: "suspectedCount d = int (trailing (\<lambda>b. b) v)"
    using record_all_ok [OF detector_ok_new, where xs = xs and F = F] assms(1) cnt unfolding d_def v_def by auto
  have dc: "dconfig d = detector_defaults cfg" by (simp add: d_def cf)
  have c0: "0 < ConfirmCount (detector_defaults cfg)" using ok dc by (simp add: detector_ok_def)
  have st: "dstate d = tstate_of (ConfirmCount (detector_defaults cfg)) (int (trailing (\<lambda>b. b) v))"
    using ok n dc by (simp add: detector_ok_def)
  have lv: "length v = length xs" by (simp add: v_def)
  have "dstate d = StateThrottled \<longleftrightarrow> c \<le> trailing (\<lambda>b. b) v"
    using c0 unfolding st tstate_of_def c_def by auto
  moreover have "dstate d = StateNormal \<longleftrightarrow> xs = [] \<or> \<not> last v"
    using c0 last_trailing [of v] lv unfolding st tstate_of_def by auto
  ultimately show ?thesis
    using ok dc trailing_ge [of c "\<lambda>b. b" v] lv by (simp add: detector_ok_def)
qed

definition real_ops :: "real float_ops" where
  "real_ops = \<lparr>fzero = 0, fone = 1, fadd = (+), fsub = (-), fmul = (*), fdiv = (/),
     fge = (\<ge>), fgt = (>), fof = of_int\<rparr>"

definition sample_run :: "real sample list" where
  "sample_run = [RTT 40, RTT 40, RTT 40, RTT 900000000, RTT 900000000, RTT 900000000]"

theorem detector_confirms_witness:
  "dstate (snd (record_all real_ops sample_run
     (NewDetector real_ops \<lparr>RTTSpikeMs = 0, ThroughputDropPct = 0, WindowSize = 0, ConfirmCount = 0\<rparr>)))
     = StateThrottled"
proof -
  have l: "length sample_run < 2 ^ 63" by (simp add: sample_run_def)
  have "\<forall>b \<in> set (drop (length sample_run - nat (ConfirmCount (detector_defaults
        \<lparr>RTTSpikeMs = 0, ThroughputDropPct = 0, WindowSize = 0, ConfirmCount = 0\<rparr>)))
      (verdicts real_ops sample_run (NewDetector real_ops
        \<lparr>RTTSpikeMs = 0, ThroughputDropPct = 0, WindowSize = 0, ConfirmCount = 0\<rparr>))). b"
    by (simp add: sample_run_def suspicion_def rtt_spike_def NewDetector_def detector_defaults_def
        push_window_def medianRTT_def RecordRTT_def evaluate_def tput_drop_def real_ops_def)
  with detector_confirms [OF l, of real_ops
      "\<lparr>RTTSpikeMs = 0, ThroughputDropPct = 0, WindowSize = 0, ConfirmCount = 0\<rparr>"]
  show ?thesis by (simp add: detector_defaults_def sample_run_def)
qed

text \<open>
  One bad throughput sample is judged again at every later RTT sample, good or bad, as long
  as no new throughput sample comes: \<open>ConfirmCount - 1\<close> RTT samples after it the detector
  reports throttling, although a single sample was suspected.
\<close>

theorem single_drop_confirms:
  assumes "tput_drop F d" and "detector_ok d" and "suspectedCount d + int (length ts) < 2 ^ 63"
    and "ts \<noteq> []" and "ConfirmCount (dconfig d) \<le> suspectedCount d + int (length ts)"
  shows "dstate (snd (record_all F (map RTT ts) d)) = StateThrottled"
proof -
  have "tput_drop F (snd (record_all F (map RTT us) d)) \<and> detector_ok (snd (record_all F (map RTT us) d)) \<and>
      suspectedCount (snd (record_all F (map RTT us) d)) = suspectedCount d + int (length us)"
    if "length us \<le> length ts" for us
    using that
  proof (induction us rule: rev_induct)
    case Nil
    then show ?case using assms by simp
  next
    case (snoc t us)
    let ?d = "snd (record_all F (map RTT us) d)"
    from snoc have ih: "tput_drop F ?d" "detector_ok ?d" "suspectedCount ?d = suspectedCount d + int (length us)" by auto
    have drop: "tput_drop F (noted F (RTT t) ?d)" using ih(1) by (simp add: tput_drop_def Let_def)
    then have "tput_drop F (snd (record_sample F (RTT t) ?d))"
      by (simp only: record_sample_evaluate evaluate_state) (simp add: tput_drop_def Let_def)
    moreover have "suspectedCount ?d < 2 ^ 63 - 1" using ih(3) assms(3) snoc.prems by simp
    ultimately show ?case
      using record_sample_ok [OF ih(2), of F "RTT t"] ih(3) drop
      by (simp only: list.map map_append record_all_snoc snd_conv) (simp add: suspicion_def)
  qed
  from this [of ts] assms(2,4,5) have "detector_ok (snd (record_all F (map RTT ts) d))"
    and "suspectedCount (snd (record_all F (map RTT ts) d)) = suspectedCount d + int (length ts)" by auto
  with assms(2,4,5) show ?thesis by (auto simp: detector_ok_def tstate_of_def)
qed

theorem single_drop_confirms_witness:
  "dstate (snd (record_all real_ops (map RTT [20, 20])
     (snd (record_all real_ops [Tput 100, Tput 100, Tput 1]
       (NewDetector real_ops \<lparr>RTTSpikeMs = 0, ThroughputDropPct = 0, WindowSize = 0, ConfirmCount = 0\<rparr>)))))
     = StateThrottled"
proof -
  let ?n = "NewDetector real_ops \<lparr>RTTSpikeMs = 0, ThroughputDropPct = 0, WindowSize = 0, ConfirmCount = 0\<rparr>"
  let ?d = "snd (record_all real_ops [Tput 100, Tput 100, Tput 1] ?n)"
  have d: "?d = \<lparr>dconfig = \<lparr>RTTSpikeMs = 500, ThroughputDropPct = 70, WindowSize = 20, ConfirmCount = 3\<rparr>,
      rttSamples = [], tputSamples = [100, 100, 1], baselineRTT = 0, baselineTput = 67,
      suspectedCount = 1, dstate = StateSuspected, dlisteners = []\<rparr>"
    by (simp add: RecordThroughput_def NewDetector_def detector_defaults_def push_window_def
        avgThroughput_def evaluate_def tput_drop_def rtt_spike_def real_ops_def)
  have "tput_drop real_ops ?d" unfolding d by (simp add: tput_drop_def real_ops_def)
  moreover have "detector_ok ?d" unfolding d by (simp add: detector_ok_def tstate_of_def)
  moreover have "suspectedCount ?d = 1" "ConfirmCount (dconfig ?d) = 3" unfolding d by simp_all
  ultimately show ?thesis using single_drop_confirms [where F = real_ops and d = ?d and ts = "[20, 20]"] by simp
qed


section \<open>The adaptive controller on its detector\<close>

text \<open>The calls of the detector to listener \<open>l\<close>, in the order they were started.\<close>

definition deliver :: "nat \<Rightarrow> (nat \<times> tstate) list \<Rightarrow> adaptive \<Rightarrow> adaptive" where
  "deliver l cs a = fold (\<lambda>(l', s) a. if l' = l then onStateChange s a else a) cs a"

lemma deliver_append [simp]: "deliver l (cs @ cs') a = deliver l cs' (deliver l cs a)"
  and deliver_Nil [simp]: "deliver l [] a = a"
  and deliver_one [simp]: "deliver l [(l, s)] a = onStateChange s a"
  by (simp_all add: deliver_def)

lemma onStateChange_config [simp]: "aconfig (onStateChange s a) = aconfig a"
  by (simp add: onStateChange_def Let_def split: tstate.split)

lemma onStateChange_conns:
  assumes "0 < BaseParallelConns (aconfig a)" "MaxParallelConns (aconfig a) < 2 ^ 31"
    and "BaseParallelConns (aconfig a) < 2 ^ 31"
  shows "ParallelConns (onStateChange s a) =
    (case s of StateThrottled \<Rightarrow> max (ParallelConns a) (min (2 * ParallelConns a) (MaxParallelConns (aconfig a)))
     | StateSuspected \<Rightarrow> ParallelConns a
     | StateNormal \<Rightarrow> if BaseParallelConns (aconfig a) < ParallelConns a
         then max (ParallelConns a div 2) (BaseParallelConns (aconfig a)) else ParallelConns a)"
proof -
  have r: "- (2 ^ 31) \<le> ParallelConns a" "ParallelConns a < 2 ^ 31"
    using sint_range_size [of "parallelConns a"] by (simp_all add: ParallelConns_def word_size)
  have dbl: "sint (parallelConns a * 2) = 2 * sint (parallelConns a)"
    if "2 * sint (parallelConns a) < 2 ^ 31" "0 < sint (parallelConns a)"
    using sint_i32 [of "sint (parallelConns a) * 2"] that by simp
  show ?thesis
    using assms r by (cases s) (auto simp: onStateChange_def Let_def ParallelConns_def sint_i32 dbl max_def min_def)
qed

text \<open>
  What the controller and its detector keep: outside the throttled state the number of
  connections is the base, in it the base is doubled once, up to the maximum.
\<close>

definition throttle_inv :: "'f detector \<Rightarrow> adaptive \<Rightarrow> bool" where
  "throttle_inv d a \<longleftrightarrow>
     (let b = BaseParallelConns (aconfig a) in
      ParallelConns a = (if dstate d = StateThrottled then max b (min (2 * b) (MaxParallelConns (aconfig a))) else b))"

lemma throttle_inv_step:
  assumes inv: "throttle_inv d a" and ok: "detector_ok d" and "suspectedCount d < 2 ^ 63 - 1"
    and l: "dlisteners d = [l]"
    and cfg: "0 < BaseParallelConns (aconfig a)" "MaxParallelConns (aconfig a) < 2 ^ 31"
      "BaseParallelConns (aconfig a) < 2 ^ 31"
  shows "throttle_inv (snd (record_sample F x d)) (deliver l (fst (record_sample F x d)) a)"
proof -
  let ?d = "snd (record_sample F x d)"
  have ok': "detector_ok ?d" and n: "suspectedCount ?d = (if suspicion F (noted F x d) then suspectedCount d + 1 else 0)"
    using record_sample_ok [OF ok assms(3)] by auto
  have calls: "fst (record_sample F x d) = (if dstate d \<noteq> dstate ?d then [(l, dstate ?d)] else [])"
    using l by (simp add: record_sample_evaluate evaluate_calls)
  let ?c = "ConfirmCount (dconfig d)"
  have st: "dstate d = tstate_of ?c (suspectedCount d)" "dstate ?d = tstate_of ?c (suspectedCount ?d)"
    using ok ok' by (simp_all add: detector_ok_def)
  have pos: "0 < ?c" "0 \<le> suspectedCount d" using ok by (simp_all add: detector_ok_def)
  have move: "\<not> (dstate d = StateThrottled \<and> dstate ?d = StateSuspected)"
    using pos unfolding st n by (auto simp: tstate_of_def)
  have conns: "ParallelConns (onStateChange s a) = (case s of
       StateThrottled \<Rightarrow> max (ParallelConns a) (min (2 * ParallelConns a) (MaxParallelConns (aconfig a)))
     | StateSuspected \<Rightarrow> ParallelConns a
     | StateNormal \<Rightarrow> if BaseParallelConns (aconfig a) < ParallelConns a
         then max (ParallelConns a div 2) (BaseParallelConns (aconfig a)) else ParallelConns a)" for s
    by (rule onStateChange_conns [OF cfg])
  show ?thesis
    using inv move cfg(1)
    by (cases "dstate d"; cases "dstate ?d") (auto simp: throttle_inv_def Let_def calls conns max_def min_def)
qed

lemma throttle_inv_run:
  assumes "throttle_inv d a" and "detector_ok d" and "suspectedCount d = 0" and "length xs < 2 ^ 63 - 1"
    and "dlisteners d = [l]" and "0 < BaseParallelConns (aconfig a)" "MaxParallelConns (aconfig a) < 2 ^ 31"
      "BaseParallelConns (aconfig a) < 2 ^ 31"
  shows "throttle_inv (snd (record_all F xs d)) (deliver l (fst (record_all F xs d)) a) \<and>
    aconfig (deliver l (fst (record_all F xs d)) a) = aconfig a"
  using assms(4)
proof (induction xs rule: rev_induct)
  case Nil
  then show ?case using assms by simp
next
  case (snoc x xs)
  have cfg: "aconfig (deliver l cs b) = aconfig b" for cs b
    by (induction cs arbitrary: b) (auto simp: deliver_def)
  have len: "length xs < 2 ^ 63" using snoc.prems by simp
  have r: "detector_ok (snd (record_all F xs d))"
    "suspectedCount (snd (record_all F xs d)) = int (trailing (\<lambda>b. b) (verdicts F xs d))"
    using record_all_ok [OF assms(2), of xs F] assms(3) len by auto
  have "trailing (\<lambda>b. b) (verdicts F xs d) \<le> length xs"
    using trailing_le [of "\<lambda>b. b" "verdicts F xs d"] by simp
  then have "suspectedCount (snd (record_all F xs d)) < 2 ^ 63 - 1" using r(2) snoc.prems by simp
  then show ?case
    using throttle_inv_step [where d = "snd (record_all F xs d)" and x = x and F = F
        and a = "deliver l (fst (record_all F xs d)) a" and l = l] snoc r(1) assms(5-) cfg
    by (simp add: record_all_snoc)
qed

text \<open>
  However the samples go, the controller recommends between the base and twice the base (at
  most the maximum) connections, and exactly the base whenever the detector is not
  throttled: in particular with a base of 1 it never recommends more than 2.
\<close>

theorem parallel_at_most_doubles:
  fixes F :: "'f float_ops"
  assumes "length xs < 2 ^ 63 - 1"
    and base: "0 < BaseParallelConns cfg" "BaseParallelConns cfg < 2 ^ 31" "MaxParallelConns cfg < 2 ^ 31"
    and new: "NewAdaptive cfg l (NewDetector F dc) = (a0, d0)"
    and run: "record_all F xs d0 = (calls, d)"
  shows "BaseParallelConns cfg \<le> ParallelConns (deliver l calls a0) \<and>
    ParallelConns (deliver l calls a0) \<le> 2 * BaseParallelConns cfg \<and>
    ParallelConns (deliver l calls a0) \<le> max (BaseParallelConns cfg) (if MaxParallelConns cfg \<le> 0 then 8 else MaxParallelConns cfg) \<and>
    (dstate d \<noteq> StateThrottled \<longrightarrow> ParallelConns (deliver l calls a0) = BaseParallelConns cfg)"
proof -
  from new have a0: "aconfig a0 = adaptive_defaults cfg" "dlisteners d0 = [l]" "suspectedCount d0 = 0"
    and pc: "parallelConns a0 = word_of_int (BaseParallelConns (adaptive_defaults cfg))"
    and ds: "dstate d0 = StateNormal" and d0: "d0 = detector_OnStateChange l (NewDetector F dc)"
    by (auto simp: NewAdaptive_def Let_def detector_OnStateChange_def NewDetector_def)
  have ok: "detector_ok d0"
    using detector_ok_new [of F dc] by (simp add: d0 detector_OnStateChange_def detector_ok_def)
  have b: "BaseParallelConns (adaptive_defaults cfg) = BaseParallelConns cfg"
    and m: "MaxParallelConns (adaptive_defaults cfg) = (if MaxParallelConns cfg \<le> 0 then 8 else MaxParallelConns cfg)"
    using base by (simp_all add: adaptive_defaults_def)
  have "ParallelConns a0 = BaseParallelConns cfg"
    using base by (simp add: ParallelConns_def pc b sint_i32)
  then have "throttle_inv d0 a0" by (simp add: throttle_inv_def Let_def ds a0 b)
  from throttle_inv_run [OF this ok a0(3) assms(1) a0(2), of F] base run
  have "throttle_inv d (deliver l calls a0)" "aconfig (deliver l calls a0) = adaptive_defaults cfg"
    by (simp_all add: a0 b m)
  then have "ParallelConns (deliver l calls a0) = (if dstate d = StateThrottled
      then max (BaseParallelConns cfg) (min (2 * BaseParallelConns cfg)
        (if MaxParallelConns cfg \<le> 0 then 8 else MaxParallelConns cfg)) else BaseParallelConns cfg)"
    by (simp add: throttle_inv_def Let_def b m)
  then show ?thesis using base(1) by (simp add: max_def min_def)
qed


theorem parallel_at_most_doubles_witness:
  "\<exists>a0 d0 calls d. NewAdaptive \<lparr>Strategy = StrategyUnset, BaseParallelConns = 2, MaxParallelConns = 0, RotateIntervalSec = 0\<rparr> 7
       (NewDetector real_ops \<lparr>RTTSpikeMs = 0, ThroughputDropPct = 0, WindowSize = 0, ConfirmCount = 0\<rparr>) = (a0, d0) \<and>
     record_all real_ops sample_run d0 = (calls, d) \<and> ParallelConns (deliver 7 calls a0) \<le> 4"
proof -
  let ?c = "\<lparr>Strategy = StrategyUnset, BaseParallelConns = 2, MaxParallelConns = 0, RotateIntervalSec = 0\<rparr>"
  let ?n = "NewDetector real_ops \<lparr>RTTSpikeMs = 0, ThroughputDropPct = 0, WindowSize = 0, ConfirmCount = 0\<rparr>"
  obtain a0 d0 where new: "NewAdaptive ?c 7 ?n = (a0, d0)" by (cases "NewAdaptive ?c 7 ?n")
  obtain calls d where run: "record_all real_ops sample_run d0 = (calls, d)" by (cases "record_all real_ops sample_run d0")
  from parallel_at_most_doubles [OF _ _ _ _ new run] have "ParallelConns (deliver 7 calls a0) \<le> 4"
    by (simp add: sample_run_def)
  with new run show ?thesis by blast
qed

section \<open>The canary\<close>


definition answered :: "(nat option \<times> int) list \<Rightarrow> nat" where
  "answered as = length (filter (probeEndpoint \<circ> fst) as)"

definition unanswered :: "(nat option \<times> int) list \<Rightarrow> nat" where
  "unanswered as = length (filter (Not \<circ> probeEndpoint \<circ> fst) as)"

text \<open>A round counts every endpoint once and feeds the times of the answers to the detector.\<close>

lemma probe_round_counts:
  "probe_round F as d =
     (answered as, unanswered as,
      (case d of None \<Rightarrow> [] | Some det \<Rightarrow> fst (record_all F (map (RTT \<circ> snd) (filter (probeEndpoint \<circ> fst) as)) det)),
      map_option (\<lambda>det. snd (record_all F (map (RTT \<circ> snd) (filter (probeEndpoint \<circ> fst) as)) det)) d)"
proof (induction as arbitrary: d)
  case Nil
  then show ?case by (cases d) (simp_all add: answered_def unanswered_def)
next
  case (Cons a as)
  obtain r t where a: "a = (r, t)" by (cases a)
  show ?case
    by (cases d) (simp_all add: a Cons answered_def unanswered_def split: prod.splits)
qed

fun canary_rounds :: "'f float_ops \<Rightarrow> (nat option \<times> int) list list \<Rightarrow> 'f detector option \<times> canary
    \<Rightarrow> 'f detector option \<times> canary" where
  "canary_rounds F [] s = s"
| "canary_rounds F (as # rs) (d, c) =
     (case canary_probe F as d c of (_, _, d', c') \<Rightarrow> canary_rounds F rs (d', c'))"

lemma canary_rounds_snoc:
  "snd (canary_rounds F (rs @ [as]) s) =
     snd (canary_verdict (answered as) (unanswered as) (snd (canary_rounds F rs s)))"
  by (induction rs arbitrary: s) (case_tac [!] s, auto simp: canary_probe_def probe_round_counts split: prod.splits)

lemma canary_rounds_config: "ccfg (snd (canary_rounds F rs s)) = ccfg (snd s)"
  by (induction rs rule: rev_induct) (simp_all add: canary_rounds_snoc canary_verdict_def Let_def)

lemma canary_count:
  "consecutiveFails (snd s) = 0 \<Longrightarrow> length rs < 2 ^ 63 \<Longrightarrow>
   consecutiveFails (snd (canary_rounds F rs s)) = int (trailing (\<lambda>as. 0 < unanswered as) rs)"
proof (induction rs rule: rev_induct)
  case Nil
  then show ?case by simp
next
  case (snoc as rs)
  have "trailing (\<lambda>as. 0 < unanswered as) rs \<le> length rs" by (rule trailing_le)
  then have "wrap64 (int (trailing (\<lambda>as. 0 < unanswered as) rs) + 1) = int (trailing (\<lambda>as. 0 < unanswered as) rs) + 1"
    using snoc.prems by (intro wrap64_id) simp_all
  with snoc show ?case by (auto simp: canary_rounds_snoc canary_verdict_def Let_def)
qed

text \<open>
  The state of the canary after the rounds \<open>rs\<close> and a last one: blocked exactly when no
  endpoint answered in the last round and at least \<open>FailThreshold\<close> rounds in a row up to it
  had a failure, fine exactly when the last round had no failure, degraded otherwise.
\<close>

theorem canary_state_exact:
  assumes "length rs < 2 ^ 62"
  shows "let c = snd (canary_rounds F (rs @ [as]) (d, NewCanary cfg));
             k = nat (FailThreshold (canary_defaults cfg));
             rounds = rs @ [as] in
    (cstate c = CanaryOK \<longleftrightarrow> unanswered as = 0) \<and>
    (cstate c = CanaryBlocked \<longleftrightarrow> unanswered as \<noteq> 0 \<and> answered as = 0 \<and> k \<le> length rounds \<and>
       (\<forall>r \<in> set (drop (length rounds - k) rounds). 0 < unanswered r)) \<and>
    (cstate c = CanaryDegraded \<longleftrightarrow> cstate c \<noteq> CanaryOK \<and> cstate c \<noteq> CanaryBlocked)"
proof -
  let ?s = "canary_rounds F rs (d, NewCanary cfg)" and ?P = "\<lambda>as. 0 < unanswered as"
  let ?k = "nat (FailThreshold (canary_defaults cfg))" and ?r = "rs @ [as]"
  have n: "consecutiveFails (snd ?s) = int (trailing ?P rs)"
    using assms by (intro canary_count) (simp_all add: NewCanary_def)
  have k: "0 < FailThreshold (canary_defaults cfg)" by (simp add: canary_defaults_def)
  have le: "trailing ?P rs \<le> length rs" by (rule trailing_le)
  then have w: "wrap64 (int (trailing ?P rs) + 1) = int (trailing ?P rs) + 1"
    using assms by (intro wrap64_id) simp_all
  have cf: "ccfg (snd ?s) = canary_defaults cfg" by (simp add: canary_rounds_config NewCanary_def)
  have st: "cstate (snd (canary_rounds F ?r (d, NewCanary cfg))) =
      (if unanswered as = 0 then CanaryOK else if 0 < answered as then CanaryDegraded
       else if FailThreshold (canary_defaults cfg) \<le> int (trailing ?P rs) + 1 then CanaryBlocked else CanaryDegraded)"
    by (simp add: canary_rounds_snoc canary_verdict_def Let_def n w cf)
  have "(FailThreshold (canary_defaults cfg) \<le> int (trailing ?P rs) + 1) = (?k \<le> trailing ?P ?r)"
    if "unanswered as \<noteq> 0"
    using that k by simp linarith
  then show ?thesis using trailing_ge [of ?k ?P ?r]
    unfolding Let_def st by (cases "unanswered as = 0") (auto simp del: drop_append set_append length_append trailing_snoc)
qed

theorem canary_state_exact_witness:
  "cstate (snd (canary_rounds real_ops
     [[(None, 1), (Some 204, 5)], [(Some 503, 2), (None, 3)], [(None, 4), (None, 4)]]
     (None, NewCanary \<lparr>CEndpoints = [], Interval = 0, Timeout = 0, FailThreshold = 0\<rparr>))) = CanaryBlocked"
  using canary_state_exact [of "[[(None, 1), (Some 204, 5)], [(Some 503, 2), (None, 3)]]" real_ops
      "[(None, 4), (None, 4)]" None "\<lparr>CEndpoints = [], Interval = 0, Timeout = 0, FailThreshold = 0\<rparr>"]
  by (simp add: Let_def canary_defaults_def answered_def unanswered_def probeEndpoint_def)

end
