(* ===== verification/Transport.thy ===== *)
theory Transport
  imports Prelude "HOL-Library.Multiset"
begin

text \<open>
  Model of \<open>internal/transport\<close>: the manager that fails over between transports
  (\<open>manager.go\<close>), the pool of connections dialled ahead (\<open>pool.go\<close>) and the reconnecting
  transport (\<open>reconnect.go\<close>). The transports they drive are the interface
  \<open>ClientTransport\<close>: a state of any type, and a dial operation that gives an error or a
  connection and the new state of the transport.
\<close>

type_synonym ('id, 't, 'e, 'c) dialer = "'id \<Rightarrow> 't \<Rightarrow> ('e + 'c) \<times> 't"

section \<open>manager.go\<close>

record 't tmanager =
  transports :: "(string \<times> 't) list"
  activeIdx :: nat

definition tmanager_New :: "(string \<times> 't) list \<Rightarrow> 't tmanager" where
  "tmanager_New ts = \<lparr>transports = ts, activeIdx = 0\<rparr>"

text \<open>Dialling transport \<open>i\<close>, which keeps its name and its place.\<close>

definition dial_at :: "('id, 't, 'e, 'c) dialer \<Rightarrow> 'id \<Rightarrow> nat \<Rightarrow> 't tmanager \<Rightarrow> ('e + 'c) \<times> 't tmanager" where
  "dial_at dial sid i m =
     (case dial sid (snd (transports m ! i)) of (r, t) \<Rightarrow>
        (r, m\<lparr>transports := (transports m)[i := (fst (transports m ! i), t)]\<rparr>))"

text \<open>The loop over the fallbacks: \<open>err\<close> is the last error.\<close>

fun try_fallbacks :: "('id, 't, 'e, 'c) dialer \<Rightarrow> 'id \<Rightarrow> nat \<Rightarrow> nat list \<Rightarrow> 'e \<Rightarrow> 't tmanager
    \<Rightarrow> ('e + 'c) \<times> 't tmanager" where
  "try_fallbacks dial sid start [] err m = (Inl err, m)"
| "try_fallbacks dial sid start (i # is) err m =
     (if i = start then try_fallbacks dial sid start is err m
      else case dial_at dial sid i m of
          (Inr c, m1) \<Rightarrow> (Inr c, m1\<lparr>activeIdx := i\<rparr>)
        | (Inl e, m1) \<Rightarrow> try_fallbacks dial sid start is e m1)"

text \<open>\<open>None\<close>: the index of the active transport is out of range, and \<open>Dial\<close> panics.\<close>

definition manager_Dial :: "('id, 't, 'e, 'c) dialer \<Rightarrow> 'id \<Rightarrow> 't tmanager \<Rightarrow> (('e + 'c) \<times> 't tmanager) option" where
  "manager_Dial dial sid m =
     (if length (transports m) \<le> activeIdx m then None
      else Some (case dial_at dial sid (activeIdx m) m of
          (Inr c, m1) \<Rightarrow> (Inr c, m1)
        | (Inl e, m1) \<Rightarrow> try_fallbacks dial sid (activeIdx m) [0..<length (transports m)] e m1))"

definition manager_Close :: "('t \<Rightarrow> 't) \<Rightarrow> 't tmanager \<Rightarrow> 't tmanager" where
  "manager_Close close m = m\<lparr>transports := map (\<lambda>(n, t). (n, close t)) (transports m)\<rparr>"

text \<open>\<open>Replace\<close> also gives the transport that it closes in the background.\<close>

definition manager_Replace :: "int \<Rightarrow> string \<times> 't \<Rightarrow> 't tmanager \<Rightarrow> (string \<times> 't) option \<times> 't tmanager" where
  "manager_Replace idx nt m =
     (if 0 \<le> idx \<and> idx < int (length (transports m))
      then (Some (transports m ! nat idx), m\<lparr>transports := (transports m)[nat idx := nt]\<rparr>)
      else (None, m))"

definition ActiveTransport :: "'t tmanager \<Rightarrow> string" where
  "ActiveTransport m =
     (if activeIdx m < length (transports m) then fst (transports m ! activeIdx m) else ''none'')"

text \<open>\<open>tryPromote\<close>, with the connection that it opens as a test and closes at once.\<close>

fun try_promote :: "('id, 't, 'e, 'c) dialer \<Rightarrow> 'id \<Rightarrow> nat list \<Rightarrow> 't tmanager \<Rightarrow> 'c option \<times> 't tmanager" where
  "try_promote dial sid [] m = (None, m)"
| "try_promote dial sid (i # is) m =
     (case dial_at dial sid i m of
        (Inr c, m1) \<Rightarrow> (Some c, m1\<lparr>activeIdx := i\<rparr>)
      | (Inl e, m1) \<Rightarrow> try_promote dial sid is m1)"

definition tryPromote :: "('id, 't, 'e, 'c) dialer \<Rightarrow> 'id \<Rightarrow> 't tmanager \<Rightarrow> 'c option \<times> 't tmanager" where
  "tryPromote dial zero m =
     (if activeIdx m = 0 then (None, m) else try_promote dial zero [0..<activeIdx m] m)"

section \<open>pool.go\<close>

record pool_config =
  Size :: int
  RefillDelay :: int

definition pool_defaults :: "pool_config \<Rightarrow> pool_config" where
  "pool_defaults c = \<lparr>Size = (if Size c \<le> 0 then 2 else Size c),
     RefillDelay = (if RefillDelay c \<le> 0 then 5 * 1000000000 else RefillDelay c)\<rparr>"

text \<open>
  Where \<open>refillLoop\<close> is: before the test of the pool's length, holding a connection it has
  dialled, waiting for the delay, or returned.
\<close>

datatype 'c refill = Checking | Holding 'c | Waiting | Returned

text \<open>\<open>made\<close>, \<open>given\<close> and \<open>shut\<close> record the connections dialled, handed out and closed.\<close>

record ('t, 'c) pooled =
  inner :: 't
  pconfig :: pool_config
  pool :: "'c list"
  pool_closed :: bool
  cancelled :: bool
  refill :: "'c refill"
  made :: "'c list"
  given :: "'c list"
  shut :: "'c list"

definition NewPooledTransport :: "'t \<Rightarrow> pool_config \<Rightarrow> ('t, 'c) pooled" where
  "NewPooledTransport t cfg = \<lparr>inner = t, pconfig = pool_defaults cfg, pool = [], pool_closed = False,
     cancelled = False, refill = Checking, made = [], given = [], shut = []\<rparr>"

text \<open>
  \<open>Dial\<close>: a receive from the closed and drained channel gives the nil connection, with no
  error; that is \<open>Inr None\<close>.
\<close>

definition pool_Dial :: "('id, 't, 'e, 'c) dialer \<Rightarrow> 'id \<Rightarrow> ('t, 'c) pooled \<Rightarrow> ('e + 'c option) \<times> ('t, 'c) pooled" where
  "pool_Dial dial sid p =
     (case pool p of
        c # cs \<Rightarrow> (Inr (Some c), p\<lparr>pool := cs, given := given p @ [c]\<rparr>)
      | [] \<Rightarrow> if pool_closed p then (Inr None, p)
          else case dial sid (inner p) of
              (Inl e, t) \<Rightarrow> (Inl e, p\<lparr>inner := t\<rparr>)
            | (Inr c, t) \<Rightarrow> (Inr (Some c), p\<lparr>inner := t, made := made p @ [c], given := given p @ [c]\<rparr>))"

text \<open>One pass of the inner loop of \<open>refillLoop\<close> up to its dial, and the send after it.\<close>

definition refill_check :: "('id, 't, 'e, 'c) dialer \<Rightarrow> 'id \<Rightarrow> ('t, 'c) pooled \<Rightarrow> ('t, 'c) pooled" where
  "refill_check dial sid p =
     (if int (length (pool p)) < Size (pconfig p) then
        (case dial sid (inner p) of
           (Inr c, t) \<Rightarrow> p\<lparr>inner := t, made := made p @ [c], refill := Holding c\<rparr>
         | (Inl e, t) \<Rightarrow> p\<lparr>inner := t, refill := (if cancelled p then Returned else Waiting)\<rparr>)
      else p\<lparr>refill := Waiting\<rparr>)"

definition refill_send :: "'c \<Rightarrow> ('t, 'c) pooled \<Rightarrow> ('t, 'c) pooled" where
  "refill_send c p =
     (if int (length (pool p)) < Size (pconfig p)
      then p\<lparr>pool := pool p @ [c], refill := Checking\<rparr>
      else p\<lparr>shut := shut p @ [c], refill := Checking\<rparr>)"

text \<open>The last part of \<open>Close\<close>, after it has waited for \<open>refillLoop\<close>.\<close>

definition pool_drain :: "('t \<Rightarrow> 't) \<Rightarrow> ('t, 'c) pooled \<Rightarrow> ('t, 'c) pooled" where
  "pool_drain close p = p\<lparr>pool_closed := True, shut := shut p @ pool p, pool := [], inner := close (inner p)\<rparr>"

inductive pool_step :: "('id, 't, 'e, 'c) dialer \<Rightarrow> ('t \<Rightarrow> 't) \<Rightarrow> ('t, 'c) pooled \<Rightarrow> ('t, 'c) pooled \<Rightarrow> bool"
  for dial close where
  dial: "pool_Dial dial sid p = (r, p') \<Longrightarrow> pool_step dial close p p'"
| check: "refill p = Checking \<Longrightarrow> pool_step dial close p (refill_check dial sid p)"
| send: "refill p = Holding c \<Longrightarrow> pool_step dial close p (refill_send c p)"
| wake: "refill p = Waiting \<Longrightarrow> pool_step dial close p (p\<lparr>refill := Checking\<rparr>)"
| quit: "refill p = Waiting \<Longrightarrow> cancelled p \<Longrightarrow> pool_step dial close p (p\<lparr>refill := Returned\<rparr>)"
| cancel: "pool_step dial close p (p\<lparr>cancelled := True\<rparr>)"
| drain: "cancelled p \<Longrightarrow> refill p = Returned \<Longrightarrow> \<not> pool_closed p \<Longrightarrow> pool_step dial close p (pool_drain close p)"

section \<open>reconnect.go\<close>

record 'f reconnect_config =
  MaxRetries :: int
  InitialDelay :: int
  MaxDelay :: int
  BackoffFactor :: 'f

text \<open>
  The back-off factor is a float: \<open>le0\<close> and \<open>two\<close> are the test and the constant of the
  defaults, and \<open>scale f d\<close> is the delay \<open>d\<close> times \<open>f\<close>.
\<close>

definition reconnect_defaults :: "('f \<Rightarrow> bool) \<Rightarrow> 'f \<Rightarrow> 'f reconnect_config \<Rightarrow> 'f reconnect_config" where
  "reconnect_defaults le0 two c = \<lparr>MaxRetries = MaxRetries c,
     InitialDelay = (if InitialDelay c \<le> 0 then 1000000000 else InitialDelay c),
     MaxDelay = (if MaxDelay c \<le> 0 then 30 * 1000000000 else MaxDelay c),
     BackoffFactor = (if le0 (BackoffFactor c) then two else BackoffFactor c)\<rparr>"

text \<open>
  What happens around attempt \<open>n\<close>: whether the transport is closed when it starts, the
  answer of the inner transport, and whether the context ends the wait after it.
\<close>

record ('e, 'c) attempt =
  at_closed :: bool
  at_dial :: "'e + 'c"
  at_done :: bool

datatype ('e, 'c) dial_end = Connected 'c | Gave_up 'e | Was_closed | Context_done

text \<open>The loop of \<open>Dial\<close>: how it ends, and the delays it has waited for.\<close>

partial_function (option) reconnect_loop ::
  "('f \<Rightarrow> int \<Rightarrow> int) \<Rightarrow> 'f reconnect_config \<Rightarrow> (nat \<Rightarrow> ('e, 'c) attempt) \<Rightarrow> int \<Rightarrow> nat
    \<Rightarrow> (('e, 'c) dial_end \<times> int list) option" where
  "reconnect_loop scale cfg env delay n =
     (if at_closed (env n) then Some (Was_closed, [])
      else case at_dial (env n) of
          Inr c \<Rightarrow> Some (Connected c, [])
        | Inl e \<Rightarrow>
            if 0 < MaxRetries cfg \<and> MaxRetries cfg \<le> int (Suc n) then Some (Gave_up e, [])
            else if at_done (env n) then Some (Context_done, [])
            else let d = scale (BackoffFactor cfg) delay; d = (if MaxDelay cfg < d then MaxDelay cfg else d) in
              Option.bind (reconnect_loop scale cfg env d (Suc n)) (\<lambda>(r, ds). Some (r, delay # ds)))"

definition reconnect_Dial :: "('f \<Rightarrow> int \<Rightarrow> int) \<Rightarrow> 'f reconnect_config \<Rightarrow> (nat \<Rightarrow> ('e, 'c) attempt)
    \<Rightarrow> (('e, 'c) dial_end \<times> int list) option" where
  "reconnect_Dial scale cfg env = reconnect_loop scale cfg env (InitialDelay cfg) 0"

section \<open>Failing over\<close>

definition tmanager_ok :: "'t tmanager \<Rightarrow> bool" where
  "tmanager_ok m \<longleftrightarrow> activeIdx m < length (transports m)"

lemma dial_at_shape:
  assumes "dial_at dial sid i m = (r, m1)"
  shows "r = fst (dial sid (snd (transports m ! i)))" and "activeIdx m1 = activeIdx m"
    and "length (transports m1) = length (transports m)"
    and "i < length (transports m) \<Longrightarrow> map fst (transports m1) = map fst (transports m)"
    and "j \<noteq> i \<Longrightarrow> transports m1 ! j = transports m ! j"
  using assms by (auto simp: dial_at_def map_update list_update_same_conv split: prod.splits)

text \<open>The answer each transport would give, in the state it is in.\<close>

definition answer :: "('id, 't, 'e, 'c) dialer \<Rightarrow> 'id \<Rightarrow> 't tmanager \<Rightarrow> nat \<Rightarrow> 'e + 'c" where
  "answer dial sid m i = fst (dial sid (snd (transports m ! i)))"

text \<open>Of the indices \<open>is\<close>, each dialled at most once in this order, the first that answers.\<close>

definition first_up :: "('id, 't, 'e, 'c) dialer \<Rightarrow> 'id \<Rightarrow> 't tmanager \<Rightarrow> nat list \<Rightarrow> nat option" where
  "first_up dial sid m is = find (\<lambda>i. \<not> isl (answer dial sid m i)) is"

lemma first_up_cong:
  assumes "\<And>j. j \<in> set is \<Longrightarrow> answer dial sid m1 j = answer dial sid m j"
  shows "first_up dial sid m1 is = first_up dial sid m is"
    and "map_option (\<lambda>i. projr (answer dial sid m1 i)) (first_up dial sid m is) =
      map_option (\<lambda>i. projr (answer dial sid m i)) (first_up dial sid m is)"
proof -
  show "first_up dial sid m1 is = first_up dial sid m is"
    unfolding first_up_def using assms by (intro find_cong) simp_all
  show "map_option (\<lambda>i. projr (answer dial sid m1 i)) (first_up dial sid m is) =
      map_option (\<lambda>i. projr (answer dial sid m i)) (first_up dial sid m is)"
  proof (cases "first_up dial sid m is")
    case (Some i)
    then have "i \<in> set is" by (auto simp: first_up_def find_Some_iff)
    with assms Some show ?thesis by simp
  qed simp
qed

lemma try_promote_exact:
  assumes "distinct is" and "set is \<subseteq> {..<length (transports m)}" and "try_promote dial sid is m = (r, m')"
  shows "r = map_option (\<lambda>i. projr (answer dial sid m i)) (first_up dial sid m is) \<and>
    activeIdx m' = (case first_up dial sid m is of None \<Rightarrow> activeIdx m | Some i \<Rightarrow> i) \<and>
    map fst (transports m') = map fst (transports m) \<and>
    (\<forall>j. j \<notin> set is \<longrightarrow> transports m' ! j = transports m ! j)"
  using assms
proof (induction "is" arbitrary: m)
  case Nil
  then show ?case by (simp add: first_up_def)
next
  case (Cons i "is")
  obtain q m1 where d: "dial_at dial sid i m = (q, m1)" by (cases "dial_at dial sid i m")
  note sh = dial_at_shape [OF d]
  have "answer dial sid m1 j = answer dial sid m j" if "j \<in> set is" for j
    using sh(5) [of j] that Cons.prems(1) by (cases "j = i") (auto simp: answer_def)
  note fc = first_up_cong [OF this]
  have q: "answer dial sid m i = q" using sh(1) by (simp add: answer_def)
  show ?case
  proof (cases q)
    case (Inr c)
    then show ?thesis using Cons.prems sh q by (auto simp: d first_up_def)
  next
    case (Inl e)
    then have "try_promote dial sid is m1 = (r, m')" using Cons.prems(3) by (simp add: d)
    with Cons.IH [of m1] Cons.prems(1,2) sh have ih: "r = map_option (\<lambda>i. projr (answer dial sid m1 i)) (first_up dial sid m1 is)"
      "activeIdx m' = (case first_up dial sid m1 is of None \<Rightarrow> activeIdx m1 | Some i \<Rightarrow> i)"
      "map fst (transports m') = map fst (transports m1)" "\<forall>j. j \<notin> set is \<longrightarrow> transports m' ! j = transports m1 ! j"
      by auto
    have "first_up dial sid m (i # is) = first_up dial sid m is" by (simp add: first_up_def q Inl)
    with ih fc sh Cons.prems(2) show ?thesis by (auto split: option.splits)
  qed
qed


text \<open>The fallback loop is the promotion loop over the others, except that it keeps the last error.\<close>

lemma try_fallbacks_promote:
  assumes "distinct is"
  shows "try_fallbacks dial sid start is e m =
    (case try_promote dial sid (filter (\<lambda>i. i \<noteq> start) is) m of
       (Some c, m') \<Rightarrow> (Inr c, m')
     | (None, m') \<Rightarrow> (Inl (last (e # map (projl \<circ> answer dial sid m) (filter (\<lambda>i. i \<noteq> start) is))), m'))"
  using assms
proof (induction "is" arbitrary: m e)
  case Nil
  then show ?case by simp
next
  case (Cons i "is")
  show ?case
  proof (cases "i = start")
    case True
    then have "filter (\<lambda>i. i \<noteq> start) (i # is) = filter (\<lambda>i. i \<noteq> start) is" by simp
    with Cons True show ?thesis by (simp only:) simp
  next
    case False
    obtain q m1 where d: "dial_at dial sid i m = (q, m1)" by (cases "dial_at dial sid i m")
    note sh = dial_at_shape [OF d]
    have q: "answer dial sid m i = q" using sh(1) by (simp add: answer_def)
    have "answer dial sid m1 j = answer dial sid m j" if "j \<in> set is" for j
      using sh(5) [of j] that Cons.prems(1) by (cases "j = i") (auto simp: answer_def)
    then have mp: "map (projl \<circ> answer dial sid m1) (filter (\<lambda>i. i \<noteq> start) is) =
        map (projl \<circ> answer dial sid m) (filter (\<lambda>i. i \<noteq> start) is)" by simp
    have ih: "try_fallbacks dial sid start is e m1 =
        (case try_promote dial sid (filter (\<lambda>i. i \<noteq> start) is) m1 of (Some c, m') \<Rightarrow> (Inr c, m')
         | (None, m') \<Rightarrow> (Inl (last (e # map (projl \<circ> answer dial sid m) (filter (\<lambda>i. i \<noteq> start) is))), m'))" for e
      using Cons.IH [of e m1] Cons.prems unfolding mp by simp
    show ?thesis
      using False by (cases q) (auto simp: d ih q comp_def split: prod.split option.split)
  qed
qed

text \<open>The order in which \<open>Dial\<close> tries the transports: the active one, then the others.\<close>

definition dial_order :: "'t tmanager \<Rightarrow> nat list" where
  "dial_order m = activeIdx m # filter (\<lambda>i. i \<noteq> activeIdx m) [0..<length (transports m)]"

text \<open>
  C31. \<open>Dial\<close> gives the connection of the first transport, in that order, that answers and makes
  this transport the active one; when the active one answers no other is touched. When none
  answers it gives the error of the last one tried and leaves the choice as it was. It
  never panics while the active index is in range, which it keeps.
\<close>

theorem manager_dial_exact:
  assumes "tmanager_ok m"
  shows "\<exists>r m'. manager_Dial dial sid m = Some (r, m') \<and> tmanager_ok m' \<and>
    map fst (transports m') = map fst (transports m) \<and>
    (case first_up dial sid m (dial_order m) of
       Some i \<Rightarrow> r = answer dial sid m i \<and> activeIdx m' = i \<and>
         (i = activeIdx m \<longrightarrow> (\<forall>j. j \<noteq> i \<longrightarrow> transports m' ! j = transports m ! j))
     | None \<Rightarrow> (\<forall>i < length (transports m). isl (answer dial sid m i)) \<and>
         r = answer dial sid m (last (dial_order m)) \<and> activeIdx m' = activeIdx m)"
proof -
  let ?n = "length (transports m)" and ?a = "activeIdx m"
  let ?o = "filter (\<lambda>i. i \<noteq> ?a) [0..<?n]"
  have a: "?a < ?n" using assms by (simp add: tmanager_ok_def)
  obtain q m1 where d: "dial_at dial sid ?a m = (q, m1)" by (cases "dial_at dial sid ?a m")
  note sh = dial_at_shape [OF d]
  have q: "answer dial sid m ?a = q" using sh(1) by (simp add: answer_def)
  show ?thesis
  proof (cases q)
    case (Inr c)
    then have "manager_Dial dial sid m = Some (Inr c, m1)" using a by (simp add: manager_Dial_def d)
    moreover have "first_up dial sid m (dial_order m) = Some ?a" by (simp add: first_up_def dial_order_def q Inr)
    ultimately show ?thesis using sh a q Inr by (auto simp: tmanager_ok_def)
  next
    case (Inl e)
    obtain p m' where tp: "try_promote dial sid ?o m1 = (p, m')" by (cases "try_promote dial sid ?o m1")
    have ans: "answer dial sid m1 j = answer dial sid m j" if "j \<noteq> ?a" for j
      using sh(5) [OF that] by (simp add: answer_def)
    have fu: "first_up dial sid m1 ?o = first_up dial sid m (dial_order m)"
      unfolding first_up_def dial_order_def using ans by (auto simp: q Inl intro!: find_cong)
    have ex: "p = map_option (\<lambda>i. projr (answer dial sid m1 i)) (first_up dial sid m1 ?o)"
      "activeIdx m' = (case first_up dial sid m1 ?o of None \<Rightarrow> activeIdx m1 | Some i \<Rightarrow> i)"
      "map fst (transports m') = map fst (transports m1)"
      using try_promote_exact [OF _ _ tp] sh(3) by auto
    have len: "length (transports m') = ?n" using arg_cong [OF ex(3), of length] sh(3) by simp
    have dl: "manager_Dial dial sid m = Some (case p of Some c \<Rightarrow> (Inr c, m')
        | None \<Rightarrow> (Inl (last (e # map (projl \<circ> answer dial sid m1) ?o)), m'))"
      using a try_fallbacks_promote [of "[0..<?n]" dial sid ?a e m1]
      by (simp add: manager_Dial_def d Inl tp split: option.split)
    show ?thesis
    proof (cases "first_up dial sid m (dial_order m)")
      case (Some i)
      then have "\<not> isl (answer dial sid m i)" "i \<in> set (dial_order m)"
        unfolding first_up_def by (auto simp: find_Some_iff)
      moreover from this have "i \<noteq> ?a" "i < ?n" using a q Inl by (auto simp: dial_order_def)
      ultimately show ?thesis using dl ex fu Some ans sh a len by (auto simp: tmanager_ok_def)
    next
      case None
      then have all: "\<forall>i \<in> set (dial_order m). isl (answer dial sid m i)"
        unfolding first_up_def by (simp add: find_None_iff)
      then have all': "\<forall>i < ?n. isl (answer dial sid m i)" by (auto simp: dial_order_def)
      have "Inl (last (e # map (projl \<circ> answer dial sid m1) ?o)) = answer dial sid m (last (dial_order m))"
      proof (cases "?o = []")
        case True
        then show ?thesis by (simp add: dial_order_def q Inl)
      next
        case False
        then have l: "last ?o \<in> set ?o" by (rule last_in_set)
        then have "last ?o \<noteq> ?a" "last ?o < ?n" by auto
        with all' have "answer dial sid m1 (last ?o) = Inl (projl (answer dial sid m (last ?o)))"
          and "isl (answer dial sid m (last ?o))" by (simp_all add: ans)
        with False ans show ?thesis by (simp add: dial_order_def last_map)
      qed
      then show ?thesis using dl ex fu None all' sh a len by (auto simp: tmanager_ok_def)
    qed
  qed
qed

text \<open>
  \<open>tryPromote\<close> moves to the first transport above the active one that answers, or stays.\<close>

theorem promote_never_demotes:
  assumes "tmanager_ok m" and "tryPromote dial zero m = (r, m')"
  shows "activeIdx m' \<le> activeIdx m \<and> tmanager_ok m' \<and>
    activeIdx m' = (case first_up dial zero m [0..<activeIdx m] of None \<Rightarrow> activeIdx m | Some i \<Rightarrow> i) \<and>
    (r = None \<longleftrightarrow> activeIdx m' = activeIdx m)"
proof (cases "activeIdx m = 0")
  case True
  then show ?thesis using assms by (simp add: tryPromote_def first_up_def)
next
  case False
  have "set [0..<activeIdx m] \<subseteq> {..<length (transports m)}" using assms(1) by (auto simp: tmanager_ok_def)
  with False try_promote_exact [of "[0..<activeIdx m]" m dial zero r m'] assms(2)
  have ex: "r = map_option (\<lambda>i. projr (answer dial zero m i)) (first_up dial zero m [0..<activeIdx m])"
    "activeIdx m' = (case first_up dial zero m [0..<activeIdx m] of None \<Rightarrow> activeIdx m | Some i \<Rightarrow> i)"
    "map fst (transports m') = map fst (transports m)"
    by (auto simp: tryPromote_def)
  have len: "length (transports m') = length (transports m)" using arg_cong [OF ex(3), of length] by simp
  show ?thesis
  proof (cases "first_up dial zero m [0..<activeIdx m]")
    case None
    with ex len assms(1) show ?thesis by (simp add: tmanager_ok_def)
  next
    case (Some i)
    then have "i < activeIdx m" unfolding first_up_def by (auto simp: find_Some_iff)
    with Some ex len assms(1) show ?thesis by (simp add: tmanager_ok_def)
  qed
qed


text \<open>A dialer for examples: a transport is up or down, and the connection is the id.\<close>

definition updown :: "(nat, bool, string, nat) dialer" where
  "updown sid t = (if t then Inr sid else Inl ''down'', t)"

theorem manager_dial_exact_witness:
  "\<exists>m'. manager_Dial updown 7 (tmanager_New [(''a'', False), (''b'', False), (''c'', True)]) = Some (Inr 7, m') \<and>
     activeIdx m' = 2"
  using manager_dial_exact [of "tmanager_New [(''a'', False), (''b'', False), (''c'', True)]" updown 7]
  by (auto simp: tmanager_ok_def tmanager_New_def first_up_def dial_order_def answer_def updown_def upt_rec)

theorem promote_never_demotes_witness:
  "activeIdx (snd (tryPromote updown 0 \<lparr>transports = [(''a'', False), (''b'', True), (''c'', True)], activeIdx = 2\<rparr>)) = 1"
  using promote_never_demotes [of "\<lparr>transports = [(''a'', False), (''b'', True), (''c'', True)], activeIdx = 2\<rparr>" updown 0
      "fst (tryPromote updown 0 \<lparr>transports = [(''a'', False), (''b'', True), (''c'', True)], activeIdx = 2\<rparr>)"
      "snd (tryPromote updown 0 \<lparr>transports = [(''a'', False), (''b'', True), (''c'', True)], activeIdx = 2\<rparr>)"]
  by (simp add: tmanager_ok_def first_up_def answer_def updown_def upt_rec)

section \<open>Transports that a dial does not change\<close>

text \<open>
  The clients of the program keep no state between dials. A manager of such transports changes
  nothing but its choice; a manager of one such transport dials just this one.
\<close>

locale stateless_dialer =
  fixes dial :: "('id, 't, 'e, 'c) dialer"
  assumes keeps: "snd (dial sid t) = t"
begin

lemma dial_at_keeps:
  assumes "i < length (transports m)"
  shows "dial_at dial sid i m = (fst (dial sid (snd (transports m ! i))), m)"
  using keeps [of sid "snd (transports m ! i)"] assms
  by (cases m) (auto simp: dial_at_def split: prod.split)

lemma try_fallbacks_keeps:
  assumes "\<forall>i \<in> set is. i < length (transports m)"
  shows "transports (snd (try_fallbacks dial sid start is e m)) = transports m"
  using assms by (induction "is" arbitrary: e) (auto simp: dial_at_keeps split: sum.split)

lemma Dial_keeps: "manager_Dial dial sid m = Some (r, m') \<Longrightarrow> transports m' = transports m"
  using try_fallbacks_keeps [of "[0..<length (transports m)]" m sid "activeIdx m"]
  by (auto simp: manager_Dial_def dial_at_keeps split: if_splits sum.splits)
    (metis snd_conv)

lemma try_promote_keeps:
  assumes "\<forall>i \<in> set is. i < length (transports m)"
  shows "transports (snd (try_promote dial sid is m)) = transports m"
  using assms by (induction "is") (auto simp: dial_at_keeps split: sum.split)

lemma promote_keeps:
  assumes "activeIdx m \<le> length (transports m)"
  shows "transports (snd (tryPromote dial zero m)) = transports m"
  using try_promote_keeps [of "[0..<activeIdx m]" m zero] assms by (simp add: tryPromote_def)

lemma Dial_single:
  assumes "transports m = [(n, c)]" and "activeIdx m = 0"
  shows "manager_Dial dial sid m = Some (fst (dial sid c), m)"
  using assms dial_at_keeps [of 0 m sid] by (cases "fst (dial sid c)") (simp_all add: manager_Dial_def)

end

interpretation updown: stateless_dialer updown
  by unfold_locales (simp add: updown_def)

section \<open>The pool\<close>

definition held :: "('t, 'c) pooled \<Rightarrow> 'c multiset" where
  "held p = (case refill p of Holding c \<Rightarrow> {#c#} | _ \<Rightarrow> {#})"

text \<open>Every connection dialled is in exactly one place, and the pool has room for the one held.\<close>

definition pool_inv :: "('t, 'c) pooled \<Rightarrow> bool" where
  "pool_inv p \<longleftrightarrow>
     mset (made p) = mset (given p) + mset (pool p) + held p + mset (shut p) \<and>
     int (length (pool p)) + int (size (held p)) \<le> Size (pconfig p) \<and>
     (if pool_closed p then pool p = [] \<and> refill p = Returned else shut p = [])"

lemma pool_step_inv: "pool_step dial close p q \<Longrightarrow> pool_inv p \<Longrightarrow> pool_inv q"
proof (induction rule: pool_step.induct)
  case (dial sid p r p')
  then show ?case
    by (auto simp: pool_Dial_def pool_inv_def held_def split: list.splits if_splits prod.splits sum.splits)
next
  case (check p sid)
  then show ?case
    by (auto simp: refill_check_def pool_inv_def held_def split: prod.splits sum.splits)
next
  case (send p c)
  then show ?case by (auto simp: refill_send_def pool_inv_def held_def)
qed (auto simp: pool_inv_def held_def pool_drain_def)

lemma pool_reach_inv:
  "(pool_step dial close)\<^sup>*\<^sup>* (NewPooledTransport t cfg) p \<Longrightarrow> pool_inv p"
proof (induction rule: rtranclp_induct)
  case base
  then show ?case by (simp add: pool_inv_def held_def NewPooledTransport_def pool_defaults_def)
next
  case (step p q)
  then show ?case using pool_step_inv by blast
qed

text \<open>
  C29. In every interleaving of the dials, the refill loop and \<open>Close\<close>, no connection is handed
  out twice or lost: each one dialled is either handed out, in the pool, held by the refill
  loop or closed; the pool never exceeds its size; a connection is closed only by \<open>Close\<close>,
  after which all that were not handed out are closed.
\<close>

theorem pool_conserves:
  assumes "(pool_step dial close)\<^sup>*\<^sup>* (NewPooledTransport t cfg) p"
  shows "mset (made p) = mset (given p) + mset (pool p) + held p + mset (shut p) \<and>
    int (length (pool p)) \<le> Size (pconfig p) \<and>
    (\<not> pool_closed p \<longrightarrow> shut p = []) \<and>
    (pool_closed p \<longrightarrow> mset (made p) = mset (given p) + mset (shut p))"
  using pool_reach_inv [OF assms] by (auto simp: pool_inv_def held_def)

text \<open>A pool that has dialled one connection, been cancelled and closed.\<close>

definition closed_pool :: "(bool, nat) pooled" where
  "closed_pool = \<lparr>inner = True, pconfig = \<lparr>Size = 1, RefillDelay = 1\<rparr>, pool = [], pool_closed = True,
     cancelled = True, refill = Returned, made = [5], given = [], shut = [5]\<rparr>"

lemma closed_pool_reached:
  "(pool_step updown id)\<^sup>*\<^sup>* (NewPooledTransport True \<lparr>Size = 1, RefillDelay = 1\<rparr>) closed_pool"
proof -
  let ?p = "\<lambda>(l :: nat list) cl ca r m s. \<lparr>inner = True, pconfig = \<lparr>Size = 1, RefillDelay = 1\<rparr>, pool = l, pool_closed = cl,
      cancelled = ca, refill = r, made = m, given = [], shut = s\<rparr>"
  have s1: "pool_step updown id (?p [] False False Checking [] []) (?p [] False False (Holding 5) [5] [])"
    using pool_step.check [of "?p [] False False Checking [] []" updown id 5]
    by (simp add: refill_check_def updown_def)
  have s2: "pool_step updown id (?p [] False False (Holding 5) [5] []) (?p [5] False False Checking [5] [])"
    using pool_step.send [of "?p [] False False (Holding 5) [5] []" 5 updown id] by (simp add: refill_send_def)
  have s3: "pool_step updown id (?p [5] False False Checking [5] []) (?p [5] False False Waiting [5] [])"
    using pool_step.check [of "?p [5] False False Checking [5] []" updown id 5] by (simp add: refill_check_def)
  have s4: "pool_step updown id (?p [5] False False Waiting [5] []) (?p [5] False True Waiting [5] [])"
    using pool_step.cancel [of updown id "?p [5] False False Waiting [5] []"] by simp
  have s5: "pool_step updown id (?p [5] False True Waiting [5] []) (?p [5] False True Returned [5] [])"
    using pool_step.quit [of "?p [5] False True Waiting [5] []" updown id] by simp
  have s6: "pool_step updown id (?p [5] False True Returned [5] []) closed_pool"
    using pool_step.drain [of "?p [5] False True Returned [5] []" updown id]
    by (simp add: pool_drain_def closed_pool_def)
  have e: "NewPooledTransport True \<lparr>Size = 1, RefillDelay = 1\<rparr> = ?p [] False False Checking [] []"
    by (simp add: NewPooledTransport_def pool_defaults_def)
  show ?thesis
    unfolding e
    by (rule converse_rtranclp_into_rtranclp [where r = "pool_step updown id", OF s1], rule converse_rtranclp_into_rtranclp [where r = "pool_step updown id", OF s2],
        rule converse_rtranclp_into_rtranclp [where r = "pool_step updown id", OF s3], rule converse_rtranclp_into_rtranclp [where r = "pool_step updown id", OF s4],
        rule converse_rtranclp_into_rtranclp [where r = "pool_step updown id", OF s5], rule converse_rtranclp_into_rtranclp [where r = "pool_step updown id", OF s6],
        rule rtranclp.rtrancl_refl)
qed

theorem pool_conserves_witness: "mset (made closed_pool) = mset (given closed_pool) + mset (shut closed_pool)"
  using pool_conserves [OF closed_pool_reached] by (simp add: closed_pool_def)

text \<open>After \<open>Close\<close>, \<open>Dial\<close> reports success and hands out no connection at all, for every id.\<close>

theorem pool_dial_after_close:
  assumes "(pool_step dial close)\<^sup>*\<^sup>* (NewPooledTransport t cfg) p" and "pool_closed p"
  shows "pool_Dial dial sid p = (Inr None, p)"
  using pool_reach_inv [OF assms(1)] assms(2) by (simp add: pool_inv_def pool_Dial_def)

theorem pool_dial_after_close_witness: "pool_Dial updown 9 closed_pool = (Inr None, closed_pool)"
  using pool_dial_after_close [OF closed_pool_reached] by (simp add: closed_pool_def)

section \<open>Reconnecting\<close>

text \<open>Attempt \<open>n\<close> ends the loop.\<close>

definition ends_at :: "'f reconnect_config \<Rightarrow> (nat \<Rightarrow> ('e, 'c) attempt) \<Rightarrow> nat \<Rightarrow> bool" where
  "ends_at cfg env n \<longleftrightarrow> at_closed (env n) \<or> \<not> isl (at_dial (env n)) \<or>
     (0 < MaxRetries cfg \<and> MaxRetries cfg \<le> int (Suc n)) \<or> at_done (env n)"

definition end_of :: "'f reconnect_config \<Rightarrow> (nat \<Rightarrow> ('e, 'c) attempt) \<Rightarrow> nat \<Rightarrow> ('e, 'c) dial_end" where
  "end_of cfg env n = (if at_closed (env n) then Was_closed
     else case at_dial (env n) of Inr c \<Rightarrow> Connected c
       | Inl e \<Rightarrow> if 0 < MaxRetries cfg \<and> MaxRetries cfg \<le> int (Suc n) then Gave_up e else Context_done)"

definition next_delay :: "('f \<Rightarrow> int \<Rightarrow> int) \<Rightarrow> 'f reconnect_config \<Rightarrow> int \<Rightarrow> int" where
  "next_delay scale cfg d = min (scale (BackoffFactor cfg) d) (MaxDelay cfg)"

lemma reconnect_unfold:
  "reconnect_loop scale cfg env delay n =
     (if ends_at cfg env n then Some (end_of cfg env n, [])
      else Option.bind (reconnect_loop scale cfg env (next_delay scale cfg delay) (Suc n))
        (\<lambda>(r, ds). Some (r, delay # ds)))"
  by (subst reconnect_loop.simps)
    (auto simp: ends_at_def end_of_def next_delay_def min_def Let_def split: sum.split)

lemma reconnect_returns:
  "\<not> (\<exists>i < k. ends_at cfg env (n + i)) \<Longrightarrow> ends_at cfg env (n + k) \<Longrightarrow>
   reconnect_loop scale cfg env delay n =
     Some (end_of cfg env (n + k), map (\<lambda>i. (next_delay scale cfg ^^ i) delay) [0..<k])"
proof (induction k arbitrary: n delay)
  case 0
  then show ?case by (subst reconnect_unfold) simp
next
  case (Suc k)
  then have "\<not> ends_at cfg env n" by (metis add_0_right zero_less_Suc)
  moreover have "reconnect_loop scale cfg env (next_delay scale cfg delay) (Suc n) =
      Some (end_of cfg env (n + Suc k), map (\<lambda>i. (next_delay scale cfg ^^ i) (next_delay scale cfg delay)) [0..<k])"
    using Suc.IH [of "Suc n"] Suc.prems by (metis Suc_less_eq add_Suc_shift)
  moreover have "map (\<lambda>i. (next_delay scale cfg ^^ i) delay) [0..<Suc k] =
      delay # map (\<lambda>i. (next_delay scale cfg ^^ i) (next_delay scale cfg delay)) [0..<k]"
    by (simp add: upt_conv_Cons map_Suc_upt [symmetric] funpow_swap1 del: upt_Suc)
  ultimately show ?case by (subst reconnect_unfold) simp
qed

lemma reconnect_ends:
  fixes env :: "nat \<Rightarrow> ('e, 'c) attempt" and cfg :: "'a reconnect_config"
  shows
  "reconnect_loop scale cfg env delay n = Some r \<Longrightarrow> \<exists>k \<ge> n. ends_at cfg env k"
proof (rule reconnect_loop.raw_induct [where P = "\<lambda>scale cfg env delay n r. \<exists>k \<ge> n. ends_at cfg env k"])
  fix rc :: "('a \<Rightarrow> int \<Rightarrow> int) \<Rightarrow> 'a reconnect_config \<Rightarrow> (nat \<Rightarrow> ('e, 'c) attempt) \<Rightarrow> int \<Rightarrow> nat
      \<Rightarrow> (('e, 'c) dial_end \<times> int list) option"
  fix scale cfg env delay n y
  assume IH: "\<And>scale cfg env delay n y. rc scale cfg env delay n = Some y \<Longrightarrow> \<exists>k \<ge> n. ends_at cfg env k"
    and body: "(if at_closed (env n) then Some (Was_closed, [])
      else case at_dial (env n) of
          Inr c \<Rightarrow> Some (Connected c, [])
        | Inl e \<Rightarrow>
            if 0 < MaxRetries cfg \<and> MaxRetries cfg \<le> int (Suc n) then Some (Gave_up e, [])
            else if at_done (env n) then Some (Context_done, [])
            else let d = scale (BackoffFactor cfg) delay; d = (if MaxDelay cfg < d then MaxDelay cfg else d) in
              Option.bind (rc scale cfg env d (Suc n)) (\<lambda>(r, ds). Some (r, delay # ds))) = Some y"
  show "\<exists>k \<ge> n. ends_at cfg env k"
  proof (cases "ends_at cfg env n")
    case False
    with body obtain d y' where "rc scale cfg env d (Suc n) = Some y'"
      by (auto simp: ends_at_def Let_def bind_eq_Some_conv split: if_splits sum.splits)
    then show ?thesis using IH [of scale cfg env d "Suc n" y'] by (auto dest: Suc_leD)
  qed auto
qed

text \<open>
  C22. \<open>Dial\<close> returns if and only if some attempt ends it: the transport is closed, the inner
  dial succeeds, the retries are used up or the context is done. It then ends the way the
  first such attempt does, after exactly the delays of the exponential back-off, capped at
  \<open>MaxDelay\<close>. With a positive \<open>MaxRetries\<close> it always returns, after at most that many
  attempts.
\<close>

theorem reconnect_terminates:
  "(reconnect_Dial scale cfg env \<noteq> None \<longleftrightarrow> (\<exists>k. ends_at cfg env k)) \<and>
   (0 < MaxRetries cfg \<longrightarrow> reconnect_Dial scale cfg env \<noteq> None) \<and>
   (\<forall>r ds. reconnect_Dial scale cfg env = Some (r, ds) \<longrightarrow>
      r = end_of cfg env (length ds) \<and> ends_at cfg env (length ds) \<and>
      (\<forall>i < length ds. \<not> ends_at cfg env i \<and>
         ds ! i = (next_delay scale cfg ^^ i) (InitialDelay cfg) \<and> (0 < i \<longrightarrow> ds ! i \<le> MaxDelay cfg)) \<and>
      (0 < MaxRetries cfg \<longrightarrow> int (Suc (length ds)) \<le> MaxRetries cfg))"
proof -
  have ret: "reconnect_Dial scale cfg env = Some (end_of cfg env k, map (\<lambda>i. (next_delay scale cfg ^^ i) (InitialDelay cfg)) [0..<k])"
    if "ends_at cfg env k" "\<forall>i < k. \<not> ends_at cfg env i" for k
    using reconnect_returns [of k cfg env 0 scale "InitialDelay cfg"] that by (simp add: reconnect_Dial_def)
  have least: "\<exists>k. ends_at cfg env k \<and> (\<forall>i < k. \<not> ends_at cfg env i)" if "\<exists>k. ends_at cfg env k"
    using exists_least_iff [of "ends_at cfg env"] that by blast
  have iff: "reconnect_Dial scale cfg env \<noteq> None \<longleftrightarrow> (\<exists>k. ends_at cfg env k)"
    using least ret reconnect_ends [of scale cfg env "InitialDelay cfg" 0] unfolding reconnect_Dial_def by fastforce
  have retries: "ends_at cfg env (nat (MaxRetries cfg) - 1)" if "0 < MaxRetries cfg"
    using that by (simp add: ends_at_def)
  have "r = end_of cfg env (length ds) \<and> ends_at cfg env (length ds) \<and>
      (\<forall>i < length ds. \<not> ends_at cfg env i \<and>
         ds ! i = (next_delay scale cfg ^^ i) (InitialDelay cfg) \<and> (0 < i \<longrightarrow> ds ! i \<le> MaxDelay cfg)) \<and>
      (0 < MaxRetries cfg \<longrightarrow> int (Suc (length ds)) \<le> MaxRetries cfg)"
    if dial: "reconnect_Dial scale cfg env = Some (r, ds)" for r ds
  proof -
    from dial iff least obtain k where k: "ends_at cfg env k" "\<forall>i < k. \<not> ends_at cfg env i" by blast
    from ret [OF k] dial have eq: "r = end_of cfg env k" "length ds = k"
      and ds: "\<forall>i < k. ds ! i = (next_delay scale cfg ^^ i) (InitialDelay cfg)" by auto
    have "0 < i \<longrightarrow> (next_delay scale cfg ^^ i) (InitialDelay cfg) \<le> MaxDelay cfg" for i
      by (cases i) (simp_all add: next_delay_def)
    moreover have "0 < MaxRetries cfg \<longrightarrow> int (Suc k) \<le> MaxRetries cfg"
    proof
      assume m: "0 < MaxRetries cfg"
      then have "\<not> nat (MaxRetries cfg) - 1 < k" using k(2) retries by blast
      with m show "int (Suc k) \<le> MaxRetries cfg" by linarith
    qed
    ultimately show ?thesis using k ds by (simp add: eq)
  qed
  with iff retries show ?thesis by blast
qed


theorem reconnect_terminates_witness:
  "let cfg = \<lparr>MaxRetries = 3, InitialDelay = 20, MaxDelay = 30, BackoffFactor = (2 :: int)\<rparr> in
   reconnect_Dial (\<lambda>f d. f * d) cfg (\<lambda>n. \<lparr>at_closed = False, at_dial = Inl ''refused'', at_done = False\<rparr> :: (string, nat) attempt)
     = Some (Gave_up ''refused'', [20, 30])"
proof -
  let ?cfg = "\<lparr>MaxRetries = 3, InitialDelay = 20, MaxDelay = 30, BackoffFactor = (2 :: int)\<rparr>"
  let ?env = "\<lambda>n :: nat. \<lparr>at_closed = False, at_dial = Inl ''refused'', at_done = False\<rparr> :: (string, nat) attempt"
  obtain r ds where d: "reconnect_Dial (\<lambda>f d. f * d) ?cfg ?env = Some (r, ds)"
    using reconnect_terminates [of "\<lambda>f d. f * d" ?cfg ?env] by auto
  with reconnect_terminates [of "\<lambda>f d. f * d" ?cfg ?env]
  have f: "r = end_of ?cfg ?env (length ds)" "ends_at ?cfg ?env (length ds)"
    "\<forall>i < length ds. \<not> ends_at ?cfg ?env i \<and> ds ! i = (next_delay (\<lambda>f d. f * d) ?cfg ^^ i) 20" by auto
  have "length ds = 2"
    using f(2) f(3) [rule_format, of 2] by (cases "length ds < 2"; cases "2 < length ds") (auto simp: ends_at_def)
  then have "ds = [ds ! 0, ds ! 1]" by (cases ds; cases "tl ds") auto
  also have "\<dots> = [20, 30]" using f(3) \<open>length ds = 2\<close> by (simp add: next_delay_def)
  finally show ?thesis using d f(1) \<open>length ds = 2\<close> by (simp add: end_of_def)
qed

text \<open>The transport itself: \<open>Close\<close> marks it and closes the one inside.\<close>

record ('t, 'f) reconnecting =
  rc_inner :: 't
  rc_config :: "'f reconnect_config"
  rc_closed :: bool

definition NewReconnectingTransport :: "('f \<Rightarrow> bool) \<Rightarrow> 'f \<Rightarrow> 't \<Rightarrow> 'f reconnect_config \<Rightarrow> ('t, 'f) reconnecting" where
  "NewReconnectingTransport le0 two t cfg =
     \<lparr>rc_inner = t, rc_config = reconnect_defaults le0 two cfg, rc_closed = False\<rparr>"

definition reconnecting_Close :: "('t \<Rightarrow> 't) \<Rightarrow> ('t, 'f) reconnecting \<Rightarrow> ('t, 'f) reconnecting" where
  "reconnecting_Close close r = r\<lparr>rc_inner := close (rc_inner r), rc_closed := True\<rparr>"

text \<open>The attempts of a \<open>Dial\<close>, for the state \<open>st n\<close> of the transport at the start of attempt \<open>n\<close>.\<close>

definition attempts_of :: "('id, 't, 'e, 'c) dialer \<Rightarrow> 'id \<Rightarrow> (nat \<Rightarrow> bool) \<Rightarrow> (nat \<Rightarrow> ('t, 'f) reconnecting)
    \<Rightarrow> nat \<Rightarrow> ('e, 'c) attempt" where
  "attempts_of dial sid ctx_done st n =
     \<lparr>at_closed = rc_closed (st n), at_dial = fst (dial sid (rc_inner (st n))), at_done = ctx_done n\<rparr>"

text \<open>
  \<open>Close\<close> ends a \<open>Dial\<close> that is retrying: when it comes before attempt \<open>k\<close>, the inner transport
  is not dialled a \<open>k + 1\<close>st time, and \<open>Dial\<close> returns after at most \<open>k\<close> waits. (A wait that has
  begun is not cut short.)
\<close>

theorem reconnect_close_returns:
  assumes "st k = reconnecting_Close close r"
  shows "\<exists>res ds. reconnect_Dial scale cfg (attempts_of dial sid ctx_done st) = Some (res, ds) \<and> length ds \<le> k \<and>
    (length ds = k \<longrightarrow> res = Was_closed)"
proof -
  let ?env = "attempts_of dial sid ctx_done st"
  have k: "ends_at cfg ?env k" by (simp add: ends_at_def attempts_of_def assms reconnecting_Close_def)
  then obtain j where j: "ends_at cfg ?env j" "\<forall>i < j. \<not> ends_at cfg ?env i"
    using exists_least_iff [of "ends_at cfg ?env"] by blast
  with k have le: "j \<le> k" by (meson not_le)
  have "end_of cfg ?env k = Was_closed" by (simp add: end_of_def attempts_of_def assms reconnecting_Close_def)
  then show ?thesis
    using reconnect_returns [of j cfg ?env 0 scale "InitialDelay cfg"] j le by (auto simp: reconnect_Dial_def)
qed

theorem reconnect_close_returns_witness:
  "\<exists>res ds. reconnect_Dial (\<lambda>f d. f * d) (rc_config (NewReconnectingTransport (\<lambda>f. f \<le> 0) 2 False
       \<lparr>MaxRetries = 0, InitialDelay = 0, MaxDelay = 0, BackoffFactor = (0 :: int)\<rparr>))
      (attempts_of updown 7 (\<lambda>_. False) (\<lambda>n. if n < 3
         then NewReconnectingTransport (\<lambda>f. f \<le> 0) 2 False \<lparr>MaxRetries = 0, InitialDelay = 0, MaxDelay = 0, BackoffFactor = (0 :: int)\<rparr>
         else reconnecting_Close id (NewReconnectingTransport (\<lambda>f. f \<le> 0) 2 False
           \<lparr>MaxRetries = 0, InitialDelay = 0, MaxDelay = 0, BackoffFactor = (0 :: int)\<rparr>))) = Some (res, ds) \<and> length ds \<le> 3"
  using reconnect_close_returns [where k = 3 and dial = updown and sid = 7 and ctx_done = "\<lambda>_. False" and close = id
      and scale = "\<lambda>f d. f * d" and cfg = "rc_config (NewReconnectingTransport (\<lambda>f. f \<le> 0) 2 False
        \<lparr>MaxRetries = 0, InitialDelay = 0, MaxDelay = 0, BackoffFactor = (0 :: int)\<rparr>)"
      and r = "NewReconnectingTransport (\<lambda>f. f \<le> 0) 2 False \<lparr>MaxRetries = 0, InitialDelay = 0, MaxDelay = 0, BackoffFactor = (0 :: int)\<rparr>"
      and st = "\<lambda>n. if n < 3
         then NewReconnectingTransport (\<lambda>f. f \<le> 0) 2 False \<lparr>MaxRetries = 0, InitialDelay = 0, MaxDelay = 0, BackoffFactor = (0 :: int)\<rparr>
         else reconnecting_Close id (NewReconnectingTransport (\<lambda>f. f \<le> 0) 2 False
           \<lparr>MaxRetries = 0, InitialDelay = 0, MaxDelay = 0, BackoffFactor = (0 :: int)\<rparr>)"]
  by auto

end
