(* ===== verification/Tunnel.thy ===== *)
theory Tunnel
  imports Handshake Netip Throttle Transport
begin

text \<open>
  Model of the path of one connection through the two programs: the SOCKS5 inbound
  (\<open>internal/proxy/socks5.go\<close>), the client's \<open>handleSOCKS5Client\<close> (cmd_connect.go), the
  server's \<open>handleTunnel\<close> (cmd_server.go) and the relay with its counters
  (\<open>internal/proxy/relay.go\<close>, \<open>counting.go\<close>). The client dials through the transport manager
  and reports to the detector; dialling the target is an input. The server's middleware chain
  is the empty one it is started with.
\<close>

section \<open>socks5.go\<close>

definition socks5Version :: byte where "socks5Version = 0x05"
definition authNone :: byte where "authNone = 0x00"
definition cmdConnect :: byte where "cmdConnect = 0x01"
definition atypIPv4 :: byte where "atypIPv4 = 0x01"
definition atypDomain :: byte where "atypDomain = 0x03"
definition atypIPv6 :: byte where "atypIPv6 = 0x04"
definition repSuccess :: byte where "repSuccess = 0x00"
definition repFailure :: byte where "repFailure = 0x01"

lemmas socks_consts [wire_simps] =
  socks5Version_def authNone_def cmdConnect_def atypIPv4_def atypDomain_def atypIPv6_def
  repSuccess_def repFailure_def

record socks5_target =
  st_host :: string
  st_port :: u16

datatype socks_err = SReadAuth io_err | SVersion byte | SReadMethods io_err | SWriteAuth io_err
  | SReadRequest io_err | SBadVersion byte | SCommand byte | SReadAddr io_err | SAddrType byte
  | SReadPort io_err

definition sendSOCKS5Reply :: "byte \<Rightarrow> conn \<Rightarrow> io_err option \<times> conn" where
  "sendSOCKS5Reply rep c = conn_write [socks5Version, rep, 0x00, atypIPv4, 0, 0, 0, 0, 0, 0] c"

definition SOCKS5SendSuccess :: "conn \<Rightarrow> io_err option \<times> conn" where
  "SOCKS5SendSuccess c = sendSOCKS5Reply repSuccess c"

definition SOCKS5SendFailure :: "conn \<Rightarrow> io_err option \<times> conn" where
  "SOCKS5SendFailure c = sendSOCKS5Reply repFailure c"

text \<open>The switch over the address type; the reply to an unknown type is sent here.\<close>

definition read_socks_addr :: "byte \<Rightarrow> conn \<Rightarrow> (socks_err + string) \<times> conn" where
  "read_socks_addr atyp c =
     (if atyp = atypIPv4 then
        (case conn_read_full 4 c of (Inl e, c1) \<Rightarrow> (Inl (SReadAddr e), c1)
         | (Inr b, c1) \<Rightarrow> (Inr (dotted (b ! 0) (b ! 1) (b ! 2) (b ! 3)), c1))
      else if atyp = atypDomain then
        (case conn_read_full 1 c of (Inl e, c1) \<Rightarrow> (Inl (SReadAddr e), c1)
         | (Inr l, c1) \<Rightarrow>
             (case conn_read_full (unat (l ! 0)) c1 of (Inl e, c2) \<Rightarrow> (Inl (SReadAddr e), c2)
              | (Inr b, c2) \<Rightarrow> (Inr (str_of_bytes b), c2)))
      else if atyp = atypIPv6 then
        (case conn_read_full 16 c of (Inl e, c1) \<Rightarrow> (Inl (SReadAddr e), c1)
         | (Inr b, c1) \<Rightarrow> (Inr (ip_string b), c1))
      else (Inl (SAddrType atyp), snd (sendSOCKS5Reply 0x08 c)))"

definition SOCKS5Handshake :: "conn \<Rightarrow> (socks_err + socks5_target) \<times> conn" where
  "SOCKS5Handshake c =
     (case conn_read_full 2 c of (Inl e, c1) \<Rightarrow> (Inl (SReadAuth e), c1)
      | (Inr b, c1) \<Rightarrow>
        if b ! 0 \<noteq> socks5Version then (Inl (SVersion (b ! 0)), c1)
        else (case conn_read_full (unat (b ! 1)) c1 of (Inl e, c2) \<Rightarrow> (Inl (SReadMethods e), c2)
          | (Inr m, c2) \<Rightarrow>
            (case conn_write [socks5Version, authNone] c2 of (Some e, c3) \<Rightarrow> (Inl (SWriteAuth e), c3)
             | (None, c3) \<Rightarrow>
               (case conn_read_full 4 c3 of (Inl e, c4) \<Rightarrow> (Inl (SReadRequest e), c4)
                | (Inr q, c4) \<Rightarrow>
                  if q ! 0 \<noteq> socks5Version then (Inl (SBadVersion (q ! 0)), c4)
                  else if q ! 1 \<noteq> cmdConnect
                  then (Inl (SCommand (q ! 1)), snd (sendSOCKS5Reply 0x07 c4))
                  else (case read_socks_addr (q ! 3) c4 of (Inl e, c5) \<Rightarrow> (Inl e, c5)
                    | (Inr host, c5) \<Rightarrow>
                      (case conn_read_full 2 c5 of (Inl e, c6) \<Rightarrow> (Inl (SReadPort e), c6)
                       | (Inr p, c6) \<Rightarrow>
                           (Inr \<lparr>st_host = host, st_port = get_be16 (p ! 0) (p ! 1)\<rparr>, c6)))))))"

section \<open>What a SOCKS5 client sends\<close>

datatype socks_addr = SIPv4 bytes | SDomain bytes | SIPv6 bytes

fun addr_ok :: "socks_addr \<Rightarrow> bool" where
  "addr_ok (SIPv4 b) = (length b = 4)"
| "addr_ok (SDomain b) = (length b < 256)"
| "addr_ok (SIPv6 b) = (length b = 16)"

fun addr_bytes :: "socks_addr \<Rightarrow> bytes" where
  "addr_bytes (SIPv4 b) = atypIPv4 # b"
| "addr_bytes (SDomain b) = atypDomain # word_of_nat (length b) # b"
| "addr_bytes (SIPv6 b) = atypIPv6 # b"

fun addr_host :: "socks_addr \<Rightarrow> string" where
  "addr_host (SIPv4 b) = dotted (b ! 0) (b ! 1) (b ! 2) (b ! 3)"
| "addr_host (SDomain b) = str_of_bytes b"
| "addr_host (SIPv6 b) = ip_string b"

definition socks_greeting :: "bytes \<Rightarrow> bytes" where
  "socks_greeting methods = [socks5Version, word_of_nat (length methods)] @ methods"

definition socks_connect :: "socks_addr \<Rightarrow> u16 \<Rightarrow> bytes" where
  "socks_connect a p = [socks5Version, cmdConnect, 0] @ addr_bytes a @ be16 p"

lemma conn_read_append:
  "inb c = xs @ rest \<Longrightarrow> length xs = n \<Longrightarrow> conn_read_full n c = (Inr xs, c\<lparr>inb := rest\<rparr>)"
  by (simp add: conn_read_full_def)

lemma read_socks_addr_ok:
  assumes "addr_ok a" and "inb c = tl (addr_bytes a) @ rest"
  shows "read_socks_addr (hd (addr_bytes a)) c = (Inr (addr_host a), c\<lparr>inb := rest\<rparr>)"
proof (cases a)
  case (SDomain b)
  have "conn_read_full 1 c = (Inr [word_of_nat (length b)], c\<lparr>inb := b @ rest\<rparr>)"
    by (rule conn_read_append) (use assms(2) SDomain in simp_all)
  moreover have "conn_read_full (length b) (c\<lparr>inb := b @ rest\<rparr>) = (Inr b, c\<lparr>inb := rest\<rparr>)"
    using conn_read_append [of "c\<lparr>inb := b @ rest\<rparr>" b rest] by simp
  moreover have "unat (word_of_nat (length b) :: byte) = length b"
    using assms(1) SDomain by (simp add: unat_of_nat)
  ultimately show ?thesis using SDomain by (simp add: read_socks_addr_def socks_consts)
qed (use assms conn_read_append [of c _ rest] in \<open>auto simp: read_socks_addr_def socks_consts\<close>)

lemma socks_prefix:
  assumes "length methods < 256" and "wlim c = None" and "inb c = socks_greeting methods @ q @ rest"
    and "length q = 4"
  shows "SOCKS5Handshake c = (let c4 = c\<lparr>inb := rest, outb := outb c @ [socks5Version, authNone]\<rparr> in
     if q ! 0 \<noteq> socks5Version then (Inl (SBadVersion (q ! 0)), c4)
     else if q ! 1 \<noteq> cmdConnect then (Inl (SCommand (q ! 1)), snd (sendSOCKS5Reply 0x07 c4))
     else (case read_socks_addr (q ! 3) c4 of (Inl e, c5) \<Rightarrow> (Inl e, c5)
        | (Inr host, c5) \<Rightarrow>
          (case conn_read_full 2 c5 of (Inl e, c6) \<Rightarrow> (Inl (SReadPort e), c6)
           | (Inr p, c6) \<Rightarrow> (Inr \<lparr>st_host = host, st_port = get_be16 (p ! 0) (p ! 1)\<rparr>, c6))))"
proof -
  let ?n = "word_of_nat (length methods) :: byte"
  have n: "unat ?n = length methods" using assms(1) by (simp add: unat_of_nat)
  have r1: "conn_read_full 2 c = (Inr [socks5Version, ?n], c\<lparr>inb := methods @ q @ rest\<rparr>)"
    by (rule conn_read_append) (simp_all add: assms(3) socks_greeting_def)
  have r2: "conn_read_full (length methods) (c\<lparr>inb := methods @ q @ rest\<rparr>) = (Inr methods, c\<lparr>inb := q @ rest\<rparr>)"
    using conn_read_append [of "c\<lparr>inb := methods @ q @ rest\<rparr>" methods "q @ rest"] by simp
  have w: "conn_write [socks5Version, authNone] (c\<lparr>inb := q @ rest\<rparr>) =
      (None, c\<lparr>inb := q @ rest, outb := outb c @ [socks5Version, authNone]\<rparr>)"
    using assms(2) by (simp add: conn_write_def)
  have r3: "conn_read_full 4 (c\<lparr>inb := q @ rest, outb := outb c @ [socks5Version, authNone]\<rparr>) =
      (Inr q, c\<lparr>inb := rest, outb := outb c @ [socks5Version, authNone]\<rparr>)"
    using conn_read_append [of "c\<lparr>inb := q @ rest, outb := outb c @ [socks5Version, authNone]\<rparr>" q rest] assms(4)
    by simp
  show ?thesis
    unfolding SOCKS5Handshake_def r1 by (simp add: n r2 w r3 Let_def)
qed

lemma SOCKS5Handshake_connect:
  assumes "length methods < 256" and "addr_ok a" and "wlim c = None"
    and "inb c = socks_greeting methods @ socks_connect a p @ rest"
  shows "SOCKS5Handshake c = (Inr \<lparr>st_host = addr_host a, st_port = p\<rparr>,
    c\<lparr>inb := rest, outb := outb c @ [socks5Version, authNone]\<rparr>)"
proof -
  let ?q = "[socks5Version, cmdConnect, 0, hd (addr_bytes a)]"
  let ?c4 = "c\<lparr>inb := tl (addr_bytes a) @ be16 p @ rest, outb := outb c @ [socks5Version, authNone]\<rparr>"
  have ne: "addr_bytes a = hd (addr_bytes a) # tl (addr_bytes a)" by (cases a) simp_all
  have "socks_connect a p @ rest = ?q @ tl (addr_bytes a) @ be16 p @ rest"
    unfolding socks_connect_def by (subst ne) simp
  with assms(4) have i: "inb c = socks_greeting methods @ ?q @ tl (addr_bytes a) @ be16 p @ rest" by simp
  have ra: "read_socks_addr (hd (addr_bytes a)) ?c4 = (Inr (addr_host a), ?c4\<lparr>inb := be16 p @ rest\<rparr>)"
    by (rule read_socks_addr_ok [OF assms(2)]) simp
  have rp: "conn_read_full 2 (?c4\<lparr>inb := be16 p @ rest\<rparr>) = (Inr (be16 p), ?c4\<lparr>inb := rest\<rparr>)"
    using conn_read_append [of "?c4\<lparr>inb := be16 p @ rest\<rparr>" "be16 p" rest] by simp
  have "get_be16 (be16 p ! 0) (be16 p ! Suc 0) = p" by (simp add: be16_def get_be16_be16)
  with ra rp show ?thesis
    using socks_prefix [OF assms(1,3) i] by (simp add: Let_def)
qed

section \<open>handleTunnel\<close>

text \<open>
  \<open>dial a\<close> says whether dialling the target address \<open>a\<close> works. The result names what the
  handler goes on to do with the tunnel connection.
\<close>

datatype tunnel_out = THandshakeError server_err | TUnreachable string | TRelay string
  | TUdpRelay | TRefused

definition handleTunnel :: "(string \<Rightarrow> bool) \<Rightarrow> conn \<Rightarrow> tunnel_out \<times> conn" where
  "handleTunnel dial wrapped =
     (case HandleConnection wrapped of
        (Inl e, c1) \<Rightarrow> (THandshakeError e, c1)
      | (Inr req, c1) \<Rightarrow>
          if req_command req = CmdConnect then
            (if \<not> dial (Address req) then (TUnreachable (Address req), snd (SendACK StatusUnreachable c1))
             else (TRelay (Address req), snd (SendACK StatusOK c1)))
          else if req_command req = CmdUDP then (TUdpRelay, snd (SendACK StatusOK c1))
          else (TRefused, snd (SendACK StatusRefused c1)))"

section \<open>handleSOCKS5Client\<close>

datatype socks_out = SocksFailed socks_err | DialFailed socks5_target
  | HandshakeFailed handshake_err | Relaying socks5_target

text \<open>
  What the connections share: the transport manager and the detector. \<open>dial\<close> is the dialler
  of the transports, \<open>rtt\<close> how long dialling took, \<open>calls\<close> the callbacks that the detector
  starts. The handler up to the relay; \<open>None\<close> is the panic of a manager without transports.
\<close>

record ('t, 'f) client_app =
  app_mgr :: "'t tmanager"
  app_det :: "'f detector"

record socks_result =
  sr_out :: socks_out
  sr_socks :: conn
  sr_tunnel :: "conn option"
  sr_calls :: "(nat \<times> tstate) list"

definition handleSOCKS5Client :: "'f float_ops \<Rightarrow> ('id, 't, 'e, conn) dialer \<Rightarrow> 'id \<Rightarrow> int \<Rightarrow> conn
    \<Rightarrow> ('t, 'f) client_app \<Rightarrow> (socks_result \<times> ('t, 'f) client_app) option" where
  "handleSOCKS5Client F dial sid rtt socksConn app =
     (case SOCKS5Handshake socksConn of
        (Inl e, s1) \<Rightarrow> Some (\<lparr>sr_out = SocksFailed e, sr_socks = s1, sr_tunnel = None, sr_calls = []\<rparr>, app)
      | (Inr target, s1) \<Rightarrow>
        (case manager_Dial dial sid (app_mgr app) of
           None \<Rightarrow> None
         | Some (Inl e, m) \<Rightarrow>
             Some (\<lparr>sr_out = DialFailed target, sr_socks = snd (SOCKS5SendFailure s1), sr_tunnel = None,
               sr_calls = []\<rparr>, app\<lparr>app_mgr := m\<rparr>)
         | Some (Inr t, m) \<Rightarrow>
           (case RecordRTT F rtt (app_det app) of (calls, d) \<Rightarrow>
             let app1 = app\<lparr>app_mgr := m, app_det := d\<rparr> in
             (case Handshake \<lparr>req_command = CmdConnect, req_host = st_host target,
                              req_port = st_port target\<rparr> t of
                (Some e, t1) \<Rightarrow> Some (\<lparr>sr_out = HandshakeFailed e, sr_socks = snd (SOCKS5SendFailure s1),
                  sr_tunnel = Some t1, sr_calls = calls\<rparr>, app1)
              | (None, t1) \<Rightarrow> Some (\<lparr>sr_out = Relaying target, sr_socks = snd (SOCKS5SendSuccess s1),
                  sr_tunnel = Some t1, sr_calls = calls\<rparr>, app1)))))"

section \<open>The relay\<close>

text \<open>
  The two copy loops of \<open>RelayWithStats\<close>: what is still to be read from each side, what has
  been delivered to each side, the counters, whether \<open>closeAll\<close> has run and which loops have
  ended. \<open>Relay\<close> is the same without the counters.
\<close>

record relay_state =
  from_left :: bytes
  from_right :: bytes
  to_left :: bytes
  to_right :: bytes
  BytesSent :: int
  BytesRecv :: int
  both_closed :: bool
  send_done :: bool
  recv_done :: bool

definition start_relay :: "bytes \<Rightarrow> bytes \<Rightarrow> relay_state" where
  "start_relay l r = \<lparr>from_left = l, from_right = r, to_left = [], to_right = [],
     BytesSent = 0, BytesRecv = 0, both_closed = False, send_done = False, recv_done = False\<rparr>"

text \<open>The averages that the client reports, from the counters and the duration in nanoseconds.\<close>

definition duration_seconds :: "'f float_ops \<Rightarrow> int \<Rightarrow> 'f" where
  "duration_seconds F d =
     fadd F (fof F (d div 1000000000)) (fdiv F (fof F (d mod 1000000000)) (fof F 1000000000))"

definition throughput :: "'f float_ops \<Rightarrow> int \<Rightarrow> int \<Rightarrow> 'f" where
  "throughput F n duration =
     (if 0 \<le> duration \<and> fgt F (duration_seconds F duration) (fzero F)
      then fdiv F (fof F n) (duration_seconds F duration) else fzero F)"

definition ThroughputSend :: "'f float_ops \<Rightarrow> relay_state \<Rightarrow> int \<Rightarrow> 'f" where
  "ThroughputSend F s duration = throughput F (BytesSent s) duration"

definition ThroughputRecv :: "'f float_ops \<Rightarrow> relay_state \<Rightarrow> int \<Rightarrow> 'f" where
  "ThroughputRecv F s duration = throughput F (BytesRecv s) duration"

text \<open>The end of \<open>handleSOCKS5Client\<close>, when the relay has ended in the state \<open>s\<close> after \<open>duration\<close>.\<close>

definition report_throughput :: "'f float_ops \<Rightarrow> relay_state \<Rightarrow> int \<Rightarrow> ('t, 'f) client_app
    \<Rightarrow> (nat \<times> tstate) list \<times> ('t, 'f) client_app" where
  "report_throughput F s duration app =
     (if 1000000000 < duration \<and> fgt F (ThroughputRecv F s duration) (fzero F)
      then (case RecordThroughput F (ThroughputRecv F s duration) (app_det app) of
          (calls, d) \<Rightarrow> (calls, app\<lparr>app_det := d\<rparr>))
      else ([], app))"

text \<open>
  One iteration of the copy from left to right: a counted read of up to \<open>n\<close> bytes and the
  write of them (\<open>wok\<close>), or the end of the loop on an error, the end of the stream or a
  connection that \<open>closeAll\<close> has closed.
\<close>

definition copy_send :: "nat \<Rightarrow> bool \<Rightarrow> relay_state \<Rightarrow> relay_state" where
  "copy_send n wok s =
     (if send_done s then s
      else if both_closed s \<or> from_left s = [] then s\<lparr>send_done := True, both_closed := True\<rparr>
      else let d = take n (from_left s);
               s1 = s\<lparr>from_left := drop n (from_left s), BytesSent := wrap64 (BytesSent s + int (length d))\<rparr>
           in if wok then s1\<lparr>to_right := to_right s @ d\<rparr>
              else s1\<lparr>send_done := True, both_closed := True\<rparr>)"

definition copy_recv :: "nat \<Rightarrow> bool \<Rightarrow> relay_state \<Rightarrow> relay_state" where
  "copy_recv n wok s =
     (if recv_done s then s
      else if both_closed s \<or> from_right s = [] then s\<lparr>recv_done := True, both_closed := True\<rparr>
      else let d = take n (from_right s);
               s1 = s\<lparr>from_right := drop n (from_right s), BytesRecv := wrap64 (BytesRecv s + int (length d))\<rparr>
           in if wok then s1\<lparr>to_left := to_left s @ d\<rparr>
              else s1\<lparr>recv_done := True, both_closed := True\<rparr>)"

inductive relay_run :: "bytes \<Rightarrow> bytes \<Rightarrow> relay_state \<Rightarrow> bool" for l r where
  started: "relay_run l r (start_relay l r)"
| sent: "relay_run l r s \<Longrightarrow> relay_run l r (copy_send n wok s)"
| received: "relay_run l r s \<Longrightarrow> relay_run l r (copy_recv n wok s)"

definition relay_inv :: "bytes \<Rightarrow> bytes \<Rightarrow> relay_state \<Rightarrow> bool" where
  "relay_inv l r s \<longleftrightarrow>
     (\<exists>x. l = to_right s @ x @ from_left s \<and> BytesSent s = int (length (to_right s @ x)) \<and>
        (x \<noteq> [] \<longrightarrow> send_done s)) \<and>
     (\<exists>x. r = to_left s @ x @ from_right s \<and> BytesRecv s = int (length (to_left s @ x)) \<and>
        (x \<noteq> [] \<longrightarrow> recv_done s)) \<and>
     (send_done s \<or> recv_done s \<longrightarrow> both_closed s) \<and>
     (both_closed s \<longrightarrow> send_done s \<or> recv_done s)"

lemma take_part: "\<exists>x. xs = x @ drop n xs \<and> min (length xs) n = length x"
  by (rule exI [of _ "take n xs"]) simp

lemma copy_send_inv:
  assumes "relay_inv l r s" and "int (length l) < 2 ^ 63"
  shows "relay_inv l r (copy_send n wok s)"
proof (cases "send_done s \<or> both_closed s \<or> from_left s = []")
  case True
  with assms(1) show ?thesis by (auto simp: copy_send_def relay_inv_def)
next
  case False
  then obtain l1: "l = to_right s @ from_left s" "BytesSent s = int (length (to_right s))"
    using assms(1) by (auto simp: relay_inv_def)
  have "l = (to_right s @ take n (from_left s)) @ drop n (from_left s)" by (simp add: l1(1))
  moreover from this have "int (length (to_right s @ take n (from_left s))) < 2 ^ 63"
    using assms(2) by (metis length_append le_add1 of_nat_le_iff order_le_less_trans)
  then have "wrap64 (BytesSent s + int (length (take n (from_left s)))) =
      int (length (to_right s @ take n (from_left s)))"
    by (simp add: l1(2))
  ultimately show ?thesis
    using False assms(1) take_part [of "from_left s" n] unfolding relay_inv_def copy_send_def Let_def
    by (cases wok) auto
qed

lemma copy_recv_inv:
  assumes "relay_inv l r s" and "int (length r) < 2 ^ 63"
  shows "relay_inv l r (copy_recv n wok s)"
proof (cases "recv_done s \<or> both_closed s \<or> from_right s = []")
  case True
  with assms(1) show ?thesis by (auto simp: copy_recv_def relay_inv_def)
next
  case False
  then obtain l1: "r = to_left s @ from_right s" "BytesRecv s = int (length (to_left s))"
    using assms(1) by (auto simp: relay_inv_def)
  have "r = (to_left s @ take n (from_right s)) @ drop n (from_right s)" by (simp add: l1(1))
  moreover from this have "int (length (to_left s @ take n (from_right s))) < 2 ^ 63"
    using assms(2) by (metis length_append le_add1 of_nat_le_iff order_le_less_trans)
  then have "wrap64 (BytesRecv s + int (length (take n (from_right s)))) =
      int (length (to_left s @ take n (from_right s)))"
    by (simp add: l1(2))
  ultimately show ?thesis
    using False assms(1) take_part [of "from_right s" n] unfolding relay_inv_def copy_recv_def Let_def
    by (cases wok) auto
qed

lemma relay_run_inv:
  assumes "relay_run l r s" and "int (length l) < 2 ^ 63" and "int (length r) < 2 ^ 63"
  shows "relay_inv l r s"
  using assms(1)
proof (induction rule: relay_run.induct)
  case started
  then show ?case by (simp add: relay_inv_def start_relay_def)
qed (use assms copy_send_inv copy_recv_inv in blast)+

section \<open>Properties\<close>


text \<open>
  Requests the inbound does not serve. A well-formed SOCKS5 request with a command other
  than CONNECT is answered with reply 7, an unknown address type with reply 8, and another
  protocol version with no reply; in each case the handshake fails.
\<close>

theorem socks_refusals:
  assumes "length methods < 256" and "wlim c = None"
    and "inb c = socks_greeting methods @ [ver, cmd, 0, atyp] @ rest"
  shows "(ver \<noteq> socks5Version \<longrightarrow> fst (SOCKS5Handshake c) = Inl (SBadVersion ver) \<and>
       outb (snd (SOCKS5Handshake c)) = outb c @ [socks5Version, authNone]) \<and>
    (ver = socks5Version \<and> cmd \<noteq> cmdConnect \<longrightarrow> fst (SOCKS5Handshake c) = Inl (SCommand cmd) \<and>
       outb (snd (SOCKS5Handshake c)) =
         outb c @ [socks5Version, authNone] @ [5, 7, 0, 1, 0, 0, 0, 0, 0, 0]) \<and>
    (ver = socks5Version \<and> cmd = cmdConnect \<and> atyp \<notin> {atypIPv4, atypDomain, atypIPv6} \<longrightarrow>
       fst (SOCKS5Handshake c) = Inl (SAddrType atyp) \<and>
       outb (snd (SOCKS5Handshake c)) =
         outb c @ [socks5Version, authNone] @ [5, 8, 0, 1, 0, 0, 0, 0, 0, 0])"
  using socks_prefix [OF assms] assms(2)
  by (simp add: Let_def read_socks_addr_def sendSOCKS5Reply_def conn_write_def socks_consts)

text \<open>
  C39. The relay. At every moment each side has received a prefix of what the other side sent,
  the counters count exactly what was read (and, but for a last failed write, delivered), and
  as soon as one direction ends both connections are closed, so that the other loop ends with
  its next iteration; a relay that has not been closed has ended in neither direction.
\<close>

theorem relay_faithful:
  assumes "relay_run l r s" and "int (length l) < 2 ^ 63" and "int (length r) < 2 ^ 63"
  shows "(\<exists>x y. l = to_right s @ x @ y \<and> BytesSent s = int (length (to_right s @ x)) \<and> (\<not> send_done s \<longrightarrow> x = [])) \<and>
    (\<exists>x y. r = to_left s @ x @ y \<and> BytesRecv s = int (length (to_left s @ x)) \<and> (\<not> recv_done s \<longrightarrow> x = [])) \<and>
    (send_done s \<longrightarrow> recv_done (copy_recv n wok s)) \<and> (recv_done s \<longrightarrow> send_done (copy_send n wok s)) \<and>
    (both_closed s \<longleftrightarrow> send_done s \<or> recv_done s)"
proof -
  have I: "relay_inv l r s" using relay_run_inv [OF assms] .
  then have "both_closed s \<longleftrightarrow> send_done s \<or> recv_done s" by (auto simp: relay_inv_def)
  moreover have "both_closed s \<longrightarrow> recv_done (copy_recv n wok s) \<and> send_done (copy_send n wok s)"
    by (simp add: copy_recv_def copy_send_def)
  ultimately show ?thesis using I unfolding relay_inv_def by blast
qed

theorem relay_faithful_witness:
  "recv_done (copy_recv 1 True (copy_send 9 False (start_relay [1, 2] [3])))"
proof -
  have "relay_run [1, 2] [3] (copy_send 9 False (start_relay [1, 2] [3]))"
    by (intro relay_run.intros)
  from relay_faithful [OF this, of 1 True] show ?thesis by (simp add: copy_send_def start_relay_def)
qed

section \<open>Witnesses\<close>

lemma demo_socks_host:
  "host_ok (addr_host (SIPv4 [1, 2, 3, 4]))" "norm_host (addr_host (SIPv4 [1, 2, 3, 4])) = ''1.2.3.4''"
proof -
  have d: "addr_host (SIPv4 [1, 2, 3, 4]) = ''1.2.3.4''"
    by code_simp
  have p: "parseIPv4 ''1.2.3.4'' = Some [1, 2, 3, 4]"
    by code_simp
  show "host_ok (addr_host (SIPv4 [1, 2, 3, 4]))" unfolding d by (simp add: host_ok_def p)
  show "norm_host (addr_host (SIPv4 [1, 2, 3, 4])) = ''1.2.3.4''"
    unfolding d norm_host_def p using d by simp
qed


theorem socks_refusals_witness:
  "outb (snd (SOCKS5Handshake \<lparr>inb = socks_greeting [0] @ [5, 2, 0, 1] @ [], outb = [], wlim = None\<rparr>)) =
     [5, 0] @ [5, 7, 0, 1, 0, 0, 0, 0, 0, 0]"
  using socks_refusals [of "[0]" "\<lparr>inb = socks_greeting [0] @ [5, 2, 0, 1] @ [], outb = [], wlim = None\<rparr>" 5 2 1 "[]"]
  by (simp add: socks_consts)

end
