(* ===== verification/Padding.thy ===== *)
theory Padding
  imports Framing
begin

text \<open>
  Model of \<open>internal/middleware/padding\<close>: a connection whose every write becomes a frame with
  a random number of padding bytes, and whose reads give the data back. The inner connection
  is a \<open>conn\<close>; the random draws (the length and the bytes of the padding) are inputs.
\<close>

section \<open>Operations\<close>

definition padHeaderSize :: nat where "padHeaderSize = 4"

record padding_config =
  MinBytes :: int
  MaxBytes :: int

definition padding_New :: "padding_config \<Rightarrow> padding_config" where
  "padding_New cfg =
     (let cfg = (if MinBytes cfg < 0 then cfg\<lparr>MinBytes := 0\<rparr> else cfg)
      in if MaxBytes cfg < MinBytes cfg then cfg\<lparr>MaxBytes := MinBytes cfg\<rparr> else cfg)"

record padding_conn =
  inner :: conn
  pconfig :: padding_config
  rBuf :: bytes

definition padding_Wrap :: "padding_config \<Rightarrow> conn \<Rightarrow> padding_conn" where
  "padding_Wrap cfg c = \<lparr>inner = c, pconfig = cfg, rBuf = []\<rparr>"

definition randomPadLen :: "int \<Rightarrow> int \<Rightarrow> int \<Rightarrow> int" where
  "randomPadLen lo hi d = (if hi \<le> lo then lo else lo + d)"

interpretation padlen: ranged_choice randomPadLen "\<lambda>_ _. True"
  by unfold_locales (simp_all add: randomPadLen_def)

text \<open>The frame for \<open>data\<close> and the padding \<open>pad\<close>: both lengths are cut to 16 bits.\<close>

definition pad_frame :: "bytes \<Rightarrow> bytes \<Rightarrow> bytes" where
  "pad_frame data pad =
     le16 (word_of_nat (length data)) @ le16 (word_of_nat (length pad)) @ data @ pad"

definition pad_writeFrame :: "bytes \<Rightarrow> bytes \<Rightarrow> padding_conn \<Rightarrow> io_err option \<times> padding_conn" where
  "pad_writeFrame pad data c =
     (case conn_write (pad_frame data pad) (inner c) of (e, i) \<Rightarrow> (e, c\<lparr>inner := i\<rparr>))"

text \<open>
  \<open>Write\<close>: more than 65535 bytes are cut into frames of 65535; \<open>pads\<close> gives the padding of
  each frame by its offset. The result is the count and the error.
\<close>

function pad_write_loop :: "(nat \<Rightarrow> bytes) \<Rightarrow> bytes \<Rightarrow> nat \<Rightarrow> padding_conn
    \<Rightarrow> (int \<times> io_err option) \<times> padding_conn" where
  "pad_write_loop pads p written c =
     (if written < length p then
        (let e = (if length p < written + 65535 then length p else written + 65535) in
         case pad_writeFrame (pads written) (go_slice p written e) c of
           (Some err, c1) \<Rightarrow> ((int written, Some err), c1)
         | (None, c1) \<Rightarrow> pad_write_loop pads p e c1)
      else ((int (length p), None), c))"
  by pat_completeness auto
termination by (relation "measure (\<lambda>(pads, p, w, c). length p - w)") auto

declare pad_write_loop.simps [simp del]

definition pad_Write :: "(nat \<Rightarrow> bytes) \<Rightarrow> bytes \<Rightarrow> padding_conn
    \<Rightarrow> (int \<times> io_err option) \<times> padding_conn" where
  "pad_Write pads p c =
     (if 65535 < length p then pad_write_loop pads p 0 c
      else (case pad_writeFrame (pads 0) p c of (e, c1) \<Rightarrow> ((int (length p), e), c1)))"

datatype pad_err = ReadPaddingHeader io_err | ReadPaddedPayload io_err

definition pad_Read :: "nat \<Rightarrow> padding_conn \<Rightarrow> (pad_err + bytes) \<times> padding_conn" where
  "pad_Read n c =
     (if rBuf c \<noteq> [] then (Inr (take n (rBuf c)), c\<lparr>rBuf := drop n (rBuf c)\<rparr>)
      else case conn_read_full padHeaderSize (inner c) of
          (Inl e, i1) \<Rightarrow> (Inl (ReadPaddingHeader e), c\<lparr>inner := i1\<rparr>)
        | (Inr header, i1) \<Rightarrow>
            let realLen = unat (get_le16 (header ! 0) (header ! 1));
                padLen = unat (get_le16 (header ! 2) (header ! 3))
            in (case conn_read_full (realLen + padLen) i1 of
                  (Inl e, i2) \<Rightarrow> (Inl (ReadPaddedPayload e), c\<lparr>inner := i2\<rparr>)
                | (Inr buf, i2) \<Rightarrow>
                    let realData = take realLen buf
                    in (Inr (take n realData),
                        (if n < realLen then c\<lparr>inner := i2, rBuf := drop n realData\<rparr>
                         else c\<lparr>inner := i2\<rparr>))))"

section \<open>The frame as a wire format\<close>

definition pad_ok :: "bytes \<times> bytes \<Rightarrow> bool" where
  "pad_ok f \<longleftrightarrow> length (fst f) < 65536 \<and> length (snd f) < 65536"

definition pad_dec :: "bytes \<Rightarrow> (pad_err + bytes) \<times> bytes" where
  "pad_dec s =
     (case read_full padHeaderSize s of (Inl e, t) \<Rightarrow> (Inl (ReadPaddingHeader e), t)
      | (Inr h, t) \<Rightarrow>
          let realLen = unat (get_le16 (h ! 0) (h ! 1)); padLen = unat (get_le16 (h ! 2) (h ! 3))
          in (case read_full (realLen + padLen) t of (Inl e, u) \<Rightarrow> (Inl (ReadPaddedPayload e), u)
              | (Inr buf, u) \<Rightarrow> (Inr (take realLen buf), u)))"

lemma pad_dec_frame: "pad_ok f \<Longrightarrow> pad_dec (pad_frame (fst f) (snd f) @ rest) = (Inr (fst f), rest)"
proof -
  assume ok: "pad_ok f"
  let ?l = "word_of_nat (length (fst f)) :: u16" and ?p = "word_of_nat (length (snd f)) :: u16"
  have len: "unat ?l = length (fst f)" "unat ?p = length (snd f)"
    using ok by (simp_all add: pad_ok_def unat_u16_of_nat)
  let ?h = "le16 ?l @ le16 ?p"
  have r: "read_full 4 (?h @ fst f @ snd f @ rest) = (Inr ?h, fst f @ snd f @ rest)"
    by (rule read_full_append) simp
  have h: "get_le16 (?h ! 0) (?h ! 1) = ?l" "get_le16 (?h ! 2) (?h ! 3) = ?p"
    by (simp_all add: le16_def get_le16_le16 numeral_2_eq_2 numeral_3_eq_3)
  have b: "read_full (length (fst f) + length (snd f)) (fst f @ snd f @ rest) = (Inr (fst f @ snd f), rest)"
    using read_full_append [of "fst f @ snd f" _ rest] by simp
  show ?thesis
    unfolding pad_dec_def pad_frame_def padHeaderSize_def append_assoc
    unfolding append_assoc [symmetric, of "le16 ?l"] r by (simp only: prod.case sum.case h Let_def len b) simp
qed

interpretation pf: wire_codec "\<lambda>f. pad_frame (fst f) (snd f)" pad_dec pad_ok fst
  by unfold_locales (rule pad_dec_frame)

text \<open>\<open>Read\<close> in terms of the decoder of one frame.\<close>

lemma pad_Read_dec:
  assumes "rBuf c = []"
  shows "pad_Read n c = (case pad_dec (inb (inner c)) of
      (Inl e, s) \<Rightarrow> (Inl e, c\<lparr>inner := (inner c)\<lparr>inb := s\<rparr>\<rparr>)
    | (Inr d, s) \<Rightarrow> (Inr (take n d), c\<lparr>inner := (inner c)\<lparr>inb := s\<rparr>, rBuf := drop n d\<rparr>))"
proof -
  have e: "c\<lparr>inner := i\<rparr> = c\<lparr>inner := i, rBuf := []\<rparr>" for i using assms by simp
  show ?thesis
    using assms
    by (auto simp: pad_Read_def pad_dec_def conn_read_full_def Let_def read_full_Inr
        split: prod.splits sum.splits)
qed

section \<open>The reading side is a byte source\<close>

definition framed :: "bytes \<Rightarrow> bool" where
  "framed s \<longleftrightarrow> (\<exists>fs. list_all pad_ok fs \<and> s = concat (map (\<lambda>f. pad_frame (fst f) (snd f)) fs))"

function unpad :: "bytes \<Rightarrow> bytes" where
  "unpad s = (case pad_dec s of (Inl e, t) \<Rightarrow> []
     | (Inr d, t) \<Rightarrow> if length t < length s then d @ unpad t else [])"
  by pat_completeness auto
termination by (relation "measure length") auto

declare unpad.simps [simp del]

lemma length_pad_frame [simp]: "length (pad_frame d p) = 4 + length d + length p"
  by (simp add: pad_frame_def)

lemma unpad_frames:
  "list_all pad_ok fs \<Longrightarrow>
     unpad (concat (map (\<lambda>f. pad_frame (fst f) (snd f)) fs)) = concat (map fst fs)"
proof (induction fs)
  case Nil
  then show ?case by (simp add: unpad.simps pad_dec_def read_full_def padHeaderSize_def)
next
  case (Cons f fs)
  then show ?case by (subst unpad.simps) (simp add: pad_dec_frame)
qed

definition pad_content :: "padding_conn \<Rightarrow> bytes" where
  "pad_content c = rBuf c @ unpad (inb (inner c))"

definition pad_rd :: "nat \<Rightarrow> padding_conn \<Rightarrow> bytes option \<times> padding_conn" where
  "pad_rd n c = (case pad_Read n c of (Inl e, c') \<Rightarrow> (None, c') | (Inr d, c') \<Rightarrow> (Some d, c'))"

lemma pad_rd_step:
  assumes "framed (inb (inner c))" and "pad_rd n c = (r, c')"
  shows "framed (inb (inner c')) \<and>
    (case r of None \<Rightarrow> pad_content c' = pad_content c \<and> pad_content c = [] \<and> inb (inner c') = []
     | Some d \<Rightarrow> pad_content c = d @ pad_content c' \<and> length d \<le> n \<and>
        (0 < n \<longrightarrow> length (pad_content c') + length (inb (inner c')) < length (pad_content c) + length (inb (inner c))))"
proof (cases "rBuf c = []")
  case False
  have "0 < n \<longrightarrow> length (rBuf c) - n < length (rBuf c)" using False by auto
  then show ?thesis using assms False by (auto simp: pad_rd_def pad_Read_def pad_content_def)
next
  case True
  obtain fs where fs: "list_all pad_ok fs" "inb (inner c) = concat (map (\<lambda>f. pad_frame (fst f) (snd f)) fs)"
    using assms(1) by (auto simp: framed_def)
  show ?thesis
  proof (cases fs)
    case Nil
    then have "inb (inner c) = []" using fs by simp
    then show ?thesis using True assms
      by (auto simp: pad_rd_def pad_Read_dec pad_dec_def read_full_def padHeaderSize_def pad_content_def unpad.simps)
  next
    case (Cons f fs')
    let ?t = "concat (map (\<lambda>f. pad_frame (fst f) (snd f)) fs')"
    have ok: "pad_ok f" "list_all pad_ok fs'" using fs(1) Cons by simp_all
    have i: "inb (inner c) = pad_frame (fst f) (snd f) @ ?t" using fs(2) Cons by simp
    have "r = Some (take n (fst f))" "c' = c\<lparr>inner := (inner c)\<lparr>inb := ?t\<rparr>, rBuf := drop n (fst f)\<rparr>"
      using assms(2) True by (simp_all add: pad_rd_def pad_Read_dec i pad_dec_frame [OF ok(1)])
    moreover have "unpad (inb (inner c)) = fst f @ unpad ?t"
      using unpad_frames [OF fs(1)] unpad_frames [OF ok(2)] Cons fs(2) by simp
    moreover have "framed ?t" using ok(2) by (auto simp: framed_def)
    ultimately show ?thesis using True i by (auto simp: pad_content_def)
  qed
qed

interpretation pd: byte_source pad_rd pad_content "\<lambda>c. framed (inb (inner c))"
proof (unfold_locales, goal_cases)
  case (1 s n d s')
  then show ?case using pad_rd_step [of s n "Some d" s'] by simp
next
  case (2 s n s')
  then show ?case using pad_rd_step [of s n None s'] unfolding option.case by blast
qed

interpretation padr: draining_source pad_rd pad_content "\<lambda>c. framed (inb (inner c))" "\<lambda>_. True"
    "\<lambda>c. length (pad_content c) + length (inb (inner c))"
proof unfold_locales
  fix s n r s'
  assume "framed (inb (inner s))" "0 < n" "pad_rd n s = (r, s')"
  then show "True \<and> (if length (pad_content s) + length (inb (inner s)) = 0
      then length (pad_content s') + length (inb (inner s')) = 0
      else length (pad_content s') + length (inb (inner s')) < length (pad_content s) + length (inb (inner s)))"
    using pad_rd_step [of s n r s'] by (cases r) auto
qed simp

section \<open>Writing\<close>

text \<open>The frames \<open>Write\<close> produces for \<open>p\<close>.\<close>

function pad_pieces :: "(nat \<Rightarrow> bytes) \<Rightarrow> bytes \<Rightarrow> nat \<Rightarrow> (bytes \<times> bytes) list" where
  "pad_pieces pads p w =
     (if w < length p then
        (let e = (if length p < w + 65535 then length p else w + 65535)
         in (go_slice p w e, pads w) # pad_pieces pads p e)
      else [])"
  by pat_completeness auto
termination by (relation "measure (\<lambda>(pads, p, w). length p - w)") auto

declare pad_pieces.simps [simp del]

definition pad_frames_of :: "(nat \<Rightarrow> bytes) \<Rightarrow> bytes \<Rightarrow> (bytes \<times> bytes) list" where
  "pad_frames_of pads p = (if 65535 < length p then pad_pieces pads p 0 else [(p, pads 0)])"

lemma pad_pieces_data: "concat (map fst (pad_pieces pads p w)) = drop w p"
proof (induction pads p w rule: pad_pieces.induct)
  case (1 pads p w)
  show ?case
  proof (cases "w < length p")
    case True
    define e where "e = (if length p < w + 65535 then length p else w + 65535)"
    have "w \<le> e" using True by (simp add: e_def)
    then have "go_slice p w e @ drop e p = drop w p"
      by (metis append_take_drop_id drop_drop go_slice_def le_add_diff_inverse2)
    moreover have "concat (map fst (pad_pieces pads p e)) = drop e p"
      using "1.IH" [OF True refl] by (simp add: e_def)
    ultimately show ?thesis
      using True by (subst pad_pieces.simps) (simp add: e_def [symmetric])
  next
    case False
    then show ?thesis by (subst pad_pieces.simps) simp
  qed
qed

lemma pad_pieces_ok:
  "\<forall>i. length (pads i) < 65536 \<Longrightarrow> list_all pad_ok (pad_pieces pads p w)"
proof (induction pads p w rule: pad_pieces.induct)
  case (1 pads p w)
  show ?case
  proof (cases "w < length p")
    case True
    define e where "e = (if length p < w + 65535 then length p else w + 65535)"
    have "list_all pad_ok (pad_pieces pads p e)" using "1.IH" [OF True refl "1.prems"] by (simp add: e_def)
    moreover have "pad_ok (go_slice p w e, pads w)"
      using "1.prems" by (auto simp: pad_ok_def go_slice_def e_def)
    ultimately show ?thesis
      using True by (subst pad_pieces.simps) (simp add: e_def [symmetric])
  next
    case False
    then show ?thesis by (subst pad_pieces.simps) simp
  qed
qed

lemma pad_write_loop_free:
  assumes "wlim (inner c) = None"
  shows "pad_write_loop pads p w c = ((int (length p), None),
    c\<lparr>inner := (inner c)\<lparr>outb := outb (inner c) @
      concat (map (\<lambda>f. pad_frame (fst f) (snd f)) (pad_pieces pads p w))\<rparr>\<rparr>)"
  using assms
proof (induction pads p w c rule: pad_write_loop.induct)
  case (1 pads p w c)
  show ?case
  proof (cases "w < length p")
    case True
    define e where "e = (if length p < w + 65535 then length p else w + 65535)"
    define c1 where "c1 = c\<lparr>inner := (inner c)\<lparr>outb := outb (inner c) @ pad_frame (go_slice p w e) (pads w)\<rparr>\<rparr>"
    have w: "pad_writeFrame (pads w) (go_slice p w e) c = (None, c1)"
      using "1.prems" by (simp add: pad_writeFrame_def conn_write_def c1_def)
    have "wlim (inner c1) = None" using "1.prems" by (simp add: c1_def)
    then have IH: "pad_write_loop pads p e c1 = ((int (length p), None),
        c1\<lparr>inner := (inner c1)\<lparr>outb := outb (inner c1) @
          concat (map (\<lambda>f. pad_frame (fst f) (snd f)) (pad_pieces pads p e))\<rparr>\<rparr>)"
      using "1.IH" [OF True refl] w by (simp add: e_def)
    show ?thesis
      using True w IH
      by (subst pad_write_loop.simps, subst pad_pieces.simps) (simp add: e_def [symmetric] c1_def)
  next
    case False
    then show ?thesis by (subst pad_write_loop.simps, subst pad_pieces.simps) simp
  qed
qed

lemma pad_Write_free:
  assumes "wlim (inner c) = None"
  shows "pad_Write pads p c = ((int (length p), None),
    c\<lparr>inner := (inner c)\<lparr>outb := outb (inner c) @
      concat (map (\<lambda>f. pad_frame (fst f) (snd f)) (pad_frames_of pads p))\<rparr>\<rparr>)"
  using assms
  by (simp add: pad_Write_def pad_frames_of_def pad_write_loop_free pad_writeFrame_def conn_write_def)

fun pad_writes :: "((nat \<Rightarrow> bytes) \<times> bytes) list \<Rightarrow> padding_conn \<Rightarrow> padding_conn" where
  "pad_writes [] c = c"
| "pad_writes ((pads, p) # ws) c = pad_writes ws (snd (pad_Write pads p c))"

lemma pad_writes_free:
  "wlim (inner c) = None \<Longrightarrow> outb (inner (pad_writes ws c)) = outb (inner c) @
     concat (map (\<lambda>f. pad_frame (fst f) (snd f)) (concat (map (\<lambda>(pads, p). pad_frames_of pads p) ws)))"
  by (induction ws c rule: pad_writes.induct) (auto simp: pad_Write_free)

lemma pad_frames_data: "concat (map fst (pad_frames_of pads p)) = p"
  using pad_pieces_data [of pads p 0] by (simp add: pad_frames_of_def)

lemma pad_frames_ok: "\<forall>i. length (pads i) < 65536 \<Longrightarrow> list_all pad_ok (pad_frames_of pads p)"
  using pad_pieces_ok [of pads p 0] by (auto simp: pad_frames_of_def pad_ok_def)

section \<open>Properties\<close>

text \<open>
  C25. Padding is invisible. Any sequence of writes, with any padding below 64 KiB per frame,
  is read back on the other side as exactly the bytes written, whatever the sizes of the
  writes (also above the 65535 bytes of a frame) and of the reads.
\<close>

theorem padding_roundtrip:
  assumes "wlim (inner c) = None" and "outb (inner c) = []"
    and "\<forall>(pads, p) \<in> set ws. \<forall>i. length (pads i) < 65536"
    and "inb (inner d) = outb (inner (pad_writes ws c))" and "rBuf d = []"
    and "\<forall>n \<in> set ns. 0 < n"
    and "length (concat (map snd ws)) + length (inb (inner d)) \<le> length ns"
  shows "fst (pd.reads ns d) = concat (map snd ws)"
proof -
  let ?fs = "concat (map (\<lambda>(pads, p). pad_frames_of pads p) ws)"
  have i: "inb (inner d) = concat (map (\<lambda>f. pad_frame (fst f) (snd f)) ?fs)"
    using pad_writes_free [OF assms(1)] assms(2,4) by simp
  have ok: "list_all pad_ok ?fs" using assms(3) pad_frames_ok by (fastforce simp: list_all_iff)
  have "concat (map fst ?fs) = concat (map snd ws)"
    by (induction ws) (auto simp: pad_frames_data)
  then have content: "pad_content d = concat (map snd ws)"
    using unpad_frames [OF ok] i assms(5) by (simp add: pad_content_def)
  have "fst (pd.reads ns d) = pad_content d"
    by (rule padr.reads_all) (use ok i assms(6,7) content in \<open>auto simp: framed_def\<close>)
  with content show ?thesis by simp
qed

theorem padding_roundtrip_witness:
  "fst (pd.reads (replicate 30 2) (padding_Wrap \<lparr>MinBytes = 1, MaxBytes = 3\<rparr>
     \<lparr>inb = outb (inner (pad_writes [(\<lambda>_. [9], [1, 2, 3]), (\<lambda>_. [], [4])]
        (padding_Wrap \<lparr>MinBytes = 1, MaxBytes = 3\<rparr> \<lparr>inb = [], outb = [], wlim = None\<rparr>))),
      outb = [], wlim = None\<rparr>)) = [1, 2, 3, 4]"
proof -
  let ?c = "padding_Wrap \<lparr>MinBytes = 1, MaxBytes = 3\<rparr> \<lparr>inb = [], outb = [], wlim = None\<rparr>"
  let ?ws = "[(\<lambda>_. [9], [1, 2, 3]), (\<lambda>_. [], [4])] :: ((nat \<Rightarrow> bytes) \<times> bytes) list"
  let ?d = "padding_Wrap \<lparr>MinBytes = 1, MaxBytes = 3\<rparr>
     \<lparr>inb = outb (inner (pad_writes ?ws ?c)), outb = [], wlim = None\<rparr>"
  have "length (inb (inner ?d)) = 13"
    using pad_writes_free [of ?c ?ws] by (simp add: padding_Wrap_def pad_frames_of_def)
  then show ?thesis
    using padding_roundtrip [of ?c ?ws ?d "replicate 30 2"] by (simp add: padding_Wrap_def)
qed

text \<open>
  Padding of 64 KiB or more breaks the stream. When the configured maximum allows
  \<open>65536\<close> bytes of padding, the length in the header wraps to zero: the reader takes the data
  and leaves all of the padding in the stream, where it reads it as the next frame's header.
\<close>

theorem padding_overflow_desynchronises:
  assumes "length pad = 65536" and "length data < 65536" and "inb (inner c) = pad_frame data pad @ rest"
    and "rBuf c = []" and "length data \<le> n"
  shows "pad_Read n c = (Inr data, c\<lparr>inner := (inner c)\<lparr>inb := pad @ rest\<rparr>\<rparr>)"
proof -
  have "le16 65536 = le16 0" by (rule arg_cong [of _ _ le16]) simp
  then have "pad_frame data pad = pad_frame data [] @ pad" using assms(1) by (simp add: pad_frame_def)
  then have "pad_dec (inb (inner c)) = (Inr data, pad @ rest)"
    using pad_dec_frame [of "(data, [])" "pad @ rest"] assms(2,3) by (simp add: pad_ok_def)
  then show ?thesis using assms(4,5) by (simp add: pad_Read_dec)
qed

theorem padding_overflow_desynchronises_witness:
  "pad_Read 4 (padding_Wrap \<lparr>MinBytes = 65536, MaxBytes = 65536\<rparr>
     \<lparr>inb = pad_frame [1] (replicate 65536 0) @ [2], outb = [], wlim = None\<rparr>) =
   (Inr [1], padding_Wrap \<lparr>MinBytes = 65536, MaxBytes = 65536\<rparr>
     \<lparr>inb = replicate 65536 0 @ [2], outb = [], wlim = None\<rparr>)"
  using padding_overflow_desynchronises [of "replicate 65536 0" "[1]"
      "padding_Wrap \<lparr>MinBytes = 65536, MaxBytes = 65536\<rparr>
         \<lparr>inb = pad_frame [1] (replicate 65536 0) @ [2], outb = [], wlim = None\<rparr>" "[2]" 4]
  by (simp add: padding_Wrap_def del: replicate.simps)

end
