(* ===== verification/Middlewares.thy ===== *)
theory Middlewares
  imports Padding Http
begin

text \<open>
  Model of the other middlewares and of their composition: \<open>internal/middleware\<close>
  (middleware.go), jitter, shaping and the cover traffic generator. Delays are values in
  milliseconds; the random draws are inputs. Comparisons of 64-bit floats are parameters of
  the definitions that make them.
\<close>

section \<open>Random ranges\<close>

definition randRange :: "int \<Rightarrow> int \<Rightarrow> int \<Rightarrow> int" where
  "randRange lo hi d = (if hi \<le> lo then lo else lo + d)"

interpretation rr: ranged_choice randRange "\<lambda>_ _. True"
  by unfold_locales (simp_all add: randRange_def)

section \<open>jitter\<close>

record jitter_config =
  MinMs :: int
  MaxMs :: int
  WriteOnly :: bool

definition jitter_New :: "jitter_config \<Rightarrow> jitter_config" where
  "jitter_New cfg =
     (let cfg = (if MinMs cfg < 0 then cfg\<lparr>MinMs := 0\<rparr> else cfg)
      in if MaxMs cfg < MinMs cfg then cfg\<lparr>MaxMs := MinMs cfg\<rparr> else cfg)"

text \<open>How long \<open>delay\<close> sleeps for the draw \<open>d\<close>.\<close>

definition jitter_delay :: "jitter_config \<Rightarrow> int \<Rightarrow> int" where
  "jitter_delay cfg d =
     (if MaxMs cfg \<le> 0 then 0
      else let ms = (if MinMs cfg < MaxMs cfg then MinMs cfg + d else MinMs cfg)
           in if 0 < ms then ms else 0)"

definition jitter_write :: "jitter_config \<Rightarrow> int \<Rightarrow> bytes \<Rightarrow> conn \<Rightarrow> int \<times> io_err option \<times> conn" where
  "jitter_write cfg d p c = (jitter_delay cfg d, conn_write p c)"

definition jitter_read :: "jitter_config \<Rightarrow> int \<Rightarrow> nat \<Rightarrow> conn \<Rightarrow> int \<times> bytes \<times> conn" where
  "jitter_read cfg d n c =
     ((if WriteOnly cfg then 0 else jitter_delay cfg d), take n (inb c), c\<lparr>inb := drop n (inb c)\<rparr>)"

section \<open>shaping\<close>

datatype profile = ProfileBrowsing | ProfileStreaming | ProfileIdle | ProfileAuto | ProfileNone
  | ProfileUnset | ProfileOther string

record shaping_config =
  Profile :: profile
  BurstMinBytes :: int
  BurstMaxBytes :: int
  PauseMinMs :: int
  PauseMaxMs :: int
  RateBytesPerSec :: int
  AutoDetectWindow :: int

definition shaping_defaults :: "shaping_config \<Rightarrow> shaping_config" where
  "shaping_defaults c = c\<lparr>
     Profile := (if Profile c = ProfileUnset then ProfileNone else Profile c),
     BurstMinBytes := (if BurstMinBytes c \<le> 0 then 4096 else BurstMinBytes c),
     BurstMaxBytes := (if BurstMaxBytes c \<le> (if BurstMinBytes c \<le> 0 then 4096 else BurstMinBytes c)
                       then 65536 else BurstMaxBytes c),
     PauseMinMs := (if PauseMinMs c \<le> 0 then 100 else PauseMinMs c),
     PauseMaxMs := (if PauseMaxMs c \<le> (if PauseMinMs c \<le> 0 then 100 else PauseMinMs c)
                    then 2000 else PauseMaxMs c),
     RateBytesPerSec := (if RateBytesPerSec c \<le> 0 then 500 * 1024 else RateBytesPerSec c),
     AutoDetectWindow := (if AutoDetectWindow c \<le> 0 then 5 * 1000000000 else AutoDetectWindow c)\<rparr>"

record shaping_conn =
  sconfig :: shaping_config
  totalRead :: int
  totalWritten :: int
  burstBytes :: int
  lastBurst :: int

text \<open>\<open>None\<close> is the pass-through of the profile none.\<close>

definition shaping_Wrap :: "shaping_config \<Rightarrow> shaping_conn option" where
  "shaping_Wrap cfg =
     (if Profile cfg = ProfileNone then None
      else Some \<lparr>sconfig = cfg, totalRead = 0, totalWritten = 0, burstBytes = 0, lastBurst = 0\<rparr>)"

text \<open>\<open>gt09 r t\<close> is the comparison \<open>float64(r) / float64(t) > 0.9\<close>.\<close>

definition getProfile :: "(int \<Rightarrow> int \<Rightarrow> bool) \<Rightarrow> shaping_conn \<Rightarrow> profile" where
  "getProfile gt09 c =
     (if Profile (sconfig c) \<noteq> ProfileAuto then Profile (sconfig c)
      else let total = wrap64 (totalRead c + totalWritten c) in
        if total < 1024 then ProfileIdle
        else if gt09 (totalRead c) total then ProfileStreaming
        else ProfileBrowsing)"

text \<open>
  One \<open>Write\<close>: the sleep before it, and the state; the bytes go to the inner connection as
  they are.
\<close>

definition shaping_write :: "(int \<Rightarrow> int \<Rightarrow> bool) \<Rightarrow> int \<Rightarrow> bytes \<Rightarrow> shaping_conn \<Rightarrow> int \<times> shaping_conn" where
  "shaping_write gt09 d p c =
     (let c1 = c\<lparr>totalWritten := wrap64 (totalWritten c + int (length p))\<rparr>
      in ((if getProfile gt09 c1 = ProfileIdle then randRange 500 2000 d else 0), c1))"

text \<open>
  One \<open>Read\<close> in which the inner connection returns \<open>data\<close>: the sleeps, the data handed to
  the caller, and the state. \<open>stream_ms n r\<close> is the truncated \<open>float64(n) / float64(r) * 1000\<close>
  when it exceeds one, else zero.
\<close>

definition shaping_read :: "(int \<Rightarrow> int \<Rightarrow> bool) \<Rightarrow> (int \<Rightarrow> int \<Rightarrow> int) \<Rightarrow> int \<Rightarrow> int \<Rightarrow> bytes
    \<Rightarrow> shaping_conn \<Rightarrow> int \<times> bytes \<times> shaping_conn" where
  "shaping_read gt09 stream_ms now d data c =
     (let n = int (length data) in
      case getProfile gt09 c of
        ProfileBrowsing \<Rightarrow>
          (let full = BurstMaxBytes (sconfig c) \<le> burstBytes c;
               pause = (if full then randRange (PauseMinMs (sconfig c)) (PauseMaxMs (sconfig c)) d else 0);
               c1 = (if full then c\<lparr>burstBytes := 0, lastBurst := now\<rparr> else c)
           in (pause, data, if 0 < n then c1\<lparr>burstBytes := wrap64 (burstBytes c1 + n),
                                             totalRead := wrap64 (totalRead c1 + n)\<rparr> else c1))
      | ProfileStreaming \<Rightarrow>
          ((if 0 < n then stream_ms n (RateBytesPerSec (sconfig c)) else 0), data,
           if 0 < n then c\<lparr>totalRead := wrap64 (totalRead c + n)\<rparr> else c)
      | ProfileIdle \<Rightarrow> (randRange 1000 5000 d, data, c)
      | _ \<Rightarrow> (0, data, c))"

fun shaping_reads :: "(int \<Rightarrow> int \<Rightarrow> bool) \<Rightarrow> (int \<Rightarrow> int \<Rightarrow> int) \<Rightarrow> (int \<times> int \<times> bytes) list
    \<Rightarrow> shaping_conn \<Rightarrow> int list \<times> bytes \<times> shaping_conn" where
  "shaping_reads gt09 sm [] c = ([], [], c)"
| "shaping_reads gt09 sm ((now, d, data) # rs) c =
     (let (pause, out, c1) = shaping_read gt09 sm now d data c;
          (pauses, outs, c2) = shaping_reads gt09 sm rs c1
      in (pause # pauses, out @ outs, c2))"

section \<open>cover\<close>

record cover_config =
  Enabled :: bool
  Endpoints :: "string list"
  IntervalMinMs :: int
  IntervalMaxMs :: int
  PayloadMinBytes :: int
  PayloadMaxBytes :: int

definition cover_defaults :: "cover_config \<Rightarrow> cover_config" where
  "cover_defaults c = c\<lparr>
     Endpoints := (if Endpoints c = [] then
            [''https://www.google.com/gen_204'', ''https://cp.cloudflare.com/'',
             ''https://detectportal.firefox.com/success.txt'', ''https://www.gstatic.com/generate_204'',
             ''https://connectivity-check.ubuntu.com/''] else Endpoints c),
     IntervalMinMs := (if IntervalMinMs c \<le> 0 then 2000 else IntervalMinMs c),
     IntervalMaxMs := (if IntervalMaxMs c \<le> (if IntervalMinMs c \<le> 0 then 2000 else IntervalMinMs c)
                       then 10000 else IntervalMaxMs c),
     PayloadMinBytes := (if PayloadMinBytes c \<le> 0 then 100 else PayloadMinBytes c),
     PayloadMaxBytes := (if PayloadMaxBytes c \<le> (if PayloadMinBytes c \<le> 0 then 100 else PayloadMinBytes c)
                         then 2000 else PayloadMaxBytes c)\<rparr>"

record cover_generator =
  gconfig :: cover_config
  running :: bool
  cancelled :: bool
  RequestsSent :: int
  CoverBytesSent :: int
  CoverErrors :: int

definition NewGenerator :: "cover_config \<Rightarrow> cover_generator" where
  "NewGenerator cfg = \<lparr>gconfig = cover_defaults cfg, running = False, cancelled = False,
     RequestsSent = 0, CoverBytesSent = 0, CoverErrors = 0\<rparr>"

definition cover_Start :: "cover_generator \<Rightarrow> cover_generator" where
  "cover_Start g = (if \<not> Enabled (gconfig g) then g else g\<lparr>running := True\<rparr>)"

definition cover_Stop :: "cover_generator \<Rightarrow> cover_generator" where
  "cover_Stop g = g\<lparr>cancelled := True\<rparr>"

definition GetStats :: "cover_generator \<Rightarrow> int \<times> int \<times> int" where
  "GetStats g = (RequestsSent g, CoverBytesSent g, CoverErrors g)"

text \<open>
  One request: the two draws choose endpoint and method; \<open>url_ok\<close> says whether the URL
  parses and \<open>resp\<close> is the length of the response body, \<open>None\<close> when the request fails. An
  index out of range would be a panic, the outer \<open>None\<close>.
\<close>

definition sendCoverRequest :: "int \<Rightarrow> int \<Rightarrow> (string \<Rightarrow> bool) \<Rightarrow> nat option \<Rightarrow> cover_generator
    \<Rightarrow> ((string \<times> string) option \<times> cover_generator) option" where
  "sendCoverRequest d1 d2 url_ok resp g =
     (let idx = randRange 0 (int (length (Endpoints (gconfig g))) - 1) d1 in
      if idx < 0 \<or> int (length (Endpoints (gconfig g))) \<le> idx then None
      else let endpoint = Endpoints (gconfig g) ! nat idx;
               meth = (if randRange 0 9 d2 < 3 then ''HEAD'' else ''GET'')
           in if \<not> url_ok endpoint then Some (None, g\<lparr>CoverErrors := CoverErrors g + 1\<rparr>)
              else case resp of
                None \<Rightarrow> Some (Some (meth, endpoint), g\<lparr>CoverErrors := CoverErrors g + 1\<rparr>)
              | Some n \<Rightarrow> Some (Some (meth, endpoint),
                  g\<lparr>RequestsSent := RequestsSent g + 1, CoverBytesSent := CoverBytesSent g + int n\<rparr>))"

text \<open>One turn of the loop: the wait it chooses, and the request unless it was cancelled.\<close>

definition cover_loop_step :: "int \<Rightarrow> int \<Rightarrow> int \<Rightarrow> (string \<Rightarrow> bool) \<Rightarrow> nat option \<Rightarrow> cover_generator
    \<Rightarrow> (int \<times> cover_generator) option" where
  "cover_loop_step d d1 d2 url_ok resp g =
     (let delay = randRange (IntervalMinMs (gconfig g)) (IntervalMaxMs (gconfig g)) d in
      if cancelled g \<or> \<not> running g then Some (delay, g\<lparr>running := False\<rparr>)
      else case sendCoverRequest d1 d2 url_ok resp g of None \<Rightarrow> None
           | Some (_, g') \<Rightarrow> Some (delay, g'))"

section \<open>Chains\<close>

text \<open>
  A wrapped connection as its layers, outermost first; only the padding layer changes bytes.
  \<open>pads\<close> gives the padding by the number of layers below and the data.
\<close>

datatype layer = LPadding padding_config | LJitter jitter_config | LShaping shaping_config

definition layer_Wrap :: "layer \<Rightarrow> layer list \<Rightarrow> layer list" where
  "layer_Wrap m c = (case m of
       LShaping cfg \<Rightarrow> if Profile cfg = ProfileNone then c else m # c
     | _ \<Rightarrow> m # c)"

definition Chain_Wrap :: "layer list \<Rightarrow> layer list \<Rightarrow> layer list" where
  "Chain_Wrap chain conn = fold layer_Wrap chain conn"

text \<open>The writes that reach the innermost connection.\<close>

fun stack_write :: "(nat \<Rightarrow> bytes \<Rightarrow> bytes) \<Rightarrow> layer list \<Rightarrow> bytes \<Rightarrow> bytes list" where
  "stack_write pads [] p = [p]"
| "stack_write pads (LPadding cfg # ls) p =
     concat (map (\<lambda>f. stack_write pads ls (pad_frame (fst f) (snd f)))
       (pad_frames_of (\<lambda>i. pads (length ls) (drop i p)) p))"
| "stack_write pads (LJitter cfg # ls) p = stack_write pads ls p"
| "stack_write pads (LShaping cfg # ls) p = stack_write pads ls p"

section \<open>Properties\<close>

text \<open>
  The chain is applied from the right on a write. Wrapping with \<open>[m1, m2]\<close> makes \<open>m2\<close> the
  outermost layer: a write passes the last middleware of the chain first, and what the wire
  sees is the first one's framing around the second one's.
\<close>

theorem chain_last_writes_first:
  assumes "length p \<le> 65535"
    and "length (pad_frame p (pads 1 p)) \<le> 65535"
  shows "Chain_Wrap (ms @ [m]) conn = layer_Wrap m (Chain_Wrap ms conn) \<and>
    stack_write pads (Chain_Wrap [LPadding a, LPadding b] []) p =
      [pad_frame (pad_frame p (pads 1 p)) (pads 0 (pad_frame p (pads 1 p)))]"
  using assms by (simp add: Chain_Wrap_def layer_Wrap_def pad_frames_of_def)

theorem chain_last_writes_first_witness:
  "stack_write (\<lambda>i d. [of_nat i]) (Chain_Wrap [LPadding \<lparr>MinBytes = 0, MaxBytes = 9\<rparr>, LPadding \<lparr>MinBytes = 0, MaxBytes = 9\<rparr>] []) [7] =
     [pad_frame (pad_frame [7] [1]) [0]]"
  using chain_last_writes_first [of "[7]" "\<lambda>i d. [of_nat i]" "[]" "LPadding \<lparr>MinBytes = 0, MaxBytes = 9\<rparr>" "[]" "\<lparr>MinBytes = 0, MaxBytes = 9\<rparr>" "\<lparr>MinBytes = 0, MaxBytes = 9\<rparr>"] by simp

text \<open>
  Delays stay in the configured range. With a configuration made by \<open>New\<close> every delay of
  the jitter middleware lies between its minimum and its maximum, every value of the range can
  occur, and reads are delayed unless the middleware is write-only.
\<close>

theorem jitter_in_range:
  assumes "cfg = jitter_New c" and "0 \<le> d" and "d \<le> MaxMs cfg - MinMs cfg"
  shows "MinMs cfg \<le> jitter_delay cfg d \<and> jitter_delay cfg d \<le> MaxMs cfg \<and>
    (\<forall>x. MinMs cfg \<le> x \<and> x \<le> MaxMs cfg \<longrightarrow> (\<exists>e. 0 \<le> e \<and> e \<le> MaxMs cfg - MinMs cfg \<and> jitter_delay cfg e = x)) \<and>
    fst (jitter_read cfg d n b) = (if WriteOnly cfg then 0 else jitter_delay cfg d)"
proof -
  have c: "0 \<le> MinMs cfg" "MinMs cfg \<le> MaxMs cfg" using assms(1) by (auto simp: jitter_New_def Let_def)
  have eq: "jitter_delay cfg e = MinMs cfg + e" if "0 \<le> e" "e \<le> MaxMs cfg - MinMs cfg" for e
    using c that by (auto simp: jitter_delay_def Let_def)
  have "\<exists>e. 0 \<le> e \<and> e \<le> MaxMs cfg - MinMs cfg \<and> jitter_delay cfg e = x"
    if "MinMs cfg \<le> x" "x \<le> MaxMs cfg" for x
    using that eq [of "x - MinMs cfg"] by (intro exI [of _ "x - MinMs cfg"]) auto
  with eq [OF assms(2,3)] assms(2,3) c show ?thesis by (simp add: jitter_read_def)
qed

theorem jitter_in_range_witness:
  "jitter_delay (jitter_New \<lparr>MinMs = 20, MaxMs = 80, WriteOnly = False\<rparr>) 60 \<le> 80"
  using jitter_in_range [of "jitter_New \<lparr>MinMs = 20, MaxMs = 80, WriteOnly = False\<rparr>"
      "\<lparr>MinMs = 20, MaxMs = 80, WriteOnly = False\<rparr>" 60]
  by (simp add: jitter_New_def)

lemma auto_idle_read:
  assumes "Profile (sconfig c) = ProfileAuto" and "wrap64 (totalRead c + totalWritten c) < 1024"
  shows "shaping_read gt09 sm now d data c = (randRange 1000 5000 d, data, c)"
  using assms by (simp add: shaping_read_def getProfile_def)

lemma auto_idle_reads:
  assumes "Profile (sconfig c) = ProfileAuto" and "wrap64 (totalRead c + totalWritten c) < 1024"
    and "\<forall>(now, d, data) \<in> set rs. 0 \<le> d \<and> d \<le> 4000"
  shows "\<exists>pauses. shaping_reads gt09 sm rs c = (pauses, concat (map (\<lambda>r. snd (snd r)) rs), c) \<and>
    length pauses = length rs \<and> (\<forall>x \<in> set pauses. 1000 \<le> x)"
  using assms(3)
proof (induction rs)
  case Nil
  then show ?case by simp
next
  case (Cons r rs)
  obtain now d data where r: "r = (now, d, data)" by (cases r) auto
  obtain ps where ps: "shaping_reads gt09 sm rs c = (ps, concat (map (\<lambda>r. snd (snd r)) rs), c)"
    "length ps = length rs" "\<forall>x \<in> set ps. 1000 \<le> x" using Cons by auto
  have "1000 \<le> randRange 1000 5000 d"
    using rr.in_range [of 1000 5000 d] Cons.prems by (simp add: rr.draw_ok_def r)
  with ps auto_idle_read [OF assms(1,2)] show ?case by (simp add: r)
qed

text \<open>
  Automatic shaping cannot leave the idle profile by reading. While fewer than 1024 bytes
  have been counted, a connection with the automatic profile is idle, and idle reads are not
  counted: a download of any length stays idle and sleeps at least a second before every read.
\<close>

theorem auto_profile_stays_idle:
  assumes "Profile (sconfig c) = ProfileAuto" and "0 \<le> totalRead c" and "0 \<le> totalWritten c"
    and "totalRead c + totalWritten c < 1024"
    and "\<forall>(now, d, data) \<in> set rs. 0 \<le> d \<and> d \<le> 4000"
  shows "\<exists>pauses. shaping_reads gt09 sm rs c = (pauses, concat (map (\<lambda>r. snd (snd r)) rs), c) \<and>
    length pauses = length rs \<and> (\<forall>x \<in> set pauses. 1000 \<le> x) \<and> getProfile gt09 c = ProfileIdle"
  using auto_idle_reads [OF assms(1) _ assms(5), of gt09 sm] assms(1-4)
  by (auto simp: getProfile_def)

theorem auto_profile_stays_idle_witness:
  "\<exists>pauses c. shaping_reads (\<lambda>_ _. True) (\<lambda>_ _. 0) (replicate 3 (0, 5, [1, 2]))
     (the (shaping_Wrap (shaping_defaults \<lparr>Profile = ProfileAuto, BurstMinBytes = 0, BurstMaxBytes = 0,
        PauseMinMs = 0, PauseMaxMs = 0, RateBytesPerSec = 0, AutoDetectWindow = 0\<rparr>))) =
     (pauses, [1, 2, 1, 2, 1, 2], c) \<and> (\<forall>x \<in> set pauses. 1000 \<le> x)"
  using auto_profile_stays_idle [of "the (shaping_Wrap (shaping_defaults \<lparr>Profile = ProfileAuto,
        BurstMinBytes = 0, BurstMaxBytes = 0, PauseMinMs = 0, PauseMaxMs = 0, RateBytesPerSec = 0,
        AutoDetectWindow = 0\<rparr>))" "replicate 3 (0, 5, [1, 2])" "\<lambda>_ _. True" "\<lambda>_ _. 0"]
  by (auto simp: shaping_Wrap_def shaping_defaults_def numeral_3_eq_3)

text \<open>
  Cover traffic never indexes out of range: for every generator made by \<open>NewGenerator\<close>,
  also from a configuration without endpoints, and all draws of the random source, a request
  goes to one of the configured endpoints with method GET or HEAD.
\<close>

theorem cover_endpoint_valid:
  assumes "g = NewGenerator cfg" and "0 \<le> d1" and "d1 < int (length (Endpoints (gconfig g)))"
    and "0 \<le> d2" and "d2 \<le> 9"
  shows "\<exists>req g'. sendCoverRequest d1 d2 url_ok resp g = Some (req, g') \<and>
    (\<forall>m e. req = Some (m, e) \<longrightarrow> e \<in> set (Endpoints (gconfig g)) \<and> m \<in> {''GET'', ''HEAD''}) \<and>
    RequestsSent g' + CoverErrors g' = 1"
proof -
  let ?n = "int (length (Endpoints (gconfig g)))"
  have "Endpoints (gconfig g) \<noteq> []" using assms(1) by (simp add: NewGenerator_def cover_defaults_def Let_def)
  then have n: "0 < ?n" by simp
  then have "0 \<le> randRange 0 (?n - 1) d1 \<and> randRange 0 (?n - 1) d1 < ?n"
    using rr.in_range [of 0 "?n - 1" d1] assms(2,3) by (auto simp: rr.draw_ok_def max_def split: if_splits)
  moreover from this have "Endpoints (gconfig g) ! nat (randRange 0 (?n - 1) d1) \<in> set (Endpoints (gconfig g))"
    by (simp add: nat_less_iff)
  moreover have "RequestsSent g = 0" "CoverErrors g = 0" using assms(1) by (simp_all add: NewGenerator_def)
  ultimately show ?thesis
    by (simp add: sendCoverRequest_def Let_def split: option.split)
qed

theorem cover_endpoint_valid_witness:
  "\<exists>req g'. sendCoverRequest 2 1 (\<lambda>_. True) (Some 10) (NewGenerator \<lparr>Enabled = True, Endpoints = [],
     IntervalMinMs = 0, IntervalMaxMs = 0, PayloadMinBytes = 0, PayloadMaxBytes = 0\<rparr>) = Some (req, g')"
  using cover_endpoint_valid [OF refl, of 2 "\<lparr>Enabled = True, Endpoints = [],
     IntervalMinMs = 0, IntervalMaxMs = 0, PayloadMinBytes = 0, PayloadMaxBytes = 0\<rparr>" 1 "\<lambda>_. True" "Some 10"]
  by (auto simp: NewGenerator_def cover_defaults_def)

end
