(* ===== verification/Neturl.thy ===== *)
theory Neturl
  imports Strconv "HOL-Library.List_Lexorder" "HOL-Library.Char_ord"
begin

text \<open>
  The parts of \<open>net/url\<close> that the import links use: escaping and unescaping, \<open>Values.Encode\<close>
  and \<open>Query().Get\<close>, and \<open>Parse\<close> of an absolute URL with its user, host, port and
  fragment. A string is the list of its bytes. \<open>None\<close> is an error.
\<close>

section \<open>Escaping\<close>

datatype url_mode = EncodePath | EncodePathSegment | EncodeHost | EncodeZone | EncodeUserPassword
  | EncodeQueryComponent | EncodeFragment

definition is_alnum :: "char \<Rightarrow> bool" where
  "is_alnum c = (let n = (of_char c :: nat) in
     48 \<le> n \<and> n \<le> 57 \<or> 65 \<le> n \<and> n \<le> 90 \<or> 97 \<le> n \<and> n \<le> 122)"

definition shouldEscape :: "char \<Rightarrow> url_mode \<Rightarrow> bool" where
  "shouldEscape c mode =
     (if is_alnum c then False
      else if (mode = EncodeHost \<or> mode = EncodeZone) \<and> c \<in> set ''!$&'' \<union> {CHR 0x27, CHR 0x22} \<union> set ''()*+,;=:[]<>'' then False
      else if c \<in> set ''-_.~'' then False
      else if c \<in> set ''$&+,/:;=?@'' \<and> mode = EncodePath then c = CHR ''?''
      else if c \<in> set ''$&+,/:;=?@'' \<and> mode = EncodePathSegment then c \<in> set ''/;,?''
      else if c \<in> set ''$&+,/:;=?@'' \<and> mode = EncodeUserPassword then c \<in> set ''@/?:''
      else if c \<in> set ''$&+,/:;=?@'' \<and> mode = EncodeQueryComponent then True
      else if c \<in> set ''$&+,/:;=?@'' \<and> mode = EncodeFragment then False
      else \<not> (mode = EncodeFragment \<and> c \<in> set ''!()*''))"

definition hex_upper :: "nat \<Rightarrow> char" where
  "hex_upper d = (if d < 10 then char_of (48 + d) else char_of (55 + d))"

definition escape_char :: "url_mode \<Rightarrow> char \<Rightarrow> string" where
  "escape_char mode c =
     (if c = CHR '' '' \<and> mode = EncodeQueryComponent then ''+''
      else if shouldEscape c mode then
        [CHR ''%'', hex_upper (of_char c div 16), hex_upper (of_char c mod 16)]
      else [c])"

definition escape :: "url_mode \<Rightarrow> string \<Rightarrow> string" where
  "escape mode s = concat (map (escape_char mode) s)"

fun unescape :: "url_mode \<Rightarrow> string \<Rightarrow> string option" where
  "unescape mode [] = Some []"
| "unescape mode (c # s) =
     (if c = CHR ''%'' then
        (case s of
           h # l # s' \<Rightarrow>
             (case (hex_val h, hex_val l) of
                (Some x, Some y) \<Rightarrow>
                  if mode = EncodeHost \<and> x < 8 \<and> [h, l] \<noteq> ''25'' then None
                  else if mode = EncodeZone \<and> [h, l] \<noteq> ''25'' \<and> 16 * x + y \<noteq> 32
                    \<and> shouldEscape (char_of (16 * x + y)) EncodeHost then None
                  else map_option ((#) (char_of (16 * x + y))) (unescape mode s')
              | _ \<Rightarrow> None)
         | _ \<Rightarrow> None)
      else if c = CHR ''+'' then map_option ((#) (if mode = EncodeQueryComponent then CHR '' '' else c)) (unescape mode s)
      else if (mode = EncodeHost \<or> mode = EncodeZone) \<and> of_char c < (128 :: nat) \<and> shouldEscape c mode then None
      else map_option ((#) c) (unescape mode s))"

abbreviation "QueryEscape \<equiv> escape EncodeQueryComponent"
abbreviation "QueryUnescape \<equiv> unescape EncodeQueryComponent"
abbreviation "PathEscape \<equiv> escape EncodePathSegment"
abbreviation "PathUnescape \<equiv> unescape EncodePathSegment"

section \<open>Values\<close>

type_synonym url_values = "(string \<times> string) list"

definition values_set :: "string \<Rightarrow> string \<Rightarrow> url_values \<Rightarrow> url_values" where
  "values_set k v m = AList.update k v m"

fun amp_join :: "string list \<Rightarrow> string" where
  "amp_join [] = ''''"
| "amp_join [s] = s"
| "amp_join (s # t # ss) = s @ CHR ''&'' # amp_join (t # ss)"

definition values_Encode :: "url_values \<Rightarrow> string" where
  "values_Encode m = amp_join (map (\<lambda>(k, v). QueryEscape k @ CHR ''='' # QueryEscape v) (sort_key fst m))"

text \<open>\<open>strings.Cut\<close> at a character.\<close>

definition cut :: "char \<Rightarrow> string \<Rightarrow> string \<times> string" where
  "cut c s = (takeWhile (\<lambda>x. x \<noteq> c) s, drop 1 (dropWhile (\<lambda>x. x \<noteq> c) s))"

fun split_amp :: "string \<Rightarrow> string list" where
  "split_amp [] = [[]]"
| "split_amp (c # s) = (if c = CHR ''&'' then [] # split_amp s
     else case split_amp s of [] \<Rightarrow> [[c]] | t # ts \<Rightarrow> (c # t) # ts)"

definition query_pair :: "string \<Rightarrow> (string \<times> string) option" where
  "query_pair p =
     (if CHR '';'' \<in> set p \<or> p = '''' then None
      else case cut CHR ''='' p of (k, v) \<Rightarrow>
        (case (QueryUnescape k, QueryUnescape v) of (Some k', Some v') \<Rightarrow> Some (k', v') | _ \<Rightarrow> None))"

text \<open>\<open>Query\<close>: the pairs in order; what cannot be parsed is left out.\<close>

definition parse_query :: "string \<Rightarrow> url_values" where
  "parse_query q = List.map_filter query_pair (split_amp q)"

definition values_Get :: "url_values \<Rightarrow> string \<Rightarrow> string" where
  "values_Get m k = (case map_of m k of None \<Rightarrow> '''' | Some v \<Rightarrow> v)"

section \<open>Parse\<close>

record url =
  u_user :: string
  u_host :: string
  u_query :: string
  u_fragment :: string

definition validUserinfo :: "string \<Rightarrow> bool" where
  "validUserinfo s = list_all (\<lambda>c. is_alnum c \<or> c \<in> insert CHR 0x27 (set ''-._:~!$&()*+,;=%@'')) s"

text \<open>The last occurrence of a character: what is before it, and what is from it on.\<close>

definition before_last :: "char \<Rightarrow> string \<Rightarrow> string" where
  "before_last c s = take (length s - 1 - length (takeWhile (\<lambda>x. x \<noteq> c) (rev s))) s"

definition from_last :: "char \<Rightarrow> string \<Rightarrow> string" where
  "from_last c s = drop (length s - 1 - length (takeWhile (\<lambda>x. x \<noteq> c) (rev s))) s"

definition validOptionalPort :: "string \<Rightarrow> bool" where
  "validOptionalPort p = (p = '''' \<or> hd p = CHR '':'' \<and> list_all is_digit (tl p))"

text \<open>The position of the zone separator \<open>%25\<close>.\<close>

fun zone_index :: "string \<Rightarrow> nat option" where
  "zone_index [] = None"
| "zone_index (c # s) = (if take 3 (c # s) = ''%25'' then Some 0 else map_option Suc (zone_index s))"

definition parseHost :: "string \<Rightarrow> string option" where
  "parseHost h =
     (if h \<noteq> '''' \<and> hd h = CHR ''['' then
        (if CHR '']'' \<notin> set h \<or> \<not> validOptionalPort (tl (from_last CHR '']'' h)) then None
         else case zone_index (before_last CHR '']'' h) of
             None \<Rightarrow> unescape EncodeHost h
           | Some z \<Rightarrow>
               let i = length (before_last CHR '']'' h) in
               (case (unescape EncodeHost (take z h), unescape EncodeZone (take (i - z) (drop z h)),
                      unescape EncodeHost (drop i h)) of
                  (Some a, Some b, Some c) \<Rightarrow> Some (a @ b @ c)
                | _ \<Rightarrow> None))
      else if CHR '':'' \<in> set h \<and> \<not> validOptionalPort (from_last CHR '':'' h) then None
      else unescape EncodeHost h)"

definition parseUser :: "string \<Rightarrow> string option" where
  "parseUser s =
     (if \<not> validUserinfo s then None
      else if CHR '':'' \<notin> set s then unescape EncodeUserPassword s
      else case cut CHR '':'' s of (n, p) \<Rightarrow>
        (case (unescape EncodeUserPassword n, unescape EncodeUserPassword p) of
           (Some n', Some p') \<Rightarrow> Some n' | _ \<Rightarrow> None))"

definition parseAuthority :: "string \<Rightarrow> (string \<times> string) option" where
  "parseAuthority a =
     (if CHR ''@'' \<notin> set a then map_option (\<lambda>h. ('''', h)) (parseHost a)
      else case (parseUser (before_last CHR ''@'' a), parseHost (tl (from_last CHR ''@'' a))) of
          (Some n, Some h) \<Rightarrow> Some (n, h)
        | _ \<Rightarrow> None)"

text \<open>
  \<open>Parse\<close> of \<open>http://\<close> followed by \<open>s\<close>: the fragment is cut off first, then the query, then
  the path, which has to unescape too.
\<close>

definition url_Parse :: "string \<Rightarrow> url option" where
  "url_Parse s =
     (case cut CHR ''#'' s of (u, frag) \<Rightarrow>
      if list_ex (\<lambda>c. of_char c < (32 :: nat) \<or> of_char c = (127 :: nat)) u then None
      else case cut CHR ''?'' u of (rest, q) \<Rightarrow>
        (case (parseAuthority (takeWhile (\<lambda>c. c \<noteq> CHR ''/'') rest),
               unescape EncodePath (dropWhile (\<lambda>c. c \<noteq> CHR ''/'') rest),
               unescape EncodeFragment frag) of
           (Some (n, h), Some _, Some f) \<Rightarrow> Some \<lparr>u_user = n, u_host = h, u_query = q, u_fragment = f\<rparr>
         | _ \<Rightarrow> None))"

text \<open>\<open>Hostname\<close> and \<open>Port\<close>.\<close>

definition split_url_host :: "string \<Rightarrow> string \<times> string" where
  "split_url_host hp =
     (let (h, p) = (if CHR '':'' \<in> set hp \<and> validOptionalPort (from_last CHR '':'' hp)
                    then (before_last CHR '':'' hp, tl (from_last CHR '':'' hp)) else (hp, '''')) in
      (if h \<noteq> '''' \<and> hd h = CHR ''['' \<and> last h = CHR '']'' then butlast (tl h) else h, p))"

section \<open>Round trips of the escapes\<close>

lemma hex_val_upper [simp]: "d < 16 \<Longrightarrow> hex_val (hex_upper d) = Some d"
  by (simp add: hex_val_def hex_upper_def Let_def)

lemma of_char_nibbles [simp]: "of_char c div 16 < (16 :: nat)" "of_char c mod 16 < (16 :: nat)"
proof -
  have "of_char c < (256 :: nat)" by simp
  then show "of_char c div 16 < (16 :: nat)" by linarith
qed simp

text \<open>
  Unescaping gives back what was escaped, in the modes where the escape does not restrict
  the characters.
\<close>

lemma unescape_escape_append:
  assumes "mode = EncodeQueryComponent \<or> mode = EncodePathSegment \<or> mode = EncodeFragment"
  shows "unescape mode (escape mode s @ r) = map_option ((@) s) (unescape mode r)"
proof (induction s)
  case Nil
  then show ?case by (simp add: escape_def option.map_ident)
next
  case (Cons c s)
  have sp: "shouldEscape CHR ''%'' mode" using assms by (auto simp: shouldEscape_def is_alnum_def)
  have plus: "mode = EncodeQueryComponent \<Longrightarrow> shouldEscape CHR ''+'' mode"
    by (simp add: shouldEscape_def is_alnum_def)
  have m: "mode \<noteq> EncodeHost" "mode \<noteq> EncodeZone" using assms by auto
  have "unescape mode (escape_char mode c @ t) = map_option ((#) c) (unescape mode t)" for t
  proof (cases "c = CHR '' '' \<and> mode = EncodeQueryComponent")
    case True
    then show ?thesis by (simp add: escape_char_def)
  next
    case nsp: False
    show ?thesis
    proof (cases "shouldEscape c mode")
      case True
      with nsp m show ?thesis by (auto simp: escape_char_def)
    next
      case False
      then have "c \<noteq> CHR ''%''" using sp by auto
      moreover have "c = CHR ''+'' \<Longrightarrow> mode \<noteq> EncodeQueryComponent" using False plus by auto
      ultimately show ?thesis using False nsp m by (auto simp: escape_char_def)
    qed
  qed
  then show ?case
    using Cons by (simp add: escape_def option.map_comp comp_def)
qed

lemma unescape_escape:
  assumes "mode = EncodeQueryComponent \<or> mode = EncodePathSegment \<or> mode = EncodeFragment"
  shows "unescape mode (escape mode s) = Some s"
  using unescape_escape_append [OF assms, of s "[]"] by simp


lemma unescape_fragment_eq: "unescape EncodeFragment s = unescape EncodePathSegment s"
  by (induction EncodeFragment s rule: unescape.induct) (auto split: list.splits option.splits)

section \<open>What the escapes put out\<close>

text \<open>Characters that no escape puts out on its own: delimiters, blanks and control characters.\<close>

definition url_delim :: "char set" where
  "url_delim = set ''&=;#?/@ ''"

lemma hex_upper_alnum: "d < 16 \<Longrightarrow> is_alnum (hex_upper d)"
  by (simp add: is_alnum_def hex_upper_def Let_def)

lemma is_alnum_cases: "is_alnum c \<Longrightarrow> c \<notin> set ''&=;#?/@ :[]%+!$(),*-._~'' \<and> 32 \<le> (of_char c :: nat) \<and> of_char c \<noteq> (127 :: nat)"
proof -
  have "list_all (\<lambda>c. \<not> is_alnum c) ''&=;#?/@ :[]%+!$(),*-._~''" by (simp add: is_alnum_def)
  then show "is_alnum c \<Longrightarrow> ?thesis" unfolding list_all_iff by (auto simp only: is_alnum_def Let_def)
qed

lemma shouldEscape_query: "shouldEscape x EncodeQueryComponent \<or> is_alnum x \<or> x \<in> set ''-_.~''"
  by (simp add: shouldEscape_def)

lemma escape_query_chars:
  "c \<in> set (QueryEscape s) \<Longrightarrow> is_alnum c \<or> c \<in> set ''-_.~%+''"
proof (induction s)
  case (Cons x s)
  have "is_alnum c \<or> c \<in> set ''-_.~%+''" if c: "c \<in> set (escape_char EncodeQueryComponent x)"
  proof (cases "shouldEscape x EncodeQueryComponent")
    case True
    then have "c = CHR ''+'' \<or> c = CHR ''%'' \<or> c = hex_upper (of_char x div 16) \<or> c = hex_upper (of_char x mod 16)"
      using c by (simp add: escape_char_def split: if_splits)
    then show ?thesis using hex_upper_alnum [of "of_char x div 16"] hex_upper_alnum [of "of_char x mod 16"] by fastforce
  next
    case False
    then have "c = x \<or> c = CHR ''+''" using c by (simp add: escape_char_def split: if_splits)
    with False shouldEscape_query [of x] show ?thesis by fastforce
  qed
  with Cons show ?case by (simp only: escape_def list.map concat.simps set_append Un_iff) blast
qed (simp add: escape_def)

lemma escape_query_delim: "c \<in> set (QueryEscape s) \<Longrightarrow> c \<notin> url_delim \<and> 32 \<le> (of_char c :: nat) \<and> of_char c \<noteq> (127 :: nat)"
proof -
  have d: "list_all (\<lambda>c. c \<notin> url_delim \<and> 32 \<le> (of_char c :: nat) \<and> of_char c \<noteq> (127 :: nat)) ''-_.~%+''"
    by (simp add: url_delim_def)
  have "is_alnum c \<Longrightarrow> c \<notin> url_delim" using is_alnum_cases [of c] unfolding url_delim_def by simp
  then show "c \<in> set (QueryEscape s) \<Longrightarrow> ?thesis"
    using escape_query_chars [of c s] is_alnum_cases [of c] d unfolding list_all_iff by blast
qed

lemma cut_append: "c \<notin> set a \<Longrightarrow> cut c (a @ c # b) = (a, b)"
  by (simp add: cut_def takeWhile_until dropWhile_until)

lemma cut_none: "c \<notin> set a \<Longrightarrow> cut c a = (a, '''')"
  unfolding cut_def by (induction a) auto

lemma split_amp_one: "CHR ''&'' \<notin> set s \<Longrightarrow> split_amp s = [s]"
  by (induction s) auto

lemma split_amp_append: "CHR ''&'' \<notin> set s \<Longrightarrow> split_amp (s @ CHR ''&'' # t) = s # split_amp t"
  by (induction s) auto

lemma split_amp_join:
  "ss \<noteq> [] \<Longrightarrow> \<forall>s \<in> set ss. CHR ''&'' \<notin> set s \<Longrightarrow> split_amp (amp_join ss) = ss"
  by (induction ss rule: amp_join.induct) (auto simp: split_amp_one split_amp_append)

lemma query_pair_encoded: "query_pair (QueryEscape k @ CHR ''='' # QueryEscape v) = Some (k, v)"
proof -
  have k: "CHR ''='' \<notin> set (QueryEscape k)" using escape_query_delim [of "CHR ''=''" k] by (auto simp: url_delim_def)
  have semi: "CHR '';'' \<notin> set (QueryEscape k @ CHR ''='' # QueryEscape v)"
    using escape_query_delim [of "CHR '';''" k] escape_query_delim [of "CHR '';''" v] by (auto simp: url_delim_def)
  show ?thesis
    using semi by (simp add: query_pair_def cut_append [OF k] unescape_escape)
qed

text \<open>Parsing an encoded query gives the values back, in the order of their keys.\<close>

lemma parse_encode:
  assumes "m \<noteq> []"
  shows "parse_query (values_Encode m) = sort_key fst m"
proof -
  let ?ps = "map (\<lambda>(k, v). QueryEscape k @ CHR ''='' # QueryEscape v) (sort_key fst m)"
  have amp: "CHR ''&'' \<notin> set (QueryEscape s)" for s
    using escape_query_delim [of "CHR ''&''" s] unfolding url_delim_def by fastforce
  have "\<forall>s \<in> set ?ps. CHR ''&'' \<notin> set s"
    by (simp add: amp split_beta)
  moreover have "?ps \<noteq> []" using assms by (metis length_0_conv length_map length_sort)
  ultimately have "split_amp (values_Encode m) = ?ps" unfolding values_Encode_def by (intro split_amp_join)
  moreover have "List.map_filter query_pair (map (\<lambda>(k, v). QueryEscape k @ CHR ''='' # QueryEscape v) xs) = xs" for xs
    by (induction xs) (auto simp: List.map_filter_def query_pair_encoded)
  ultimately show ?thesis by (simp add: parse_query_def)
qed

lemma map_of_sort_key:
  assumes "distinct (map fst m)"
  shows "map_of (sort_key fst m) k = map_of m k"
proof -
  have "distinct (map fst (sort_key fst m))"
    using assms by (metis distinct_map distinct_sort set_sort)
  with assms have "map_of (sort_key fst m) = map_of m" by (simp add: map_of_inject_set)
  then show ?thesis by simp
qed

lemma values_Get_encode:
  assumes "m \<noteq> []" and "distinct (map fst m)"
  shows "values_Get (parse_query (values_Encode m)) k = values_Get m k"
  by (simp add: values_Get_def parse_encode [OF assms(1)] map_of_sort_key [OF assms(2)])

lemma values_Encode_chars:
  "c \<in> set (values_Encode m) \<Longrightarrow> c \<notin> set ''#?/@ '' \<and> 32 \<le> (of_char c :: nat) \<and> of_char c \<noteq> (127 :: nat)"
proof -
  have j: "c \<in> set (amp_join ss) \<Longrightarrow> c = CHR ''&'' \<or> (\<exists>s \<in> set ss. c \<in> set s)" for ss
    by (induction ss rule: amp_join.induct) auto
  assume "c \<in> set (values_Encode m)"
  then have "c = CHR ''&'' \<or> c = CHR ''='' \<or> (\<exists>s. c \<in> set (QueryEscape s))"
    unfolding values_Encode_def by (auto dest!: j)
  then show ?thesis
  proof (elim disjE exE)
    fix s assume "c \<in> set (QueryEscape s)"
    from escape_query_delim [OF this] have "c \<notin> url_delim" "32 \<le> (of_char c :: nat) \<and> of_char c \<noteq> (127 :: nat)" by simp_all
    moreover have "set ''#?/@ '' \<subseteq> url_delim" by (simp add: url_delim_def)
    ultimately show ?thesis by blast
  qed simp_all
qed

end
