(* ===== verification/Config.thy ===== *)
theory Config
  imports Neturl Auth
begin

text \<open>
  Model of \<open>internal/config\<close>: the configuration records (\<open>client.go\<close>, \<open>server.go\<close>), the
  default values (\<open>defaults.go\<close>) and the import links (\<open>uri.go\<close>). Reading a file and its
  YAML syntax are not modelled.
\<close>

section \<open>Configuration records\<close>

record transport_config =
  tc_Type :: string
  tc_PathPrefix :: string
  tc_UploadPath :: string
  tc_DownloadPath :: string
  tc_SessionKeyName :: string
  tc_MaxChunkSize :: int
  tc_SessionTimeout :: int

record middleware_config =
  mc_Type :: string
  mc_MinBytes :: int
  mc_MaxBytes :: int

record api_config =
  api_Enabled :: bool
  api_Listen :: string
  api_Secret :: string

record inbound_config =
  in_Type :: string
  in_Listen :: string

record client_auth_config =
  ca_ServerPublicKey :: string
  ca_UserPrivateKey :: string
  ca_ShortID :: string

record client_tls_config =
  ct_Fingerprint :: string
  ct_SNI :: string
  ct_SkipVerify :: bool

record anti_throttle_config =
  at_Enabled :: bool
  at_DetectRTTSpikeMs :: int
  at_DetectThroughputDrop :: int
  at_Response :: string

record client_settings =
  cs_Inbound :: inbound_config
  cs_Address :: string
  cs_Auth :: client_auth_config
  cs_Transport :: transport_config
  cs_TLS :: client_tls_config
  cs_Middleware :: "middleware_config list"
  cs_AntiThrottle :: anti_throttle_config
  cs_API :: api_config

record user_config =
  uc_ShortID :: string
  uc_PublicKey :: string
  uc_Name :: string

record auth_config =
  ac_PrivateKey :: string
  ac_ShortIDs :: "string list"
  ac_Users :: "user_config list"
  ac_MaxTimeDiff :: int

record tls_config =
  tls_CertFile :: string
  tls_KeyFile :: string
  tls_Dest :: string
  tls_SNI :: string

record fallback_config =
  fb_Mode :: string
  fb_Upstream :: string
  fb_Root :: string

record server_settings =
  ss_Listen :: string
  ss_ServerIP :: string
  ss_TLS :: tls_config
  ss_Auth :: auth_config
  ss_Transport :: transport_config
  ss_Middleware :: "middleware_config list"
  ss_Fallback :: fallback_config
  ss_API :: api_config

definition no_api :: api_config where
  "no_api = \<lparr>api_Enabled = False, api_Listen = '''', api_Secret = ''''\<rparr>"

definition DefaultMaxTimeDiff :: int where
  "DefaultMaxTimeDiff = 120"

definition DefaultTokenHeader :: string where
  "DefaultTokenHeader = ''nv_token''"

section \<open>GenerateURI\<close>

definition uri_params :: "string \<Rightarrow> string \<Rightarrow> string \<Rightarrow> string \<Rightarrow> string \<Rightarrow> int \<Rightarrow> string
    \<Rightarrow> (string \<times> string) list \<Rightarrow> url_values" where
  "uri_params shortID pathPrefix uploadPath downloadPath sessionKeyName maxChunkSize fingerprint extra =
     (let m = values_set ''sid'' shortID [];
          m = values_set ''path'' pathPrefix m;
          m = values_set ''up'' uploadPath m;
          m = values_set ''down'' downloadPath m;
          m = values_set ''skey'' sessionKeyName m;
          m = (if 0 < maxChunkSize then values_set ''chunk'' (FormatInt maxChunkSize) m else m);
          m = (if fingerprint \<noteq> '''' then values_set ''fp'' fingerprint m else m)
      in fold (\<lambda>(k, v) m. if v \<noteq> '''' then values_set k v m else m) extra m)"

definition GenerateURI :: "string \<Rightarrow> string \<Rightarrow> int \<Rightarrow> string \<Rightarrow> string \<Rightarrow> string \<Rightarrow> string \<Rightarrow> string \<Rightarrow> int
    \<Rightarrow> string \<Rightarrow> string \<Rightarrow> (string \<times> string) list \<Rightarrow> string" where
  "GenerateURI serverPubKey host port shortID pathPrefix uploadPath downloadPath sessionKeyName
      maxChunkSize fingerprint remark extra =
     (let pubKey = replace_char CHR ''+'' CHR ''-'' serverPubKey;
          pubKey = replace_char CHR ''/'' CHR ''_'' pubKey;
          pubKey = trim_right CHR ''='' pubKey;
          params = uri_params shortID pathPrefix uploadPath downloadPath sessionKeyName maxChunkSize fingerprint extra;
          fragment = (if remark \<noteq> '''' then CHR ''#'' # PathEscape remark else '''')
      in ''nightveil://'' @ pubKey @ ''@'' @ host @ '':'' @ FormatInt port @ ''?'' @ values_Encode params @ fragment)"

section \<open>ParseURI\<close>

text \<open>
  \<open>base64.StdEncoding.DecodeString\<close>, the padded form: line breaks are skipped, the length is a
  multiple of four and at most two padding characters stand at the end.
\<close>

definition b64_decode_padded :: "string \<Rightarrow> bytes option" where
  "b64_decode_padded s =
     (let cs = filter (\<lambda>c. c \<noteq> CHR 0x0A \<and> c \<noteq> CHR 0x0D) s; body = trim_right CHR ''='' cs in
      if length cs mod 4 \<noteq> 0 \<or> 2 < length cs - length body then None else b64_decode False body)"

datatype uri_err = BadScheme | BadURI | BadKey

definition uri_key :: "string \<Rightarrow> bytes option" where
  "uri_key raw =
     (let pubKey = replace_char CHR ''-'' CHR ''+'' raw;
          pubKey = replace_char CHR ''_'' CHR ''/'' pubKey;
          pubKey = (if length pubKey mod 4 = 2 then pubKey @ ''==''
                    else if length pubKey mod 4 = 3 then pubKey @ ''='' else pubKey)
      in case b64_decode_padded pubKey of
           Some k \<Rightarrow> if length k = 32 then Some k
             else (case b64_decode False (trim_right CHR ''='' pubKey) of
               Some k \<Rightarrow> if length k = 32 then Some k else None | None \<Rightarrow> None)
         | None \<Rightarrow> (case b64_decode False (trim_right CHR ''='' pubKey) of
               Some k \<Rightarrow> if length k = 32 then Some k else None | None \<Rightarrow> None))"

definition or_default :: "string \<Rightarrow> string \<Rightarrow> string" where
  "or_default s d = (if s = '''' then d else s)"

definition ParseURI :: "string \<Rightarrow> uri_err + client_settings \<times> string" where
  "ParseURI uri =
     (if take 12 uri \<noteq> ''nightveil://'' then Inl BadScheme
      else case url_Parse (drop 12 uri) of None \<Rightarrow> Inl BadURI
        | Some u \<Rightarrow>
          (case uri_key (u_user u) of None \<Rightarrow> Inl BadKey
           | Some keyBytes \<Rightarrow>
             let (host, port) = split_url_host (u_host u);
                 portStr = or_default port ''443'';
                 q = parse_query (u_query u);
                 chunk = values_Get q ''chunk'';
                 maxChunkSize = (if chunk \<noteq> '''' then (case ParseInt chunk of Some n \<Rightarrow> n | None \<Rightarrow> 14336) else 14336);
                 remark = (if u_fragment u \<noteq> ''''
                   then (case PathUnescape (u_fragment u) of Some r \<Rightarrow> r | None \<Rightarrow> '''') else '''');
                 sni = values_Get q ''sni'';
                 upk = values_Get q ''upk'';
                 upk = (if upk \<noteq> '''' then replace_char CHR ''_'' CHR ''/'' (replace_char CHR ''-'' CHR ''+'' upk) else upk)
             in Inr (\<lparr>
                cs_Inbound = \<lparr>in_Type = ''socks5'', in_Listen = ''127.0.0.1:10809''\<rparr>,
                cs_Address = host @ '':'' @ portStr,
                cs_Auth = \<lparr>ca_ServerPublicKey = b64_encode False keyBytes, ca_UserPrivateKey = upk,
                  ca_ShortID = values_Get q ''sid''\<rparr>,
                cs_Transport = \<lparr>tc_Type = ''xhttp'', tc_PathPrefix = or_default (values_Get q ''path'') ''/api'',
                  tc_UploadPath = or_default (values_Get q ''up'') ''/u'',
                  tc_DownloadPath = or_default (values_Get q ''down'') ''/d'',
                  tc_SessionKeyName = or_default (values_Get q ''skey'') ''sid'',
                  tc_MaxChunkSize = maxChunkSize, tc_SessionTimeout = 0\<rparr>,
                cs_TLS = \<lparr>ct_Fingerprint = or_default (values_Get q ''fp'') ''chrome'', ct_SNI = sni,
                  ct_SkipVerify = (values_Get q ''skip'' = ''1'' \<or> sni \<noteq> '''')\<rparr>,
                cs_Middleware = [\<lparr>mc_Type = ''padding'', mc_MinBytes = 64, mc_MaxBytes = 256\<rparr>],
                cs_AntiThrottle = \<lparr>at_Enabled = True, at_DetectRTTSpikeMs = 500,
                  at_DetectThroughputDrop = 70, at_Response = ''both''\<rparr>,
                cs_API = no_api\<rparr>, remark)))"

section \<open>The parts of a generated link\<close>

lemma unescape_id:
  assumes "\<forall>c \<in> set s. is_alnum c \<or> c \<in> set ''-._:''" and "mode \<noteq> EncodeZone"
  shows "unescape mode s = Some s"
  using assms(1)
proof (induction s)
  case (Cons c s)
  then have c: "is_alnum c \<or> c \<in> set ''-._:''" by simp
  have "\<not> is_alnum CHR ''%''" "\<not> is_alnum CHR ''+''" by (simp_all add: is_alnum_def)
  then have "c \<noteq> CHR ''%''" "c \<noteq> CHR ''+''" using c by auto
  moreover have "mode = EncodeHost \<Longrightarrow> \<not> shouldEscape c mode" using c by (auto simp: shouldEscape_def)
  ultimately show ?case using Cons assms(2) by auto
qed simp

lemma before_last_append [simp]: "c \<notin> set b \<Longrightarrow> before_last c (a @ c # b) = a"
  and from_last_append [simp]: "c \<notin> set b \<Longrightarrow> from_last c (a @ c # b) = c # b"
  using takeWhile_until [of c "rev b" "rev a"] by (simp_all add: before_last_def from_last_def)

text \<open>A host that needs no brackets and no escapes: a name or a dotted address.\<close>

definition plain_host :: "string \<Rightarrow> bool" where
  "plain_host h \<longleftrightarrow> h \<noteq> '''' \<and> (\<forall>c \<in> set h. is_alnum c \<or> c \<in> set ''-._'')"

lemma plain_host_chars: "plain_host h \<Longrightarrow> c \<in> set h \<Longrightarrow> c \<notin> set ''&=;#?/@ :[]%+'' \<and> 32 \<le> (of_char c :: nat) \<and> of_char c \<noteq> (127 :: nat)"
proof -
  assume "plain_host h" "c \<in> set h"
  then have "is_alnum c \<or> c \<in> set ''-._''" by (simp add: plain_host_def)
  then show ?thesis
  proof
    assume "is_alnum c"
    from is_alnum_cases [OF this] show ?thesis by simp
  qed auto
qed

lemma digits_alnum: "list_all is_digit p \<Longrightarrow> c \<in> set p \<Longrightarrow> is_alnum c"
  by (auto simp: list_all_iff is_digit_def is_alnum_def Let_def)

lemma parse_plain_host:
  assumes "plain_host h" and "list_all is_digit p"
  shows "parseHost (h @ CHR '':'' # p) = Some (h @ CHR '':'' # p)"
    and "split_url_host (h @ CHR '':'' # p) = (h, p)"
proof -
  have p: "CHR '':'' \<notin> set p" using digits_alnum [OF assms(2), of "CHR '':''"] by (auto simp: is_alnum_def)
  have v: "validOptionalPort (CHR '':'' # p)" using assms(2) by (simp add: validOptionalPort_def)
  have h: "h \<noteq> ''''" "hd h \<noteq> CHR ''[''" "hd (h @ CHR '':'' # p) \<noteq> CHR ''[''"
    using assms(1) plain_host_chars [OF assms(1), of "hd h"] by (auto simp: plain_host_def)
  have "unescape EncodeHost (h @ CHR '':'' # p) = Some (h @ CHR '':'' # p)"
    using assms(1) digits_alnum [OF assms(2)] by (intro unescape_id) (auto simp: plain_host_def)
  then show "parseHost (h @ CHR '':'' # p) = Some (h @ CHR '':'' # p)"
    using h p v by (simp add: parseHost_def)
  show "split_url_host (h @ CHR '':'' # p) = (h, p)"
    using h p v by (simp add: split_url_host_def)
qed


lemma length_b64_encode: "length (b64_encode url bs) = (4 * length bs + 2) div 3"
proof -
  have "length (b64_sextets bs) = (4 * length bs + 2) div 3"
    by (induction bs rule: b64_sextets.induct) auto
  then show ?thesis by (simp add: b64_encode_def)
qed

lemma b64_url_chars:
  assumes "c \<in> set (b64_encode True key)"
  shows "is_alnum c \<or> c = CHR ''-'' \<or> c = CHR ''_''"
proof -
  from assms obtain d where "d < 64" and c: "c = b64_char True d"
    using b64_sextets_less [of key] by (auto simp: b64_encode_def list_all_iff)
  then consider "d < 26" | "26 \<le> d" "d < 52" | "52 \<le> d" "d < 62" | "d = 62" | "d = 63" by linarith
  then show ?thesis by cases (auto simp: c b64_char_def is_alnum_def Let_def)
qed

lemma parse_user_key: "parseUser (b64_encode True key) = Some (b64_encode True key)"
proof -
  let ?k = "b64_encode True key"
  have "validUserinfo ?k" using b64_url_chars [of _ key] by (auto simp: validUserinfo_def list_all_iff)
  moreover have "CHR '':'' \<notin> set ?k" using b64_url_chars [of "CHR '':''" key] by (auto simp: is_alnum_def)
  moreover have "unescape EncodeUserPassword ?k = Some ?k"
    using b64_url_chars [of _ key] by (intro unescape_id) auto
  ultimately show ?thesis by (simp add: parseUser_def)
qed

text \<open>The key of the link, in either alphabet and with any padding, comes out in standard form.\<close>

lemma uri_key_encode:
  assumes "length key = 32"
  shows "uri_key (b64_encode True key) = Some key"
proof -
  let ?s = "b64_encode False key"
  have s: "replace_char CHR ''_'' CHR ''/'' (replace_char CHR ''-'' CHR ''+'' (b64_encode True key)) = ?s"
    by (simp add: replace_std replace_encode)
  have l: "length ?s = 43" using assms by (simp add: length_b64_encode)
  have nl: "filter (\<lambda>c. c \<noteq> CHR 0x0A \<and> c \<noteq> CHR 0x0D) (?s @ ''='') = ?s @ ''=''"
    using b64_sextets_less [of key] b64_char_not_newline by (auto simp: b64_encode_def filter_id_conv list_all_iff)
  have "trim_right CHR ''='' (?s @ ''='') = ?s" using trim_right_pad [of key 1] by simp
  with nl l have "b64_decode_padded (?s @ ''='') = Some key"
    by (simp add: b64_decode_padded_def Let_def)
  with s l assms show ?thesis by (simp add: uri_key_def Let_def)
qed

lemma url_safe_encode:
  "replace_char CHR ''/'' CHR ''_'' (replace_char CHR ''+'' CHR ''-'' (b64_encode url key)) = b64_encode True key"
proof -
  define f where "f = (\<lambda>c. let c = (if c = CHR ''+'' then CHR ''-'' else c) in if c = CHR ''/'' then CHR ''_'' else c)"
  have "f (b64_char url d) = b64_char True d" if "d < 64" for d
  proof -
    from that consider "d < 62" | "d = 62" | "d = 63" by linarith
    then show ?thesis
    proof cases
      case 1
      then have e: "b64_char url d = b64_char True d" by (simp add: b64_char_def)
      have "b64_val True (b64_char True d) = Some d" using that by (rule b64_val_char)
      moreover have "b64_val True CHR ''+'' = None" "b64_val True CHR ''/'' = None" by (simp_all add: b64_val_def)
      ultimately have "b64_char True d \<noteq> CHR ''+''" "b64_char True d \<noteq> CHR ''/''" by (metis option.distinct(1))+
      with e show ?thesis by (simp add: f_def Let_def)
    qed (simp_all add: f_def Let_def b64_char_def)
  qed
  moreover have "d < 64" if "d \<in> set (b64_sextets key)" for d
    using that b64_sextets_less [of key] by (simp add: list_all_iff)
  ultimately have "map f (b64_encode url key) = b64_encode True key" by (simp add: b64_encode_def)
  moreover have "replace_char CHR ''/'' CHR ''_'' (replace_char CHR ''+'' CHR ''-'' s) = map f s" for s
    by (simp add: replace_char_def f_def Let_def comp_def)
  ultimately show ?thesis by simp
qed

lemma link_key:
  "trim_right CHR ''='' (replace_char CHR ''/'' CHR ''_'' (replace_char CHR ''+'' CHR ''-''
     (b64_encode url key @ replicate n CHR ''=''))) = b64_encode True key"
proof -
  note url_safe_encode [of url key]
  moreover have "replace_char a b (xs @ ys) = replace_char a b xs @ replace_char a b ys" for a b xs ys
    by (simp add: replace_char_def)
  moreover have "replace_char a b (replicate n CHR ''='') = replicate n CHR ''=''" if "a \<noteq> CHR ''=''" for a b
    using that by (simp add: replace_char_def map_replicate_trivial)
  ultimately have e: "replace_char CHR ''/'' CHR ''_'' (replace_char CHR ''+'' CHR ''-''
      (b64_encode url key @ replicate n CHR ''='')) = b64_encode True key @ replicate n CHR ''=''" by simp
  have "CHR ''='' \<notin> set (b64_encode True key)" using b64_url_chars [of "CHR ''=''" key] by (auto simp: is_alnum_def)
  then have "dropWhile (\<lambda>c. c = CHR ''='') (rev (b64_encode True key)) = rev (b64_encode True key)"
    by (intro dropWhile_absent) simp
  then show ?thesis unfolding e by (simp add: trim_right_def dropWhile_append)
qed

lemma uri_extra:
  assumes "distinct (map fst extra)"
  shows "map_of (fold (\<lambda>(k, v) m. if v \<noteq> '''' then values_set k v m else m) extra m) k =
    (case map_of extra k of Some v \<Rightarrow> if v \<noteq> '''' then Some v else map_of m k | None \<Rightarrow> map_of m k)"
  using assms
proof (induction extra arbitrary: m)
  case (Cons e es)
  obtain k' v where e: "e = (k', v)" by (cases e)
  with Cons.prems have "map_of es k' = None" by (simp add: map_of_eq_None_iff)
  with Cons show ?case by (auto simp: e values_set_def split: option.splits)
qed simp

lemma distinct_uri_params: "distinct (map fst (uri_params sid p u d sk ch fp extra))"
proof -
  have "distinct (map fst m) \<Longrightarrow> distinct (map fst (fold (\<lambda>(k, v) m. if v \<noteq> '''' then values_set k v m else m) extra m))" for m
    by (induction extra arbitrary: m) (auto simp: values_set_def distinct_update)
  then show ?thesis by (simp add: uri_params_def Let_def values_set_def distinct_update)
qed

lemma uri_params_nonempty: "uri_params sid p u d sk ch fp extra \<noteq> []"
proof -
  have v: "values_set k v m \<noteq> []" for k v m by (cases m) (auto simp: values_set_def)
  have step: "m \<noteq> [] \<Longrightarrow> fold (\<lambda>(k, v) m. if v \<noteq> '''' then values_set k v m else m) extra m \<noteq> []" for m
  proof (induction extra arbitrary: m)
    case (Cons e es)
    obtain k w where "e = (k, w)" by (cases e)
    with Cons.IH [of m] Cons.IH [OF v] Cons.prems show ?case by simp
  qed simp
  have opt: "m \<noteq> [] \<Longrightarrow> (if c then values_set k v m else m) \<noteq> []" for c k v m by (simp add: v)
  show ?thesis unfolding uri_params_def Let_def by (intro step opt v)
qed

definition base_keys :: "string set" where
  "base_keys = {''sid'', ''path'', ''up'', ''down'', ''skey'', ''chunk'', ''fp''}"

lemma uri_params_get:
  fixes sid p u d sk fp :: string and ch :: int and extra :: "(string \<times> string) list"
  assumes "distinct (map fst extra)" and "fst ` set extra \<inter> base_keys = {}"
  defines "m \<equiv> uri_params sid p u d sk ch fp extra"
  shows "values_Get m ''sid'' = sid" and "values_Get m ''path'' = p" and "values_Get m ''up'' = u"
    and "values_Get m ''down'' = d" and "values_Get m ''skey'' = sk"
    and "values_Get m ''chunk'' = (if 0 < ch then FormatInt ch else '''')" and "values_Get m ''fp'' = fp"
    and "k \<notin> base_keys \<Longrightarrow> values_Get m k = values_Get extra k"
proof -
  have none: "map_of extra b = None" if "b \<in> base_keys" for b
    using that assms(2) by (auto simp: map_of_eq_None_iff)
  note lookup = values_Get_def uri_params_def Let_def uri_extra [OF assms(1)] m_def
  note upd = values_set_def update_conv'
  have b: "''sid'' \<in> base_keys" "''path'' \<in> base_keys" "''up'' \<in> base_keys" "''down'' \<in> base_keys"
    "''skey'' \<in> base_keys" "''chunk'' \<in> base_keys" "''fp'' \<in> base_keys" by (simp_all add: base_keys_def)
  show "values_Get m ''sid'' = sid" using none b by (simp add: lookup upd)
  show "values_Get m ''path'' = p" using none b by (simp add: lookup upd)
  show "values_Get m ''up'' = u" using none b by (simp add: lookup upd)
  show "values_Get m ''down'' = d" using none b by (simp add: lookup upd)
  show "values_Get m ''skey'' = sk" using none b by (simp add: lookup upd)
  show "values_Get m ''chunk'' = (if 0 < ch then FormatInt ch else '''')" using none b by (simp add: lookup upd)
  show "values_Get m ''fp'' = fp" using none b by (simp add: lookup upd)
  show "values_Get m k = values_Get extra k" if "k \<notin> base_keys"
    using that by (auto simp: lookup upd base_keys_def split: option.split)
qed


text \<open>
  The structure of a link: what \<open>url.Parse\<close> makes of the key, host, port, query and fragment
  that \<open>GenerateURI\<close> wrote.
\<close>

lemma parse_generated:
  assumes h: "plain_host host" and port: "0 \<le> port"
    and frag: "frag = '''' \<and> remark = '''' \<or> frag = CHR ''#'' # PathEscape remark"
  shows "url_Parse (b64_encode True key @ ''@'' @ host @ '':'' @ FormatInt port @ ''?'' @ values_Encode m @ frag) =
    Some \<lparr>u_user = b64_encode True key, u_host = host @ '':'' @ FormatInt port,
      u_query = values_Encode m, u_fragment = remark\<rparr>"
proof -
  let ?k = "b64_encode True key" and ?p = "FormatInt port" and ?q = "values_Encode m"
  let ?auth = "?k @ ''@'' @ host @ '':'' @ ?p"
  let ?u = "?auth @ ''?'' @ ?q"
  have pd: "list_all is_digit ?p" using port show_nat_digits [of "nat port"] by (simp add: FormatInt_def)
  have ok: "c \<notin> set ''#?/ '' \<and> 32 \<le> (of_char c :: nat) \<and> of_char c \<noteq> (127 :: nat)" if "c \<in> set ?auth" for c
  proof -
    have "c \<in> set ?k \<or> c = CHR ''@'' \<or> c \<in> set host \<or> c = CHR '':'' \<or> c \<in> set ?p" using that by auto
    then show ?thesis
    proof (elim disjE)
      assume "c \<in> set ?k"
      then show ?thesis using b64_url_chars [of c key] is_alnum_cases [of c] by auto
    next
      assume "c \<in> set host"
      then show ?thesis using plain_host_chars [OF h, of c] by simp
    next
      assume "c \<in> set ?p"
      then show ?thesis using is_alnum_cases [OF digits_alnum [OF pd]] by simp
    qed simp_all
  qed
  have okq: "c \<notin> set ''#?/ '' \<and> 32 \<le> (of_char c :: nat) \<and> of_char c \<noteq> (127 :: nat)" if "c \<in> set ?q" for c
    using values_Encode_chars [OF that] by simp
  have hash: "CHR ''#'' \<notin> set ?u" using ok [of "CHR ''#''"] okq [of "CHR ''#''"] by auto
  have slash: "CHR ''/'' \<notin> set ?auth" using ok [of "CHR ''/''"] by auto
  have qm: "CHR ''?'' \<notin> set ?auth" using ok [of "CHR ''?''"] by auto
  have ctl: "\<not> list_ex (\<lambda>c. of_char c < (32 :: nat) \<or> of_char c = (127 :: nat)) ?u"
  proof -
    have "\<not> (of_char c < (32 :: nat) \<or> of_char c = (127 :: nat))" if "c \<in> set ?u" for c
    proof -
      from that have "c \<in> set ?auth \<or> c = CHR ''?'' \<or> c \<in> set ?q" by auto
      then show ?thesis using ok [of c] okq [of c] by fastforce
    qed
    then show ?thesis by (auto simp: list_ex_iff)
  qed
  have c1: "cut CHR ''#'' (?u @ frag) = (?u, PathEscape remark)"
    using frag
  proof
    assume "frag = '''' \<and> remark = ''''"
    then show ?thesis using cut_none [OF hash] by (simp add: escape_def)
  next
    assume "frag = CHR ''#'' # PathEscape remark"
    then show ?thesis using cut_append [OF hash] by simp
  qed
  have c2: "cut CHR ''?'' ?u = (?auth, ?q)" using cut_append [OF qm, of ?q] by simp
  have tw: "takeWhile (\<lambda>c. c \<noteq> CHR ''/'') ?auth = ?auth" "dropWhile (\<lambda>c. c \<noteq> CHR ''/'') ?auth = ''''"
    by (rule takeWhile_none [OF slash], rule dropWhile_none [OF slash])
  have at: "CHR ''@'' \<notin> set (host @ '':'' @ ?p)"
    using plain_host_chars [OF h, of "CHR ''@''"] is_alnum_cases [OF digits_alnum [OF pd], of "CHR ''@''"] by auto
  have "before_last CHR ''@'' ?auth = ?k" "from_last CHR ''@'' ?auth = CHR ''@'' # host @ '':'' @ ?p"
    using before_last_append [OF at, of ?k] from_last_append [OF at, of ?k] by simp_all
  then have pa: "parseAuthority ?auth = Some (?k, host @ '':'' @ ?p)"
    using parse_plain_host(1) [OF h pd] by (simp add: parseAuthority_def parse_user_key)
  have fr: "unescape EncodeFragment (PathEscape remark) = Some remark"
    by (simp add: unescape_fragment_eq unescape_escape)
  have "url_Parse (?u @ frag) = Some \<lparr>u_user = ?k, u_host = host @ '':'' @ ?p, u_query = ?q, u_fragment = remark\<rparr>"
    unfolding url_Parse_def c1 prod.case c2 tw pa fr using ctl by simp
  then show ?thesis by simp
qed

lemma link_roundtrip:
  assumes "length key = 32" and "plain_host host" and "0 \<le> port" and "ch < 2 ^ 63"
    and "distinct (map fst extra)" and "fst ` set extra \<inter> base_keys = {}"
  shows "\<exists>cfg r. ParseURI (GenerateURI (b64_encode url key @ replicate n CHR ''='') host port sid p u d sk ch fp remark extra)
      = Inr (cfg, r) \<and>
    cs_Address cfg = host @ '':'' @ FormatInt port \<and>
    cs_Auth cfg = \<lparr>ca_ServerPublicKey = b64_encode False key,
      ca_UserPrivateKey = map std_char (values_Get extra ''upk''), ca_ShortID = sid\<rparr> \<and>
    cs_Transport cfg = \<lparr>tc_Type = ''xhttp'', tc_PathPrefix = or_default p ''/api'', tc_UploadPath = or_default u ''/u'',
      tc_DownloadPath = or_default d ''/d'', tc_SessionKeyName = or_default sk ''sid'',
      tc_MaxChunkSize = (if 0 < ch then ch else 14336), tc_SessionTimeout = 0\<rparr> \<and>
    cs_TLS cfg = \<lparr>ct_Fingerprint = or_default fp ''chrome'', ct_SNI = values_Get extra ''sni'',
      ct_SkipVerify = (values_Get extra ''skip'' = ''1'' \<or> values_Get extra ''sni'' \<noteq> '''')\<rparr> \<and>
    r = (case PathUnescape remark of None \<Rightarrow> '''' | Some r \<Rightarrow> r) \<and>
    (CHR ''%'' \<notin> set remark \<longrightarrow> r = remark)"
proof -
  let ?m = "uri_params sid p u d sk ch fp extra"
  let ?frag = "if remark \<noteq> '''' then CHR ''#'' # PathEscape remark else ''''"
  have pd: "list_all is_digit (FormatInt port)"
    using assms(3) show_nat_digits [of "nat port"] by (simp add: FormatInt_def)
  have gen: "GenerateURI (b64_encode url key @ replicate n CHR ''='') host port sid p u d sk ch fp remark extra =
      ''nightveil://'' @ (b64_encode True key @ ''@'' @ host @ '':'' @ FormatInt port @ ''?'' @ values_Encode ?m @ ?frag)"
    by (simp add: GenerateURI_def Let_def link_key)
  have parse: "url_Parse (b64_encode True key @ ''@'' @ host @ '':'' @ FormatInt port @ ''?'' @ values_Encode ?m @ ?frag) =
      Some \<lparr>u_user = b64_encode True key, u_host = host @ '':'' @ FormatInt port, u_query = values_Encode ?m, u_fragment = remark\<rparr>"
    by (rule parse_generated [OF assms(2,3)]) simp
  have ne: "?m \<noteq> []" by (rule uri_params_nonempty)
  note get = values_Get_encode [OF ne distinct_uri_params]
  note got = uri_params_get [OF assms(5,6), where sid = sid and p = p and u = u and d = d and sk = sk and ch = ch and fp = fp]
  have other: "values_Get ?m k = values_Get extra k" if "k \<in> {''sni'', ''skip'', ''upk''}" for k
    using that by (intro got(8)) (auto simp: base_keys_def)
  have chunk: "(if values_Get ?m ''chunk'' \<noteq> '''' then (case ParseInt (values_Get ?m ''chunk'') of Some n \<Rightarrow> n | None \<Rightarrow> 14336) else 14336) =
      (if 0 < ch then ch else 14336)"
    using assms(4) ParseInt_FormatInt [of ch] by (auto simp: got(6) FormatInt_def)
  have upk: "(if v \<noteq> '''' then replace_char CHR ''_'' CHR ''/'' (replace_char CHR ''-'' CHR ''+'' v) else v) = map std_char v" for v
    by (simp add: replace_std)
  have port': "FormatInt port \<noteq> ''''" using assms(3) by (simp add: FormatInt_def)
  have r: "(if remark \<noteq> '''' then (case PathUnescape remark of Some r \<Rightarrow> r | None \<Rightarrow> '''') else '''') =
      (case PathUnescape remark of None \<Rightarrow> '''' | Some r \<Rightarrow> r)" by (cases remark) auto
  have plain: "PathUnescape remark = Some remark" if "CHR ''%'' \<notin> set remark"
    using that by (induction remark) auto
  have host: "split_url_host (host @ '':'' @ FormatInt port) = (host, FormatInt port)"
    using parse_plain_host(2) [OF assms(2) pd] by simp
  have t12: "take 12 (GenerateURI (b64_encode url key @ replicate n CHR ''='') host port sid p u d sk ch fp remark extra) = ''nightveil://''"
    and d12: "drop 12 (GenerateURI (b64_encode url key @ replicate n CHR ''='') host port sid p u d sk ch fp remark extra) =
      b64_encode True key @ ''@'' @ host @ '':'' @ FormatInt port @ ''?'' @ values_Encode ?m @ ?frag"
    unfolding gen by simp_all
  have "ParseURI (GenerateURI (b64_encode url key @ replicate n CHR ''='') host port sid p u d sk ch fp remark extra) =
    Inr (\<lparr>cs_Inbound = \<lparr>in_Type = ''socks5'', in_Listen = ''127.0.0.1:10809''\<rparr>,
        cs_Address = host @ '':'' @ FormatInt port,
        cs_Auth = \<lparr>ca_ServerPublicKey = b64_encode False key,
          ca_UserPrivateKey = map std_char (values_Get extra ''upk''), ca_ShortID = sid\<rparr>,
        cs_Transport = \<lparr>tc_Type = ''xhttp'', tc_PathPrefix = or_default p ''/api'', tc_UploadPath = or_default u ''/u'',
          tc_DownloadPath = or_default d ''/d'', tc_SessionKeyName = or_default sk ''sid'',
          tc_MaxChunkSize = (if 0 < ch then ch else 14336), tc_SessionTimeout = 0\<rparr>,
        cs_TLS = \<lparr>ct_Fingerprint = or_default fp ''chrome'', ct_SNI = values_Get extra ''sni'',
          ct_SkipVerify = (values_Get extra ''skip'' = ''1'' \<or> values_Get extra ''sni'' \<noteq> '''')\<rparr>,
        cs_Middleware = [\<lparr>mc_Type = ''padding'', mc_MinBytes = 64, mc_MaxBytes = 256\<rparr>],
        cs_AntiThrottle = \<lparr>at_Enabled = True, at_DetectRTTSpikeMs = 500,
          at_DetectThroughputDrop = 70, at_Response = ''both''\<rparr>,
        cs_API = no_api\<rparr>, case PathUnescape remark of None \<Rightarrow> '''' | Some r \<Rightarrow> r)"
    unfolding ParseURI_def d12 t12 parse Let_def option.case url.select_convs uri_key_encode [OF assms(1)]
      host prod.case get chunk upk r
    by (simp add: got other or_default_def port')
  then show ?thesis using plain by auto
qed


text \<open>
  C27. An import link carries the configuration: parsing what \<open>GenerateURI\<close> wrote for a 32-byte
  server key gives this key, the address, the short id, the paths and the other settings,
  empty values replaced by the defaults; the remark comes back as its second unescaping, so
  exactly when it has no percent sign.
\<close>

theorem import_link_roundtrip:
  assumes "length key = 32" and "plain_host host" and "0 \<le> port" and "ch < 2 ^ 63"
    and "distinct (map fst extra)" and "fst ` set extra \<inter> base_keys = {}"
  shows "\<exists>cfg r. ParseURI (GenerateURI (b64_encode url key @ replicate n CHR ''='') host port sid p u d sk ch fp remark extra)
      = Inr (cfg, r) \<and>
    cs_Address cfg = host @ '':'' @ FormatInt port \<and>
    cs_Auth cfg = \<lparr>ca_ServerPublicKey = b64_encode False key,
      ca_UserPrivateKey = map std_char (values_Get extra ''upk''), ca_ShortID = sid\<rparr> \<and>
    cs_Transport cfg = \<lparr>tc_Type = ''xhttp'', tc_PathPrefix = or_default p ''/api'', tc_UploadPath = or_default u ''/u'',
      tc_DownloadPath = or_default d ''/d'', tc_SessionKeyName = or_default sk ''sid'',
      tc_MaxChunkSize = (if 0 < ch then ch else 14336), tc_SessionTimeout = 0\<rparr> \<and>
    cs_TLS cfg = \<lparr>ct_Fingerprint = or_default fp ''chrome'', ct_SNI = values_Get extra ''sni'',
      ct_SkipVerify = (values_Get extra ''skip'' = ''1'' \<or> values_Get extra ''sni'' \<noteq> '''')\<rparr> \<and>
    r = (case PathUnescape remark of None \<Rightarrow> '''' | Some r \<Rightarrow> r) \<and>
    (CHR ''%'' \<notin> set remark \<longrightarrow> r = remark)"
  using assms by (rule link_roundtrip)

theorem import_link_roundtrip_witness:
  "\<exists>cfg r. ParseURI (GenerateURI (b64_encode True (replicate 32 7)) ''vpn.example.org'' 8443 ''0a1b2c3d'' ''/p'' '''' ''/d/x'' ''sk''
       0 ''firefox'' ''Alice 1'' [(''upk'', ''abc-_''), (''skip'', ''1'')]) = Inr (cfg, r) \<and>
     cs_Address cfg = ''vpn.example.org:'' @ FormatInt 8443 \<and> ca_UserPrivateKey (cs_Auth cfg) = ''abc+/'' \<and> r = ''Alice 1''"
proof -
  have h: "plain_host ''vpn.example.org''" by (simp add: plain_host_def is_alnum_def)
  have "distinct (map fst [(''upk'', ''abc-_''), (''skip'', ''1'')])" by simp
  moreover have "fst ` set [(''upk'', ''abc-_''), (''skip'', ''1'')] \<inter> base_keys = {}" by (simp add: base_keys_def)
  ultimately obtain cfg r where "ParseURI (GenerateURI (b64_encode True (replicate 32 7) @ replicate 0 CHR ''='') ''vpn.example.org'' 8443
       ''0a1b2c3d'' ''/p'' '''' ''/d/x'' ''sk'' 0 ''firefox'' ''Alice 1'' [(''upk'', ''abc-_''), (''skip'', ''1'')]) = Inr (cfg, r)"
    and "cs_Address cfg = ''vpn.example.org'' @ '':'' @ FormatInt 8443"
    and "cs_Auth cfg = \<lparr>ca_ServerPublicKey = b64_encode False (replicate 32 7),
      ca_UserPrivateKey = map std_char (values_Get [(''upk'', ''abc-_''), (''skip'', ''1'')] ''upk''), ca_ShortID = ''0a1b2c3d''\<rparr>"
    and "r = ''Alice 1''"
    using import_link_roundtrip [of "replicate 32 7" "''vpn.example.org''" 8443 0
        "[(''upk'', ''abc-_''), (''skip'', ''1'')]" True 0 "''0a1b2c3d''" "''/p''" "''''" "''/d/x''" "''sk''" "''firefox''" "''Alice 1''"] h
    by auto
  then show ?thesis by (intro exI [of _ cfg] exI [of _ r]) (simp add: values_Get_def std_char_def)
qed

text \<open>
  The second unescaping spoils remarks with percent signs: such a remark comes back empty when
  the sign does not start an escape, and as another text when it does.
\<close>

lemma remark_unescaped_twice: "PathUnescape ''50% off'' = None" "PathUnescape ''a%41'' = Some ''aA''"
  by code_simp+

end
