(* ===== verification/Hostport.thy ===== *)
theory Hostport
  imports Framing
begin

text \<open>
  \<open>net.SplitHostPort\<close>, the inverse of \<open>net.JoinHostPort\<close>, as Go defines it: the port starts
  after the last colon; a host with colons must be bracketed; no other brackets may occur.
\<close>

definition SplitHostPort :: "string \<Rightarrow> (string \<times> string) option" where
  "SplitHostPort s =
     (let i = length s - 1 - length (takeWhile (\<lambda>c. c \<noteq> CHR '':'') (rev s)) in
      if CHR '':'' \<notin> set s then None
      else if hd s = CHR ''['' then
        (let e = length (takeWhile (\<lambda>c. c \<noteq> CHR '']'') s) in
         if CHR '']'' \<notin> set s \<or> e + 1 = length s \<or> e + 1 \<noteq> i then None
         else if CHR ''['' \<in> set (drop 1 s) \<or> CHR '']'' \<in> set (drop (e + 1) s) then None
         else Some (take (e - 1) (drop 1 s), drop (i + 1) s))
      else if CHR '':'' \<in> set (take i s) \<or> CHR ''['' \<in> set s \<or> CHR '']'' \<in> set s then None
      else Some (take i s, drop (i + 1) s))"

lemma last_colon:
  assumes "CHR '':'' \<notin> set p"
  shows "length (h @ CHR '':'' # p) - 1 - length (takeWhile (\<lambda>c. c \<noteq> CHR '':'') (rev (h @ CHR '':'' # p))) = length h"
proof -
  have "takeWhile (\<lambda>c. c \<noteq> CHR '':'') (rev p @ CHR '':'' # rev h) = rev p"
    using assms by (intro takeWhile_until) simp
  then show ?thesis by simp
qed

definition no_bracket :: "string \<Rightarrow> bool" where
  "no_bracket s \<longleftrightarrow> CHR ''['' \<notin> set s \<and> CHR '']'' \<notin> set s"

lemma split_plain:
  assumes "CHR '':'' \<notin> set h" "CHR '':'' \<notin> set p" "no_bracket h" "no_bracket p"
  shows "SplitHostPort (h @ CHR '':'' # p) = Some (h, p)"
proof -
  have hd: "hd (h @ CHR '':'' # p) \<noteq> CHR ''[''" using assms(3) by (cases h) (auto simp: no_bracket_def)
  show ?thesis
    using assms(1,3,4) hd unfolding SplitHostPort_def Let_def last_colon [OF assms(2)]
    by (simp add: no_bracket_def)
qed

lemma split_bracketed:
  assumes "CHR '':'' \<notin> set p" "no_bracket h" "no_bracket p"
  shows "SplitHostPort (CHR ''['' # h @ CHR '']'' # CHR '':'' # p) = Some (h, p)"
proof -
  have s: "CHR ''['' # h @ CHR '']'' # CHR '':'' # p = (CHR ''['' # h @ '']'') @ CHR '':'' # p" by simp
  have e: "length (takeWhile (\<lambda>c. c \<noteq> CHR '']'') ((CHR ''['' # h @ '']'') @ CHR '':'' # p)) = length h + 1"
    using takeWhile_until [of "CHR '']''" "CHR ''['' # h" "CHR '':'' # p"] assms(2) by (simp add: no_bracket_def)
  show ?thesis
    unfolding s SplitHostPort_def Let_def last_colon [OF assms(1)] e
    using assms(2,3) by (simp add: no_bracket_def)
qed

text \<open>What \<open>JoinHostPort\<close> makes, \<open>SplitHostPort\<close> takes apart.\<close>

lemma split_join:
  assumes "CHR '':'' \<notin> set p" "no_bracket h" "no_bracket p"
  shows "SplitHostPort (JoinHostPort h p) = Some (h, p)"
  using split_plain [of h p] split_bracketed [of p h] assms by (auto simp: JoinHostPort_def)

lemma digits_plain: "list_all is_digit p \<Longrightarrow> CHR '':'' \<notin> set p \<and> no_bracket p"
  by (auto simp: list_all_iff no_bracket_def is_digit_def)

text \<open>What can be split has a colon, and joins again to the same address.\<close>

lemma split_port:
  assumes "SplitHostPort s = Some (h, p)"
  shows "CHR '':'' \<notin> set p"
proof -
  let ?w = "takeWhile (\<lambda>c. c \<noteq> CHR '':'') (rev s)"
  have "p = drop (length s - 1 - length ?w + 1) s" and c: "CHR '':'' \<in> set s"
    using assms by (auto simp: SplitHostPort_def Let_def split: if_splits)
  moreover have "length ?w < length s"
  proof -
    have "?w \<noteq> rev s"
    proof
      assume "?w = rev s"
      then have "\<forall>x \<in> set (rev s). x \<noteq> CHR '':''" by (simp add: takeWhile_eq_all_conv)
      with c show False by auto
    qed
    then have "length ?w \<noteq> length (rev s)" by (metis takeWhile_eq_take take_all order_refl)
    moreover have "length ?w \<le> length (rev s)" by (rule length_takeWhile_le)
    ultimately show ?thesis by simp
  qed
  ultimately have "p = drop (length s - length ?w) s" by (simp add: Suc_diff_Suc)
  then have "rev p = take (length ?w) (rev s)"
    using length_takeWhile_le [of "\<lambda>c. c \<noteq> CHR '':''" "rev s"] by (simp add: rev_drop)
  then have "rev p = ?w" by (simp add: takeWhile_eq_take [symmetric])
  then have "set p = set ?w" by (metis set_rev)
  then show ?thesis by (auto dest: set_takeWhileD)
qed

end
