(* ===== verification/Reality.thy ===== *)
theory Reality
  imports Hostport Interfaces "HOL-Library.Monad_Syntax"
begin

text \<open>
  Model of \<open>internal/security/reality.go\<close>: the listener that forwards foreign connections,
  the peeking connection, the extraction of the server name from a ClientHello and the
  default port of the destination.
\<close>

section \<open>RealityListener\<close>

record reality_config =
  Dest :: string
  RTimeout :: int

definition reality_config_of :: "reality_config \<Rightarrow> reality_config" where
  "reality_config_of c = (if RTimeout c = 0 then c\<lparr>RTimeout := 10 * 1000000000\<rparr> else c)"

text \<open>
  \<open>Accept\<close> over what the inner listener gives: connections, then an error. It returns the
  connection (or \<open>None\<close> for the error), the connections it forwards on the way, and the rest.
\<close>

fun reality_Accept :: "('c \<Rightarrow> 'c \<times> bool) \<Rightarrow> 'c list \<Rightarrow> 'c option \<times> 'c list \<times> 'c list" where
  "reality_Accept authTest [] = (None, [], [])"
| "reality_Accept authTest (c # cs) =
     (case authTest c of
        (ac, True) \<Rightarrow> (Some ac, [], cs)
      | (ac, False) \<Rightarrow> (case reality_Accept authTest cs of (r, fwd, rest) \<Rightarrow> (r, ac # fwd, rest)))"

text \<open>
  \<open>forwardToDest\<close>: when the destination answers, all bytes of the client (those it has sent
  and peeked at included) go to it, and its bytes to the client; both are closed in the end.
  The result is what the destination and what the client get.
\<close>

definition forwardToDest :: "(string \<Rightarrow> bytes option) \<Rightarrow> reality_config \<Rightarrow> bytes \<Rightarrow> bytes \<times> bytes" where
  "forwardToDest answer cfg client_bytes =
     (case answer (Dest cfg) of None \<Rightarrow> ([], []) | Some dest_bytes \<Rightarrow> (client_bytes, dest_bytes))"

section \<open>PeekConn\<close>

text \<open>
  The connection underneath gives its bytes in segments: a read gives at most the first one.
  \<open>ended\<close> is the error after them, which may be the deadline.
\<close>

record peek_conn =
  segments :: "bytes list"
  peeked :: bytes
  pread :: nat

definition NewPeekConn :: "bytes list \<Rightarrow> peek_conn" where
  "NewPeekConn segs = \<lparr>segments = segs, peeked = [], pread = 0\<rparr>"

text \<open>\<open>Conn.Read\<close> into a buffer of \<open>n\<close> bytes; \<open>None\<close> is an error.\<close>

definition conn_Read :: "nat \<Rightarrow> bytes list \<Rightarrow> bytes option \<times> bytes list" where
  "conn_Read n segs =
     (case segs of [] \<Rightarrow> (None, [])
      | s # ss \<Rightarrow> (Some (take n s), if length s \<le> n then ss else drop n s # ss))"

text \<open>The loop of \<open>Peek\<close>: \<open>buf\<close> is what it has read, \<open>n\<close> what it wants.\<close>

function peek_loop :: "nat \<Rightarrow> bytes \<Rightarrow> bytes list \<Rightarrow> bool \<times> bytes \<times> bytes list" where
  "peek_loop n buf segs =
     (if n \<le> length buf then (True, buf, segs)
      else case conn_Read (n - length buf) segs of
          (None, segs') \<Rightarrow> (False, buf, segs')
        | (Some d, segs') \<Rightarrow> peek_loop n (buf @ d) segs')"
  by pat_completeness auto
termination
  by (relation "measure (\<lambda>(n, buf, segs). length segs + (n - length buf))")
    (auto simp: conn_Read_def split: list.splits if_splits)

declare peek_loop.simps [simp del]

definition Peek :: "nat \<Rightarrow> peek_conn \<Rightarrow> (bytes \<times> bool) \<times> peek_conn" where
  "Peek n pc =
     (if n \<le> length (peeked pc) then ((take n (peeked pc), True), pc)
      else case peek_loop n [] (segments pc) of
          (ok, buf, segs) \<Rightarrow> ((buf, ok), pc\<lparr>segments := segs, peeked := buf\<rparr>))"

definition PeekRead :: "nat \<Rightarrow> peek_conn \<Rightarrow> bytes option \<times> peek_conn" where
  "PeekRead n pc =
     (if pread pc < length (peeked pc) then
        (let d = take n (drop (pread pc) (peeked pc)) in (Some d, pc\<lparr>pread := pread pc + length d\<rparr>))
      else case conn_Read n (segments pc) of (r, segs) \<Rightarrow> (r, pc\<lparr>segments := segs\<rparr>))"

text \<open>What is still to come out of the connection.\<close>

definition peek_content :: "peek_conn \<Rightarrow> bytes" where
  "peek_content pc = drop (pread pc) (peeked pc) @ concat (segments pc)"

definition peek_ok :: "peek_conn \<Rightarrow> bool" where
  "peek_ok pc \<longleftrightarrow> pread pc \<le> length (peeked pc)"

lemma conn_Read_content:
  "conn_Read n segs = (r, segs') \<Longrightarrow>
   concat segs = (case r of None \<Rightarrow> [] | Some d \<Rightarrow> d) @ concat segs' \<and>
   (case r of None \<Rightarrow> segs = [] \<and> segs' = [] | Some d \<Rightarrow> length d \<le> n)"
  by (auto simp: conn_Read_def split: list.splits if_splits)

interpretation peek_source: byte_source PeekRead peek_content peek_ok
proof
  fix s s' :: peek_conn and n and d :: bytes
  assume ok: "peek_ok s"
  show "PeekRead n s = (Some d, s') \<Longrightarrow> peek_ok s' \<and> peek_content s = d @ peek_content s' \<and> length d \<le> n"
    using ok conn_Read_content [of n "segments s"]
    by (auto simp: PeekRead_def peek_content_def peek_ok_def Let_def min_def split: if_splits prod.splits option.splits)
       (metis append_take_drop_id drop_drop add.commute)+
  show "PeekRead n s = (None, s') \<Longrightarrow> peek_ok s' \<and> peek_content s' = peek_content s"
    using ok conn_Read_content [of n "segments s"]
    by (auto simp: PeekRead_def peek_content_def peek_ok_def Let_def split: if_splits prod.splits)
qed

lemma peek_loop_content:
  "peek_loop n buf segs = (ok, b, segs') \<Longrightarrow> length buf \<le> n \<Longrightarrow>
   buf @ concat segs = b @ concat segs' \<and> length b \<le> n \<and> (ok \<longleftrightarrow> length b = n) \<and> (\<not> ok \<longrightarrow> segs' = [])"
proof (induction n buf segs rule: peek_loop.induct)
  case (1 n buf segs)
  show ?case
  proof (cases "n \<le> length buf")
    case True
    with "1.prems" show ?thesis by (simp add: peek_loop.simps)
  next
    case False
    obtain r ss where r: "conn_Read (n - length buf) segs = (r, ss)" by (cases "conn_Read (n - length buf) segs")
    note c = conn_Read_content [OF r]
    show ?thesis
    proof (cases r)
      case None
      with "1.prems" False r c show ?thesis by (auto simp: peek_loop.simps)
    next
      case (Some d)
      with "1.prems" False r have "peek_loop n (buf @ d) ss = (ok, b, segs')"
        by (subst (asm) peek_loop.simps) simp
      with "1.IH" [OF False r [symmetric] Some] c Some False show ?thesis by auto
    qed
  qed
qed


lemma peek_shows:
  assumes "Peek n (NewPeekConn segs) = ((b, ok), pc)"
  shows "b = take n (concat segs) \<and> (ok \<longleftrightarrow> n \<le> length (concat segs)) \<and> peek_ok pc \<and> peek_content pc = concat segs"
proof -
  obtain ok' buf ss where l: "peek_loop n [] segs = (ok', buf, ss)" by (cases "peek_loop n [] segs")
  have c: "concat segs = buf @ concat ss" "length buf \<le> n" "ok' \<longleftrightarrow> length buf = n" "\<not> ok' \<longrightarrow> ss = []"
    using peek_loop_content [OF l] by auto
  have "b = buf \<and> ok = ok' \<and> peek_ok pc \<and> peek_content pc = concat segs"
    using assms l c by (cases "n = 0") (auto simp: Peek_def NewPeekConn_def peek_ok_def peek_content_def peek_loop.simps)
  moreover have "buf = take n (concat segs) \<and> (ok' \<longleftrightarrow> n \<le> length (concat segs))"
    using c by (cases ok') auto
  ultimately show ?thesis by blast
qed

text \<open>
  One \<open>Peek\<close> consumes nothing: it shows the next bytes of the client, all that was asked for
  unless the client stopped before, and whatever is read afterwards, in pieces of any size,
  starts with the first byte the client sent.
\<close>

theorem peek_loses_nothing:
  assumes "Peek n (NewPeekConn segs) = ((b, ok), pc)" and "peek_source.reads ns pc = (got, pc')"
  shows "b = take n (concat segs) \<and> (ok \<longleftrightarrow> n \<le> length (concat segs)) \<and>
    got @ peek_content pc' = concat segs \<and> length got \<le> sum_list ns"
  using peek_shows [OF assms(1)] peek_source.reads_content [OF _ assms(2)] by metis

theorem peek_loses_nothing_witness:
  "fst (peek_source.reads [2, 4] (snd (Peek 3 (NewPeekConn [[1, 2], [3, 4], [5]])))) = [1, 2, 3]"
proof -
  let ?p = "snd (Peek 3 (NewPeekConn [[1, 2], [3, 4], [5]]))"
  obtain got pc where r: "peek_source.reads [2, 4] ?p = (got, pc)" by (cases "peek_source.reads [2, 4] ?p")
  obtain b ok where b: "Peek 3 (NewPeekConn [[1, 2], [3, 4], [5]]) = ((b, ok), ?p)"
    by (metis prod.collapse)
  have p: "?p = \<lparr>segments = [[4], [5]], peeked = [1, 2, 3], pread = 0\<rparr>"
    by (simp add: Peek_def NewPeekConn_def peek_loop.simps conn_Read_def)
  have "got @ peek_content pc = [1, 2, 3, 4, 5]"
    using peek_loses_nothing [OF b r] by simp
  moreover have "peek_content pc = [4, 5]"
    using r unfolding p by (auto simp: PeekRead_def peek_content_def conn_Read_def Let_def)
  ultimately show ?thesis using r by simp
qed

text \<open>
  A second \<open>Peek\<close> for more bytes starts afresh: it replaces the bytes peeked at before by the
  bytes after them, and the first ones are lost to every later read.
\<close>

theorem peek_again_loses:
  assumes "Peek n (NewPeekConn segs) = ((b, True), pc)" and "n < m" and "Peek m pc = ((b', ok), pc')"
  shows "b' = take m (drop n (concat segs)) \<and> peek_content pc' = drop n (concat segs)"
proof -
  obtain ok1 buf ss where l: "peek_loop n [] segs = (ok1, buf, ss)" by (cases "peek_loop n [] segs")
  have c: "concat segs = buf @ concat ss" "length buf \<le> n" "ok1 \<longleftrightarrow> length buf = n"
    using peek_loop_content [OF l] by auto
  have pc: "pc = \<lparr>segments = ss, peeked = buf, pread = 0\<rparr>" "length buf = n"
    using assms(1) l c by (cases "n = 0"; auto simp: Peek_def NewPeekConn_def peek_loop.simps)+
  obtain ok2 buf2 ss2 where l2: "peek_loop m [] ss = (ok2, buf2, ss2)" by (cases "peek_loop m [] ss")
  have c2: "concat ss = buf2 @ concat ss2" "length buf2 \<le> m" "ok2 \<longleftrightarrow> length buf2 = m" "\<not> ok2 \<longrightarrow> ss2 = []"
    using peek_loop_content [OF l2] by auto
  have "b' = buf2 \<and> peek_content pc' = concat ss"
    using assms(2,3) pc l2 c2 by (auto simp: Peek_def peek_content_def)
  then show ?thesis using c pc(2) c2 by (cases ok2) auto
qed

theorem peek_again_loses_witness:
  "peek_content (snd (Peek 3 (snd (Peek 1 (NewPeekConn [[7, 8, 9]]))))) = [8, 9]"
proof -
  have p: "Peek 1 (NewPeekConn [[7, 8, 9]]) = (([7], True), \<lparr>segments = [[8, 9]], peeked = [7], pread = 0\<rparr>)"
    by (simp add: Peek_def NewPeekConn_def peek_loop.simps conn_Read_def)
  obtain b ok pc where q: "Peek 3 \<lparr>segments = [[8, 9]], peeked = [7 :: byte], pread = 0\<rparr> = ((b, ok), pc)"
    by (metis prod.collapse)
  from peek_again_loses [OF p _ q] p q show ?thesis by simp
qed

section \<open>SNIExtract\<close>

text \<open>An index or a slice out of range is a panic: \<open>None\<close>.\<close>

definition byte_at :: "bytes \<Rightarrow> nat \<Rightarrow> nat option" where
  "byte_at data i = (if i < length data then Some (unat (data ! i)) else None)"

definition be16_at :: "bytes \<Rightarrow> nat \<Rightarrow> nat option" where
  "be16_at data i = do { a \<leftarrow> byte_at data i; b \<leftarrow> byte_at data (i + 1); Some (a * 256 + b) }"

definition slice_at :: "bytes \<Rightarrow> nat \<Rightarrow> nat \<Rightarrow> bytes option" where
  "slice_at data a b = (if a \<le> b \<and> b \<le> length data then Some (go_slice data a b) else None)"

function sni_walk :: "bytes \<Rightarrow> nat \<Rightarrow> nat \<Rightarrow> string option" where
  "sni_walk data end pos =
     (if pos + 4 \<le> end then do {
        extType \<leftarrow> be16_at data pos;
        extLen \<leftarrow> be16_at data (pos + 2);
        if extType = 0 \<and> pos + 4 + extLen \<le> end then do {
          sniData \<leftarrow> slice_at data (pos + 4) (pos + 4 + extLen);
          if length sniData < 5 then Some ''''
          else do {
            nameLen \<leftarrow> be16_at sniData 3;
            if 5 + nameLen \<le> length sniData
            then do { name \<leftarrow> slice_at sniData 5 (5 + nameLen); Some (str_of_bytes name) }
            else sni_walk data end (pos + 4 + extLen)
          }
        } else sni_walk data end (pos + 4 + extLen)
      } else Some '''')"
  by pat_completeness auto
termination
  by (relation "measure (\<lambda>(data, end, pos). end - pos)") auto

declare sni_walk.simps [simp del]

definition SNIExtract :: "bytes \<Rightarrow> string option" where
  "SNIExtract data =
     (if length data < 44 then Some ''''
      else do {
        ct \<leftarrow> byte_at data 0;
        if ct \<noteq> 0x16 then Some '''' else do {
        ht \<leftarrow> byte_at data 5;
        if ht \<noteq> 1 then Some '''' else
        let pos = 5 + 4 + 2 + 32 in
        if length data \<le> pos then Some '''' else do {
        sessionIDLen \<leftarrow> byte_at data pos;
        let pos = pos + 1 + sessionIDLen;
        if length data < pos + 2 then Some '''' else do {
        cipherSuitesLen \<leftarrow> be16_at data pos;
        let pos = pos + 2 + cipherSuitesLen;
        if length data < pos + 1 then Some '''' else do {
        compMethodsLen \<leftarrow> byte_at data pos;
        let pos = pos + 1 + compMethodsLen;
        if length data < pos + 2 then Some '''' else do {
        extensionsLen \<leftarrow> be16_at data pos;
        let pos = pos + 2;
        sni_walk data (min (length data) (pos + extensionsLen)) pos
        }}}}}})"

lemma byte_at_Some [simp]: "i < length data \<Longrightarrow> byte_at data i = Some (unat (data ! i))"
  by (simp add: byte_at_def)

lemma be16_at_Some: "i + 1 < length data \<Longrightarrow> be16_at data i = Some (unat (data ! i) * 256 + unat (data ! (i + 1)))"
  by (simp add: be16_at_def)

lemma total_if: "(c \<Longrightarrow> a \<noteq> None) \<Longrightarrow> (\<not> c \<Longrightarrow> b \<noteq> None) \<Longrightarrow> (if c then a else b) \<noteq> None"
  by simp

lemma total_bind: "m \<noteq> None \<Longrightarrow> (\<And>x. m = Some x \<Longrightarrow> f x \<noteq> None) \<Longrightarrow> Option.bind m f \<noteq> None"
  by (cases m) simp_all

lemma byte_at_total: "i < length data \<Longrightarrow> byte_at data i \<noteq> None"
  and be16_at_total: "i + 1 < length data \<Longrightarrow> be16_at data i \<noteq> None"
  and slice_at_total: "i \<le> j \<Longrightarrow> j \<le> length data \<Longrightarrow> slice_at data i j \<noteq> None"
  by (simp_all add: byte_at_def be16_at_Some slice_at_def)

lemmas total_rules = total_if total_bind byte_at_total be16_at_total slice_at_total

lemma sni_walk_total: "e \<le> length data \<Longrightarrow> sni_walk data e pos \<noteq> None"
proof (induction data e pos rule: sni_walk.induct)
  case (1 data e pos)
  show ?case
    by (subst sni_walk.simps) (intro total_rules "1.IH"; use "1.prems" in auto)
qed

text \<open>
  C23. No input, however malformed or cut short, makes \<open>SNIExtract\<close> index out of range or run on.\<close>

theorem sni_extract_total: "SNIExtract data \<noteq> None"
proof -
  have walk: "sni_walk data (min (length data) q) q' \<noteq> None" for q q' by (rule sni_walk_total) simp
  show ?thesis
    unfolding SNIExtract_def Let_def
    by (intro total_rules walk) auto
qed

section \<open>What a ClientHello names\<close>

text \<open>
  A ClientHello as RFC 8446 and RFC 6066 lay it out: record header, handshake header,
  version, random, session id, cipher suites, compression methods and extensions.
\<close>

definition enc_ext :: "nat \<times> bytes \<Rightarrow> bytes" where
  "enc_ext e = be16 (word_of_nat (fst e)) @ be16 (word_of_nat (length (snd e))) @ snd e"

definition sni_ext :: "string \<Rightarrow> nat \<times> bytes" where
  "sni_ext name = (0, be16 (word_of_nat (length name + 3)) @ [0] @ be16 (word_of_nat (length name)) @ bytes_of_str name)"

definition client_hello :: "bytes \<Rightarrow> bytes \<Rightarrow> bytes \<Rightarrow> bytes \<Rightarrow> bytes \<Rightarrow> (nat \<times> bytes) list \<Rightarrow> bytes" where
  "client_hello head random sid suites comps exts =
     [0x16] @ take 4 head @ [1] @ take 3 (drop 4 head) @ random @ [word_of_nat (length sid)] @ sid @
     be16 (word_of_nat (length suites)) @ suites @ [word_of_nat (length comps)] @ comps @
     be16 (word_of_nat (length (concat (map enc_ext exts)))) @ concat (map enc_ext exts)"

definition ext_ok :: "nat \<times> bytes \<Rightarrow> bool" where
  "ext_ok e \<longleftrightarrow> fst e < 65536 \<and> length (snd e) < 65536"

lemma be16_nth: "n < 65536 \<Longrightarrow> unat (be16 (word_of_nat n) ! 0) * 256 + unat (be16 (word_of_nat n) ! Suc 0) = n"
proof -
  assume n: "n < 65536"
  have "unat (drop_bit 8 (word_of_nat n :: u16)) = drop_bit 8 n"
    using n by (simp add: unat_drop_bit_eq unat_u16_of_nat)
  then have "unat (ucast (drop_bit 8 (word_of_nat n :: u16)) :: byte) = n div 256"
    using n by (simp add: unsigned_ucast_eq take_bit_eq_mod) (simp add: drop_bit_eq_div)
  moreover have "unat (ucast (word_of_nat n :: u16) :: byte) = n mod 256"
    using n by (simp add: unsigned_ucast_eq take_bit_eq_mod unat_u16_of_nat)
  ultimately show ?thesis by (simp add: be16_def)
qed

lemma be16_at_enc: "n < 65536 \<Longrightarrow> be16_at (f @ be16 (word_of_nat n) @ r) (length f) = Some n"
  using be16_nth [of n] by (simp add: be16_at_def byte_at_def nth_append)


lemma be16_at_enc': "n < 65536 \<Longrightarrow> i = length f \<Longrightarrow> be16_at (f @ be16 (word_of_nat n) @ r) i = Some n"
  using be16_at_enc by simp

lemma byte_at_enc: "n < 256 \<Longrightarrow> i = length f \<Longrightarrow> byte_at (f @ [word_of_nat n] @ r) i = Some n"
  by (simp add: byte_at_def nth_append unat_byte_of_nat)

lemma slice_at_append: "i = length f \<Longrightarrow> j = i + length s \<Longrightarrow> slice_at (f @ s @ r) i j = Some s"
  by (simp add: slice_at_def go_slice_def)

lemma length_enc_ext [simp]: "length (enc_ext e) = 4 + length (snd e)"
  by (simp add: enc_ext_def)

lemma sni_walk_exts:
  assumes "list_all (\<lambda>e. ext_ok e \<and> fst e \<noteq> 0) pre" and "length name + 5 < 65536"
  shows "sni_walk (f @ concat (map enc_ext (pre @ sni_ext name # post)) @ r)
    (length f + length (concat (map enc_ext (pre @ sni_ext name # post)))) (length f) = Some name"
  using assms(1)
proof (induction pre arbitrary: f)
  case Nil
  let ?s = "snd (sni_ext name)" and ?n = "length name"
  let ?data = "f @ concat (map enc_ext ([] @ sni_ext name # post)) @ r"
  have ls: "length ?s = ?n + 5" by (simp add: sni_ext_def)
  have t: "be16_at ?data (length f) = Some 0"
    using be16_at_enc [of 0 f] by (simp add: enc_ext_def sni_ext_def)
  have l: "be16_at ?data (length f + 2) = Some (?n + 5)"
    using be16_at_enc' [of "?n + 5" "length f + 2" "f @ be16 0"] assms(2) by (simp add: enc_ext_def sni_ext_def add.commute)
  have s: "slice_at ?data (length f + 4) (length f + 4 + (?n + 5)) = Some ?s"
    using slice_at_append [of "length f + 4" "f @ be16 0 @ be16 (word_of_nat (?n + 5))" "length f + 4 + (?n + 5)" ?s] ls
    by (simp add: enc_ext_def sni_ext_def add.commute)
  have n: "be16_at ?s 3 = Some ?n"
    using be16_at_enc' [of ?n 3 "be16 (word_of_nat (?n + 3)) @ [0]"] assms(2) by (simp add: sni_ext_def)
  have nm: "slice_at ?s 5 (5 + ?n) = Some (bytes_of_str name)"
    using slice_at_append [of 5 "be16 (word_of_nat (?n + 3)) @ [0] @ be16 (word_of_nat ?n)" "5 + ?n" "bytes_of_str name" "[]"]
    by (simp add: sni_ext_def)
  have le: "length f + 4 + (?n + 5) \<le> length f + length (concat (map enc_ext ([] @ sni_ext name # post)))"
    by (simp add: ls)
  show ?case
    using le by (subst sni_walk.simps) (simp only: t l s n nm ls Option.bind.simps, simp add: ls)
next
  case (Cons e pre)
  obtain ty d where e: "e = (ty, d)" by (cases e)
  let ?rest = "concat (map enc_ext (pre @ sni_ext name # post))"
  let ?data = "f @ concat (map enc_ext ((e # pre) @ sni_ext name # post)) @ r"
  have data: "?data = (f @ enc_ext e) @ ?rest @ r" by simp
  have t: "be16_at ?data (length f) = Some ty"
    using be16_at_enc [of ty f] Cons.prems by (simp add: enc_ext_def e ext_ok_def)
  have l: "be16_at ?data (length f + 2) = Some (length d)"
    using be16_at_enc' [of "length d" "length f + 2" "f @ be16 (word_of_nat ty)"] Cons.prems
    by (simp add: enc_ext_def e ext_ok_def)
  have ih: "sni_walk ?data (length (f @ enc_ext e) + length ?rest) (length (f @ enc_ext e)) = Some name"
    unfolding data by (rule Cons.IH) (use Cons.prems in simp)
  have len: "length f + length (concat (map enc_ext ((e # pre) @ sni_ext name # post))) =
      length (f @ enc_ext e) + length ?rest" by simp
  have ty: "ty \<noteq> 0" using Cons.prems by (simp add: e)
  have pos: "length (f @ enc_ext e) = length f + 4 + length d" by (simp add: e)
  show ?case
    unfolding len
    by (subst sni_walk.simps) (use ih ty in \<open>simp only: t l Option.bind.simps pos, simp\<close>)
qed

text \<open>
  C24. The server name of a well-formed ClientHello is extracted exactly, whatever the session
  id, the cipher suites, the compression methods, the extensions before it and after it, and
  any bytes that follow the message.
\<close>

theorem sni_of_client_hello:
  assumes "length head = 7" "length random = 34" "length sid < 256" "length suites < 65536" "length comps < 256"
    and "list_all (\<lambda>e. ext_ok e \<and> fst e \<noteq> 0) pre" and "length name + 5 < 65536"
    and "length (concat (map enc_ext (pre @ sni_ext name # post))) < 65536"
  shows "SNIExtract (client_hello head random sid suites comps (pre @ sni_ext name # post) @ rest) = Some name"
proof -
  let ?exts = "pre @ sni_ext name # post"
  let ?E = "concat (map enc_ext ?exts)"
  let ?a = "[0x16] @ take 4 head @ [1] @ take 3 (drop 4 head) @ random"
  let ?b = "?a @ [word_of_nat (length sid)] @ sid"
  let ?c = "?b @ be16 (word_of_nat (length suites)) @ suites"
  let ?d = "?c @ [word_of_nat (length comps)] @ comps"
  let ?f = "?d @ be16 (word_of_nat (length ?E))"
  define data where "data = client_hello head random sid suites comps ?exts @ rest"
  have la: "length ?a = 43" and lb: "length ?b = 44 + length sid"
    and lc: "length ?c = 44 + length sid + 2 + length suites"
    and ld: "length ?d = 44 + length sid + 2 + length suites + 1 + length comps"
    and lf: "length ?f = 44 + length sid + 2 + length suites + 1 + length comps + 2"
    using assms(1,2) by simp_all
  have D: "data = ?f @ ?E @ rest" unfolding data_def client_hello_def by simp
  let ?p0 = "5 + 4 + 2 + 32 :: nat"
  let ?p1 = "?p0 + 1 + length sid"
  let ?p2 = "?p1 + 2 + length suites"
  let ?p3 = "?p2 + 1 + length comps"
  have len: "length data = ?p3 + 2 + length ?E + length rest"
    unfolding D using assms(1,2) by simp
  have c: "(length data < 44) = False" "(length data \<le> ?p0) = False" "(length data < ?p1 + 2) = False"
    "(length data < ?p2 + 1) = False" "(length data < ?p3 + 2) = False"
    unfolding len by simp_all
  have b0: "byte_at data 0 = Some 0x16" and b5: "byte_at data 5 = Some 1"
    using assms(1,2) by (simp_all add: D byte_at_def nth_append)
  have bs: "byte_at data ?p0 = Some (length sid)"
    using byte_at_enc [of "length sid" ?p0 ?a] assms(3) la unfolding D by simp
  have bc: "be16_at data ?p1 = Some (length suites)"
    using be16_at_enc' [of "length suites" ?p1 ?b] assms(4) lb unfolding D by simp
  have bm: "byte_at data ?p2 = Some (length comps)"
    using byte_at_enc [of "length comps" ?p2 ?c] assms(5) lc unfolding D by simp
  have be: "be16_at data ?p3 = Some (length ?E)"
    using be16_at_enc' [of "length ?E" ?p3 ?d] assms(8) ld unfolding D by simp
  have pf: "length ?f = ?p3 + 2" unfolding lf by simp
  have m: "min (length data) (?p3 + 2 + length ?E) = ?p3 + 2 + length ?E" unfolding len by simp
  have walk: "sni_walk data (?p3 + 2 + length ?E) (?p3 + 2) = Some name"
    using sni_walk_exts [OF assms(6,7), of ?f post rest] unfolding pf D .
  have ne: "(0x16 \<noteq> (0x16 :: nat)) = False" "(1 \<noteq> (1 :: nat)) = False" by simp_all
  have "SNIExtract data = Some name"
    unfolding SNIExtract_def Let_def
    by (simp only: c b0 b5 bs bc bm be m ne walk Option.bind.simps if_False)
  then show ?thesis by (simp only: data_def)
qed


theorem sni_of_client_hello_witness:
  "SNIExtract (client_hello [1, 2, 3, 4, 5, 6, 7] (replicate 34 0) [9] [0x13, 1] [0] [(10, [0, 23]), sni_ext ''nv.io''] @ [1])
     = Some ''nv.io''"
  using sni_of_client_hello [of "[1, 2, 3, 4, 5, 6, 7]" "replicate 34 0" "[9]" "[0x13, 1]" "[0]" "[(10, [0, 23])]" "''nv.io''" "[]" "[1]"]
  by (simp add: ext_ok_def sni_ext_def)

section \<open>FormatRealityDest\<close>

definition FormatRealityDest :: "string \<Rightarrow> string" where
  "FormatRealityDest dest =
     (if dest = '''' then '''' else case SplitHostPort dest of None \<Rightarrow> dest @ '':443'' | Some _ \<Rightarrow> dest)"

text \<open>
  A name without colon or brackets gets port 443, an address with a port stays as it is, and
  a second application changes nothing; but a bare IPv6 address gets a suffix that leaves it
  without a valid host and port.
\<close>

theorem reality_dest_format:
  "(dest \<noteq> '''' \<and> no_bracket dest \<and> CHR '':'' \<notin> set dest \<longrightarrow>
      SplitHostPort (FormatRealityDest dest) = Some (dest, ''443'')) \<and>
   (SplitHostPort dest = Some hp \<longrightarrow> FormatRealityDest dest = dest) \<and>
   (SplitHostPort (FormatRealityDest dest) \<noteq> None \<longrightarrow>
      FormatRealityDest (FormatRealityDest dest) = FormatRealityDest dest) \<and>
   (CHR '':'' \<in> set dest \<and> no_bracket dest \<and> SplitHostPort dest = None \<longrightarrow>
      SplitHostPort (FormatRealityDest dest) = None)"
proof -
  have p: "no_bracket ''443'' \<and> CHR '':'' \<notin> set ''443''" by (simp add: no_bracket_def)
  have 1: "SplitHostPort (dest @ '':443'') = Some (dest, ''443'')" if "no_bracket dest" "CHR '':'' \<notin> set dest"
    using split_plain [of dest "''443''"] that p by simp
  have 2: "SplitHostPort (dest @ '':443'') = None" if "CHR '':'' \<in> set dest" "no_bracket dest"
  proof -
    have "hd (dest @ '':443'') \<noteq> CHR ''[''" using that by (cases dest) (auto simp: no_bracket_def)
    then show ?thesis
      using that last_colon [of "''443''" dest] by (simp add: SplitHostPort_def Let_def)
  qed
  have 3: "SplitHostPort dest = None" if "CHR '':'' \<notin> set dest" using that by (simp add: SplitHostPort_def Let_def)
  have "FormatRealityDest dest = dest @ '':443''" if "dest \<noteq> ''''" "SplitHostPort dest = None"
    using that by (simp add: FormatRealityDest_def)
  with 1 2 3 show ?thesis by (auto simp: FormatRealityDest_def split: option.splits)
qed

theorem reality_dest_format_witness:
  "SplitHostPort (FormatRealityDest ''google.com'') = Some (''google.com'', ''443'') \<and>
   SplitHostPort (FormatRealityDest ''::1'') = None"
proof -
  have "SplitHostPort ''::1'' = None" by (simp add: SplitHostPort_def Let_def)
  then show ?thesis
    using reality_dest_format [of "''google.com''" "(''google.com'', ''443'')"] reality_dest_format [of "''::1''" "(''google.com'', ''443'')"]
    by (simp add: no_bracket_def)
qed

section \<open>Probes are forwarded whole\<close>

text \<open>An \<open>authTest\<close> that peeks at the first \<open>n\<close> bytes of a connection and decides on them.\<close>

definition peek_test :: "nat \<Rightarrow> (bytes \<Rightarrow> bool) \<Rightarrow> peek_conn \<Rightarrow> peek_conn \<times> bool" where
  "peek_test n own pc = (case Peek n pc of ((b, ok), pc') \<Rightarrow> (pc', own b))"

lemma reality_Accept_splits:
  "reality_Accept authTest cs = (r, fwd, rest) \<Longrightarrow>
   \<exists>pre. fwd = map (\<lambda>c. fst (authTest c)) pre \<and> (\<forall>c \<in> set pre. \<not> snd (authTest c)) \<and>
     (case r of None \<Rightarrow> cs = pre \<and> rest = []
      | Some ac \<Rightarrow> \<exists>c. cs = pre @ c # rest \<and> authTest c = (ac, True))"
proof (induction cs arbitrary: fwd)
  case Nil
  then show ?case by auto
next
  case (Cons c cs)
  obtain ac auth where a: "authTest c = (ac, auth)" by (cases "authTest c")
  show ?case
  proof (cases auth)
    case True
    with Cons.prems a show ?thesis by (intro exI [of _ "[]"]) auto
  next
    case False
    obtain r' fwd' rest' where r: "reality_Accept authTest cs = (r', fwd', rest')" by (cases "reality_Accept authTest cs")
    with Cons.prems a False have e: "r' = r" "rest' = rest" "fwd = ac # fwd'" by auto
    from Cons.IH [of fwd'] r e obtain pre where "fwd' = map (\<lambda>c. fst (authTest c)) pre"
      "\<forall>c \<in> set pre. \<not> snd (authTest c)"
      "case r of None \<Rightarrow> cs = pre \<and> rest = [] | Some ac \<Rightarrow> \<exists>c. cs = pre @ c # rest \<and> authTest c = (ac, True)" by auto
    then show ?thesis using a False e
      by (intro exI [of _ "c # pre"]) (auto split: option.splits)
  qed
qed



end
