(* ===== verification/Rotator.thy ===== *)
theory Rotator
  imports Throttle
begin

text \<open>
  Model of \<open>internal/throttle/rotator.go\<close>: the rotator of the tunnel parameters, its three
  levels of rotation and its two timer loops as a step relation. The numbers and characters
  drawn from the random source are a parameter of each rotation.
\<close>

section \<open>Parameters and their ranges\<close>

record rotator_config =
  ParamRotateInterval :: int
  SessionRotateInterval :: int
  EmergencyRotate :: bool

definition rotator_defaults :: "rotator_config \<Rightarrow> rotator_config" where
  "rotator_defaults c = c\<lparr>
     ParamRotateInterval := (if ParamRotateInterval c \<le> 0 then 5 * 60000000000 else ParamRotateInterval c),
     SessionRotateInterval := (if SessionRotateInterval c \<le> 0 then 30 * 60000000000 else SessionRotateInterval c)\<rparr>"

record live_params =
  PaddingMin :: int
  PaddingMax :: int
  ChunkSize :: int
  JitterMinMs :: int
  JitterMaxMs :: int
  LPathPrefix :: string
  LUploadPath :: string
  LDownloadPath :: string
  SessionKey :: string

record param_ranges =
  PaddingMinRange :: "int \<times> int"
  PaddingMaxRange :: "int \<times> int"
  ChunkSizeRange :: "int \<times> int"
  JitterMinMsRange :: "int \<times> int"
  JitterMaxMsRange :: "int \<times> int"
  PathLength :: nat

definition DefaultRanges :: param_ranges where
  "DefaultRanges = \<lparr>PaddingMinRange = (32, 128), PaddingMaxRange = (128, 512),
     ChunkSizeRange = (8192, 14336), JitterMinMsRange = (5, 30), JitterMaxMsRange = (30, 100),
     PathLength = 6\<rparr>"

definition range_rand :: "int \<times> int \<Rightarrow> int \<Rightarrow> int" where
  "range_rand r d = (if snd r \<le> fst r then fst r else wrap64 (fst r + d))"

text \<open>
  A range whose ends, and whose size, are 64-bit numbers: for a larger one the size given to
  the random source overflows and the source panics.
\<close>

definition int_range :: "int \<Rightarrow> int \<Rightarrow> bool" where
  "int_range lo hi \<longleftrightarrow> - (2 ^ 63) \<le> lo \<and> hi < 2 ^ 63 \<and> hi - lo + 1 < 2 ^ 63"

interpretation rrand: ranged_choice "\<lambda>lo hi. range_rand (lo, hi)" int_range
  by unfold_locales (simp_all add: range_rand_def int_range_def)

definition alphanum_charset :: string where
  "alphanum_charset = ''abcdefghijklmnopqrstuvwxyz0123456789''"

text \<open>\<open>ds\<close> are the draws below the size of the character set.\<close>

definition randomAlphaNum :: "nat \<Rightarrow> (nat \<Rightarrow> nat) \<Rightarrow> string" where
  "randomAlphaNum n ds = map (\<lambda>i. alphanum_charset ! ds i) [0..<n]"

text \<open>The draws of one rotation: five numbers and four strings.\<close>

record draws =
  d_pmin :: int
  d_pmax :: int
  d_chunk :: int
  d_jmin :: int
  d_jmax :: int
  d_prefix :: "nat \<Rightarrow> nat"
  d_up :: "nat \<Rightarrow> nat"
  d_down :: "nat \<Rightarrow> nat"
  d_key :: "nat \<Rightarrow> nat"

record rotator =
  rconfig :: rotator_config
  ranges :: param_ranges
  params :: live_params
  onParamRotate :: "nat list"
  onSessionRotate :: "nat list"
  rstopped :: bool

definition randomizeAll :: "draws \<Rightarrow> param_ranges \<Rightarrow> live_params" where
  "randomizeAll d r = \<lparr>PaddingMin = range_rand (PaddingMinRange r) (d_pmin d),
     PaddingMax = range_rand (PaddingMaxRange r) (d_pmax d),
     ChunkSize = range_rand (ChunkSizeRange r) (d_chunk d),
     JitterMinMs = range_rand (JitterMinMsRange r) (d_jmin d),
     JitterMaxMs = range_rand (JitterMaxMsRange r) (d_jmax d),
     LPathPrefix = ''/'' @ randomAlphaNum (PathLength r) (d_prefix d),
     LUploadPath = ''/u/'' @ randomAlphaNum 3 (d_up d),
     LDownloadPath = ''/d/'' @ randomAlphaNum 3 (d_down d),
     SessionKey = randomAlphaNum 5 (d_key d)\<rparr>"

text \<open>
  \<open>NewRotator\<close>, with the number \<open>l\<close> of the callback that it registers on the detector of
  the controller, when it has one and emergency rotation is on.
\<close>

definition NewRotator :: "draws \<Rightarrow> rotator_config \<Rightarrow> param_ranges \<Rightarrow> nat \<Rightarrow> 'f detector option
    \<Rightarrow> rotator \<times> 'f detector option" where
  "NewRotator d cfg rs l det =
     (let cfg = rotator_defaults cfg in
      (\<lparr>rconfig = cfg, ranges = rs, params = randomizeAll d rs, onParamRotate = [],
        onSessionRotate = [], rstopped = False\<rparr>,
       (if EmergencyRotate cfg then map_option (detector_OnStateChange l) det else det)))"

definition rotator_Stop :: "rotator \<Rightarrow> rotator option" where
  "rotator_Stop r = (if rstopped r then None else Some (r\<lparr>rstopped := True\<rparr>))"

definition GetParams :: "rotator \<Rightarrow> live_params" where
  "GetParams r = params r"

definition SetInitialParams :: "live_params \<Rightarrow> rotator \<Rightarrow> rotator" where
  "SetInitialParams p r =
     (let q = params r in
      r\<lparr>params := q\<lparr>
        LPathPrefix := (if LPathPrefix p \<noteq> '''' then LPathPrefix p else LPathPrefix q),
        LUploadPath := (if LUploadPath p \<noteq> '''' then LUploadPath p else LUploadPath q),
        LDownloadPath := (if LDownloadPath p \<noteq> '''' then LDownloadPath p else LDownloadPath q),
        SessionKey := (if SessionKey p \<noteq> '''' then SessionKey p else SessionKey q),
        ChunkSize := (if 0 < ChunkSize p then ChunkSize p else ChunkSize q),
        PaddingMin := (if 0 < PaddingMin p then PaddingMin p else PaddingMin q),
        PaddingMax := (if 0 < PaddingMax p then PaddingMax p else PaddingMax q)\<rparr>\<rparr>)"

definition OnParamRotate :: "nat \<Rightarrow> rotator \<Rightarrow> rotator" where
  "OnParamRotate l r = r\<lparr>onParamRotate := onParamRotate r @ [l]\<rparr>"

definition OnSessionRotate :: "nat \<Rightarrow> rotator \<Rightarrow> rotator" where
  "OnSessionRotate l r = r\<lparr>onSessionRotate := onSessionRotate r @ [l]\<rparr>"

definition rotateParams :: "draws \<Rightarrow> rotator \<Rightarrow> (nat \<times> live_params) list \<times> rotator" where
  "rotateParams d r =
     (let pmin = range_rand (PaddingMinRange (ranges r)) (d_pmin d);
          pmax = range_rand (PaddingMaxRange (ranges r)) (d_pmax d);
          jmin = range_rand (JitterMinMsRange (ranges r)) (d_jmin d);
          jmax = range_rand (JitterMaxMsRange (ranges r)) (d_jmax d);
          p = (params r)\<lparr>PaddingMin := pmin,
                PaddingMax := (if pmax < pmin then wrap64 (pmin + 64) else pmax),
                ChunkSize := range_rand (ChunkSizeRange (ranges r)) (d_chunk d),
                JitterMinMs := jmin,
                JitterMaxMs := (if jmax < jmin then wrap64 (jmin + 20) else jmax)\<rparr>
      in (map (\<lambda>l. (l, p)) (onParamRotate r), r\<lparr>params := p\<rparr>))"

definition rotateSession :: "draws \<Rightarrow> rotator \<Rightarrow> (nat \<times> live_params) list \<times> rotator" where
  "rotateSession d r =
     (let p = randomizeAll d (ranges r) in (map (\<lambda>l. (l, p)) (onSessionRotate r), r\<lparr>params := p\<rparr>))"

definition EmergencyRotateNow :: "draws \<Rightarrow> rotator \<Rightarrow> (nat \<times> live_params) list \<times> rotator" where
  "EmergencyRotateNow d r =
     (let p = randomizeAll d (ranges r) in (map (\<lambda>l. (l, p)) (onSessionRotate r), r\<lparr>params := p\<rparr>))"


section \<open>The rotator with its two loops\<close>

text \<open>
  \<open>Start\<close> starts \<open>paramLoop\<close> and \<open>sessionLoop\<close>. A loop takes a tick of its timer, or ends
  when the stop channel is closed; with both ready either may be chosen. An emergency
  rotation comes from the callback on the detector, at any time.
\<close>

definition emergency_callback :: "draws \<Rightarrow> tstate \<Rightarrow> rotator \<Rightarrow> (nat \<times> live_params) list \<times> rotator" where
  "emergency_callback d s r = (if s = StateThrottled then EmergencyRotateNow d r else ([], r))"

record rotator_run =
  rot :: rotator
  ploop :: bool
  sloop :: bool

definition rotator_Start :: "rotator \<Rightarrow> rotator_run" where
  "rotator_Start r = \<lparr>rot = r, ploop = True, sloop = True\<rparr>"

text \<open>The draws that the random source can give for the ranges.\<close>

definition draws_ok :: "param_ranges \<Rightarrow> draws \<Rightarrow> bool" where
  "draws_ok r d \<longleftrightarrow>
     rrand.draw_ok (fst (PaddingMinRange r)) (snd (PaddingMinRange r)) (d_pmin d) \<and>
     rrand.draw_ok (fst (PaddingMaxRange r)) (snd (PaddingMaxRange r)) (d_pmax d) \<and>
     rrand.draw_ok (fst (ChunkSizeRange r)) (snd (ChunkSizeRange r)) (d_chunk d) \<and>
     rrand.draw_ok (fst (JitterMinMsRange r)) (snd (JitterMinMsRange r)) (d_jmin d) \<and>
     rrand.draw_ok (fst (JitterMaxMsRange r)) (snd (JitterMaxMsRange r)) (d_jmax d) \<and>
     (\<forall>i < PathLength r. d_prefix d i < length alphanum_charset) \<and>
     (\<forall>i < 3. d_up d i < length alphanum_charset) \<and> (\<forall>i < 3. d_down d i < length alphanum_charset) \<and>
     (\<forall>i < 5. d_key d i < length alphanum_charset)"

inductive rotator_step :: "rotator_run \<Rightarrow> (nat \<times> live_params) list \<Rightarrow> rotator_run \<Rightarrow> bool" where
  param_tick: "ploop s \<Longrightarrow> draws_ok (ranges (rot s)) d \<Longrightarrow> rotateParams d (rot s) = (cs, r)
    \<Longrightarrow> rotator_step s cs (s\<lparr>rot := r\<rparr>)"
| param_end: "ploop s \<Longrightarrow> rstopped (rot s) \<Longrightarrow> rotator_step s [] (s\<lparr>ploop := False\<rparr>)"
| session_tick: "sloop s \<Longrightarrow> draws_ok (ranges (rot s)) d \<Longrightarrow> rotateSession d (rot s) = (cs, r)
    \<Longrightarrow> rotator_step s cs (s\<lparr>rot := r\<rparr>)"
| session_end: "sloop s \<Longrightarrow> rstopped (rot s) \<Longrightarrow> rotator_step s [] (s\<lparr>sloop := False\<rparr>)"
| emergency: "draws_ok (ranges (rot s)) d \<Longrightarrow> emergency_callback d t (rot s) = (cs, r)
    \<Longrightarrow> rotator_step s cs (s\<lparr>rot := r\<rparr>)"
| stop: "rotator_Stop (rot s) = Some r \<Longrightarrow> rotator_step s [] (s\<lparr>rot := r\<rparr>)"

inductive_cases rotator_stepE: "rotator_step s cs t"

inductive rotator_runs :: "rotator_run \<Rightarrow> (nat \<times> live_params) list \<Rightarrow> rotator_run \<Rightarrow> bool" where
  none: "rotator_runs s [] s"
| more_steps: "rotator_runs s cs t \<Longrightarrow> rotator_step t cs' u \<Longrightarrow> rotator_runs s (cs @ cs') u"

section \<open>What every set of parameters satisfies\<close>

definition alnum_path :: "string \<Rightarrow> nat \<Rightarrow> string \<Rightarrow> bool" where
  "alnum_path pre n s \<longleftrightarrow> (\<exists>t. s = pre @ t \<and> length t = n \<and> set t \<subseteq> set alphanum_charset)"

text \<open>The bounds given by the ranges; the padding and jitter maxima may exceed theirs to stay above the minima.\<close>

definition in_ranges :: "param_ranges \<Rightarrow> live_params \<Rightarrow> bool" where
  "in_ranges r p \<longleftrightarrow>
     fst (PaddingMinRange r) \<le> PaddingMin p \<and> PaddingMin p \<le> max (fst (PaddingMinRange r)) (snd (PaddingMinRange r)) \<and>
     fst (PaddingMaxRange r) \<le> PaddingMax p \<and>
     fst (ChunkSizeRange r) \<le> ChunkSize p \<and> ChunkSize p \<le> max (fst (ChunkSizeRange r)) (snd (ChunkSizeRange r)) \<and>
     fst (JitterMinMsRange r) \<le> JitterMinMs p \<and> JitterMinMs p \<le> max (fst (JitterMinMsRange r)) (snd (JitterMinMsRange r)) \<and>
     fst (JitterMaxMsRange r) \<le> JitterMaxMs p \<and>
     alnum_path ''/'' (PathLength r) (LPathPrefix p) \<and> alnum_path ''/u/'' 3 (LUploadPath p) \<and>
     alnum_path ''/d/'' 3 (LDownloadPath p) \<and> alnum_path '''' 5 (SessionKey p)"

definition ranges_ok :: "param_ranges \<Rightarrow> bool" where
  "ranges_ok r \<longleftrightarrow>
     list_all (\<lambda>(lo, hi). int_range lo hi \<and> lo < 2 ^ 62 \<and> hi < 2 ^ 62)
       [PaddingMinRange r, PaddingMaxRange r, ChunkSizeRange r, JitterMinMsRange r, JitterMaxMsRange r]"

text \<open>The ranges are separated: no minimum can exceed its maximum.\<close>

definition ranges_separated :: "param_ranges \<Rightarrow> bool" where
  "ranges_separated r \<longleftrightarrow>
     max (fst (PaddingMinRange r)) (snd (PaddingMinRange r)) \<le> fst (PaddingMaxRange r) \<and>
     max (fst (JitterMinMsRange r)) (snd (JitterMinMsRange r)) \<le> fst (JitterMaxMsRange r)"

definition ordered_params :: "live_params \<Rightarrow> bool" where
  "ordered_params p \<longleftrightarrow> PaddingMin p \<le> PaddingMax p \<and> JitterMinMs p \<le> JitterMaxMs p"

lemma randomAlphaNum_path:
  "\<forall>i < n. ds i < length alphanum_charset \<Longrightarrow> alnum_path pre n (pre @ randomAlphaNum n ds)"
  by (auto simp: alnum_path_def randomAlphaNum_def)

lemma range_rand_in:
  "int_range (fst r) (snd r) \<Longrightarrow> rrand.draw_ok (fst r) (snd r) d \<Longrightarrow>
   fst r \<le> range_rand r d \<and> range_rand r d \<le> max (fst r) (snd r)"
  using rrand.in_range [of "fst r" "snd r" d] by simp

lemma in_ranges_randomizeAll:
  assumes "ranges_ok r" and "draws_ok r d"
  shows "in_ranges r (randomizeAll d r)"
  using assms range_rand_in randomAlphaNum_path [where pre = "''''"]
  by (auto simp: in_ranges_def randomizeAll_def ranges_ok_def draws_ok_def split_beta
      intro!: randomAlphaNum_path [where pre = "''/''", simplified] randomAlphaNum_path [where pre = "''/u/''", simplified]
        randomAlphaNum_path [where pre = "''/d/''", simplified])


lemma rotateParams_facts:
  assumes "ranges_ok (ranges r)" and "draws_ok (ranges r) d" and "in_ranges (ranges r) (params r)"
    and "rotateParams d r = (cs, r')"
  shows "in_ranges (ranges r) (params r') \<and> ordered_params (params r') \<and>
    r' = r\<lparr>params := params r'\<rparr> \<and> cs = map (\<lambda>l. (l, params r')) (onParamRotate r) \<and>
    LPathPrefix (params r') = LPathPrefix (params r) \<and> LUploadPath (params r') = LUploadPath (params r) \<and>
    LDownloadPath (params r') = LDownloadPath (params r) \<and> SessionKey (params r') = SessionKey (params r)"
proof -
  let ?R = "ranges r"
  have ok: "int_range (fst q) (snd q) \<and> fst q < 2 ^ 62 \<and> snd q < 2 ^ 62 \<and> - (2 ^ 63) \<le> fst q"
    if "q \<in> {PaddingMinRange ?R, PaddingMaxRange ?R, ChunkSizeRange ?R, JitterMinMsRange ?R, JitterMaxMsRange ?R}" for q
    using that assms(1) by (auto simp: ranges_ok_def split_beta int_range_def)
  have b: "fst (PaddingMinRange ?R) \<le> range_rand (PaddingMinRange ?R) (d_pmin d)"
    "range_rand (PaddingMinRange ?R) (d_pmin d) \<le> max (fst (PaddingMinRange ?R)) (snd (PaddingMinRange ?R))"
    "fst (PaddingMaxRange ?R) \<le> range_rand (PaddingMaxRange ?R) (d_pmax d)"
    "fst (ChunkSizeRange ?R) \<le> range_rand (ChunkSizeRange ?R) (d_chunk d)"
    "range_rand (ChunkSizeRange ?R) (d_chunk d) \<le> max (fst (ChunkSizeRange ?R)) (snd (ChunkSizeRange ?R))"
    "fst (JitterMinMsRange ?R) \<le> range_rand (JitterMinMsRange ?R) (d_jmin d)"
    "range_rand (JitterMinMsRange ?R) (d_jmin d) \<le> max (fst (JitterMinMsRange ?R)) (snd (JitterMinMsRange ?R))"
    "fst (JitterMaxMsRange ?R) \<le> range_rand (JitterMaxMsRange ?R) (d_jmax d)"
    using range_rand_in ok assms(2) by (auto simp: draws_ok_def)
  let ?pmin = "range_rand (PaddingMinRange ?R) (d_pmin d)" and ?jmin = "range_rand (JitterMinMsRange ?R) (d_jmin d)"
  have w: "wrap64 (?pmin + 64) = ?pmin + 64" "wrap64 (?jmin + 20) = ?jmin + 20"
    using b(1,2,6,7) ok [of "PaddingMinRange ?R"] ok [of "JitterMinMsRange ?R"] by (auto intro!: wrap64_id)
  from assms(4) have p: "params r' = (params r)\<lparr>PaddingMin := ?pmin,
      PaddingMax := (let m = range_rand (PaddingMaxRange ?R) (d_pmax d) in if m < ?pmin then ?pmin + 64 else m),
      ChunkSize := range_rand (ChunkSizeRange ?R) (d_chunk d), JitterMinMs := ?jmin,
      JitterMaxMs := (let m = range_rand (JitterMaxMsRange ?R) (d_jmax d) in if m < ?jmin then ?jmin + 20 else m)\<rparr>"
    and r: "r' = r\<lparr>params := params r'\<rparr>" and c: "cs = map (\<lambda>l. (l, params r')) (onParamRotate r)"
    by (auto simp: rotateParams_def Let_def w)
  have "in_ranges ?R (params r')" and "ordered_params (params r')"
    using assms(3) b by (auto simp: p in_ranges_def ordered_params_def Let_def)
  with r c p show ?thesis by simp
qed

lemma ordered_randomizeAll:
  "ranges_separated r \<Longrightarrow> in_ranges r p \<Longrightarrow> ordered_params p"
  by (auto simp: ranges_separated_def in_ranges_def ordered_params_def)

definition rotator_inv :: "rotator \<Rightarrow> bool" where
  "rotator_inv r \<longleftrightarrow> ranges_ok (ranges r) \<and> in_ranges (ranges r) (params r)"

lemma rotator_step_inv:
  assumes "rotator_step s cs t" and "rotator_inv (rot s)"
  shows "rotator_inv (rot t) \<and> ranges (rot t) = ranges (rot s) \<and> (\<forall>(l, p) \<in> set cs. in_ranges (ranges (rot s)) p)"
  using assms
proof (elim rotator_stepE)
  fix d r
  assume "draws_ok (ranges (rot s)) d" and "rotateParams d (rot s) = (cs, r)" and t: "t = s\<lparr>rot := r\<rparr>"
  with rotateParams_facts [of "rot s" d cs r] assms(2) have f: "in_ranges (ranges (rot s)) (params r)"
    "r = (rot s)\<lparr>params := params r\<rparr>" "cs = map (\<lambda>l. (l, params r)) (onParamRotate (rot s))"
    by (auto simp: rotator_inv_def)
  then have "ranges r = ranges (rot s)" by (metis rotator.select_convs(2) rotator.update_convs(3) rotator.surjective)
  with f assms(2) show ?thesis by (auto simp: t rotator_inv_def)
qed (auto simp: rotator_inv_def rotator_Stop_def rotateSession_def emergency_callback_def EmergencyRotateNow_def
    Let_def in_ranges_randomizeAll split: if_splits)

lemma rotator_runs_inv:
  "rotator_runs s cs t \<Longrightarrow> rotator_inv (rot s) \<Longrightarrow>
   rotator_inv (rot t) \<and> ranges (rot t) = ranges (rot s) \<and> (\<forall>(l, p) \<in> set cs. in_ranges (ranges (rot s)) p)"
proof (induction rule: rotator_runs.induct)
  case (none s)
  then show ?case by simp
next
  case (more_steps s cs t cs' u)
  then show ?case using rotator_step_inv [of t cs' u] by auto
qed


definition draws0 :: draws where
  "draws0 = \<lparr>d_pmin = 0, d_pmax = 0, d_chunk = 0, d_jmin = 0, d_jmax = 0, d_prefix = (\<lambda>_. 0),
     d_up = (\<lambda>_. 0), d_down = (\<lambda>_. 0), d_key = (\<lambda>_. 0)\<rparr>"

lemma DefaultRanges_ok: "ranges_ok DefaultRanges \<and> draws_ok DefaultRanges draws0 \<and> ranges_separated DefaultRanges"
  by (simp add: ranges_ok_def DefaultRanges_def int_range_def draws_ok_def draws0_def rrand.draw_ok_def
      ranges_separated_def alphanum_charset_def)


text \<open>
  A parameter rotation changes no path and no key and always leaves the minima below the
  maxima, even for overlapping ranges.
\<close>

theorem param_rotation_keeps_paths:
  assumes "ranges_ok (ranges r)" and "draws_ok (ranges r) d" and "in_ranges (ranges r) (params r)"
    and "rotateParams d r = (cs, r')"
  shows "ordered_params (params r') \<and> LPathPrefix (params r') = LPathPrefix (params r) \<and>
    LUploadPath (params r') = LUploadPath (params r) \<and> LDownloadPath (params r') = LDownloadPath (params r) \<and>
    SessionKey (params r') = SessionKey (params r) \<and> cs = map (\<lambda>l. (l, params r')) (onParamRotate r)"
  using rotateParams_facts [OF assms] by blast

theorem param_rotation_keeps_paths_witness:
  "let r = fst (NewRotator draws0 \<lparr>ParamRotateInterval = 0, SessionRotateInterval = 0, EmergencyRotate = False\<rparr>
       DefaultRanges 1 (None :: real detector option))
   in ordered_params (params (snd (rotateParams draws0 r)))"
proof -
  let ?r = "fst (NewRotator draws0 \<lparr>ParamRotateInterval = 0, SessionRotateInterval = 0, EmergencyRotate = False\<rparr>
       DefaultRanges 1 (None :: real detector option))"
  have "ranges ?r = DefaultRanges" "params ?r = randomizeAll draws0 DefaultRanges"
    by (simp_all add: NewRotator_def Let_def)
  then show ?thesis
    using param_rotation_keeps_paths [of ?r draws0 "fst (rotateParams draws0 ?r)" "snd (rotateParams draws0 ?r)"]
      DefaultRanges_ok in_ranges_randomizeAll [of DefaultRanges draws0]
    by (simp add: Let_def)
qed

text \<open>
  A session rotation does not correct the maxima: for ranges that overlap it can set a
  smallest padding above the largest.
\<close>

theorem session_rotation_unordered:
  "\<exists>rs d. ranges_ok rs \<and> draws_ok rs d \<and>
     (\<forall>r. ranges r = rs \<longrightarrow> PaddingMax (params (snd (rotateSession d r))) < PaddingMin (params (snd (rotateSession d r))))"
proof -
  let ?rs = "DefaultRanges\<lparr>PaddingMinRange := (32, 200), PaddingMaxRange := (100, 512)\<rparr>"
  let ?d = "draws0\<lparr>d_pmin := 168\<rparr>"
  have "ranges_ok ?rs \<and> draws_ok ?rs ?d"
    by (simp add: ranges_ok_def DefaultRanges_def int_range_def draws_ok_def draws0_def rrand.draw_ok_def
        alphanum_charset_def)
  moreover have "\<forall>r. ranges r = ?rs \<longrightarrow>
      PaddingMax (params (snd (rotateSession ?d r))) < PaddingMin (params (snd (rotateSession ?d r)))"
    by (simp add: rotateSession_def Let_def randomizeAll_def DefaultRanges_def range_rand_def draws0_def)
  ultimately show ?thesis by blast
qed

end
