(* ===== verification/Cmd.thy ===== *)
theory Cmd
  imports Config Reality Rotator Xhttp_Server
begin

text \<open>
  Model of the decisions of the command line tool \<open>cmd/nv\<close> and of \<open>internal/fallback\<close>: the
  dispatch of \<open>main\<close>, what \<open>connect\<close> and \<open>server\<close> make of their configuration, the keys,
  entries and links of \<open>keygen\<close> and \<open>adduser\<close>, and the kind of fallback site. Printing
  and signals are not modelled; random values are arguments. The files are in \<open>Cli\<close>, the flags
  in \<open>Serve\<close>.
\<close>

section \<open>main.go\<close>

datatype command = Server | Connect | Setup | Adduser | Link | Keygen | Init | UsersCmd | StatusCmd
  | Version | Help | Unknown string | Usage

definition is_link :: "string \<Rightarrow> bool" where
  "is_link s \<longleftrightarrow> 12 < length s \<and> take 12 s = ''nightveil://''"

text \<open>The command and the arguments that it sees.\<close>

fun nv_main :: "string list \<Rightarrow> command \<times> string list" where
  "nv_main [] = (Usage, [])"
| "nv_main (cmd # args) =
     (if cmd = ''server'' then (Server, args)
      else if cmd = ''connect'' then (Connect, args)
      else if cmd = ''setup'' then (Setup, args)
      else if cmd = ''adduser'' then (Adduser, args)
      else if cmd = ''link'' then (Link, args)
      else if cmd = ''keygen'' then (Keygen, args)
      else if cmd = ''init'' then (Init, args)
      else if cmd = ''users'' then (UsersCmd, args)
      else if cmd = ''status'' then (StatusCmd, args)
      else if cmd = ''version'' \<or> cmd = ''-v'' \<or> cmd = ''--version'' then (Version, args)
      else if cmd = ''help'' \<or> cmd = ''-h'' \<or> cmd = ''--help'' then (Help, args)
      else if is_link cmd then (Connect, cmd # args)
      else (Unknown cmd, args))"

section \<open>cmd_keygen.go\<close>

definition nv_randomAlphaNum :: "nat \<Rightarrow> (nat \<Rightarrow> nat) \<Rightarrow> string" where
  "nv_randomAlphaNum n ds = map (\<lambda>i. ''abcdefghijklmnopqrstuvwxyz0123456789'' ! ds i) [0..<n]"

definition base64UrlSafe :: "string \<Rightarrow> string" where
  "base64UrlSafe s = trim_right CHR ''='' (replace_char CHR ''/'' CHR ''_'' (replace_char CHR ''+'' CHR ''-'' s))"

text \<open>\<open>Sscanf\<close> with \<open>%d\<close> into an \<open>int\<close>; \<open>None\<close> leaves the variable as it is.\<close>

definition scan_int :: "string \<Rightarrow> int option" where
  "scan_int s =
     (case skip_space s of None \<Rightarrow> None
      | Some t \<Rightarrow>
          let signed = (t \<noteq> '''' \<and> (hd t = CHR ''-'' \<or> hd t = CHR ''+''));
              body = (if signed then tl t else t);
              ds = takeWhile is_digit body
          in ParseInt ((if signed then [hd t] else '''') @ ds))"

definition parseHostPort :: "string \<Rightarrow> string \<times> int" where
  "parseHostPort addr =
     (if CHR '':'' \<in> set addr
      then (before_last CHR '':'' addr,
            (case scan_int (tl (from_last CHR '':'' addr)) of Some n \<Rightarrow> n | None \<Rightarrow> 443))
      else (addr, 443))"

record keygen_draws =
  kd_sid :: bytes
  kd_prefix :: "nat \<Rightarrow> nat"
  kd_up :: "nat \<Rightarrow> nat"
  kd_down :: "nat \<Rightarrow> nat"
  kd_key :: "nat \<Rightarrow> nat"
  kd_user :: bytes
  kd_server :: bytes

record keygen_out =
  ko_entry :: user_config
  ko_userPriv :: string
  ko_serverPub :: string
  ko_serverPriv :: "string option"
  ko_link :: "string option"

text \<open>A public key that could not be computed stays the zero array, for its error is ignored.\<close>

definition public_of :: "crypto \<Rightarrow> bytes \<Rightarrow> bytes" where
  "public_of c priv = (case X25519 c priv (Basepoint c) of Some p \<Rightarrow> copy_array 32 p | None \<Rightarrow> replicate 32 0)"

definition runKeygen :: "crypto \<Rightarrow> keygen_draws \<Rightarrow> string \<Rightarrow> string \<Rightarrow> string \<Rightarrow> keygen_out" where
  "runKeygen c d serverAddr remark existingPubKey =
     (let shortID = hex_bytes (kd_sid d);
          pathPrefix = ''/'' @ nv_randomAlphaNum 6 (kd_prefix d);
          uploadPath = ''/u/'' @ nv_randomAlphaNum 3 (kd_up d);
          downloadPath = ''/d/'' @ nv_randomAlphaNum 3 (kd_down d);
          sessionKeyName = nv_randomAlphaNum 5 (kd_key d);
          userPrivB64 = b64_encode False (kd_user d);
          userPubB64 = b64_encode False (public_of c (kd_user d));
          (serverPubB64, serverPrivB64) =
            (if existingPubKey \<noteq> '''' then (existingPubKey, None)
             else (b64_encode False (case X25519 c (kd_server d) (Basepoint c) of Some p \<Rightarrow> p | None \<Rightarrow> []),
                   Some (b64_encode False (kd_server d))));
          link = (if serverAddr \<noteq> '''' then
                    (let (host, port) = parseHostPort serverAddr in
                     Some (GenerateURI serverPubB64 host port shortID pathPrefix uploadPath downloadPath
                       sessionKeyName 14336 ''chrome'' remark [(''upk'', base64UrlSafe userPrivB64)]))
                  else None)
      in \<lparr>ko_entry = \<lparr>uc_ShortID = shortID, uc_PublicKey = userPubB64, uc_Name = remark\<rparr>,
          ko_userPriv = userPrivB64, ko_serverPub = serverPubB64, ko_serverPriv = serverPrivB64, ko_link = link\<rparr>)"

section \<open>cmd_adduser.go\<close>

definition scan_listen_port :: "string \<Rightarrow> int" where
  "scan_listen_port listen =
     (if take 8 listen = ''0.0.0.0:'' then (case scan_int (drop 8 listen) of Some n \<Rightarrow> n | None \<Rightarrow> 443) else 443)"

text \<open>The position of the last occurrence of a text, and of the first newline.\<close>

fun starts_with :: "string \<Rightarrow> string \<Rightarrow> bool" where
  "starts_with [] s = True"
| "starts_with (p # ps) s = (case s of [] \<Rightarrow> False | c # cs \<Rightarrow> c = p \<and> starts_with ps cs)"

fun last_index :: "string \<Rightarrow> string \<Rightarrow> nat option" where
  "last_index p [] = (if p = [] then Some 0 else None)"
| "last_index p (c # s) =
     (case last_index p s of Some i \<Rightarrow> Some (Suc i)
      | None \<Rightarrow> if starts_with p (c # s) then Some 0 else None)"

definition name_mark :: string where
  "name_mark = ''        name: ''"

definition user_lines :: "string \<Rightarrow> string \<Rightarrow> string \<Rightarrow> string" where
  "user_lines shortID pub name =
     ''      - short_id: '' @ [CHR 0x22] @ shortID @ [CHR 0x22, CHR 0x0A] @
     ''        public_key: '' @ [CHR 0x22] @ pub @ [CHR 0x22, CHR 0x0A] @
     ''        name: '' @ [CHR 0x22] @ name @ [CHR 0x22, CHR 0x0A]"

definition insert_user :: "string \<Rightarrow> string \<Rightarrow> string" where
  "insert_user entry content =
     (case last_index name_mark content of None \<Rightarrow> content
      | Some i \<Rightarrow>
          if CHR 0x0A \<in> set (drop i content) then
            (let eol = i + length (takeWhile (\<lambda>c. c \<noteq> CHR 0x0A) (drop i content)) + 1
             in take eol content @ entry @ drop eol content)
          else content)"

text \<open>
  \<open>runAdduser\<close> after it has found and read the configuration: the new content of the file and
  the import link. \<open>None\<close> is the exit on an invalid private key. \<open>env_ip\<close> is the environment
  variable \<open>NV_IP\<close>.
\<close>

definition runAdduser :: "crypto \<Rightarrow> keygen_draws \<Rightarrow> string \<Rightarrow> server_settings \<Rightarrow> string \<Rightarrow> string
    \<Rightarrow> (string \<times> string) option" where
  "runAdduser c d env_ip s content name =
     (case DecodeKey (ac_PrivateKey (ss_Auth s)) of Inl _ \<Rightarrow> None
      | Inr privKey \<Rightarrow>
        let pubB64 = b64_encode False (public_of c privKey);
            serverIP = or_default (or_default (ss_ServerIP s) env_ip) ''YOUR_SERVER_IP'';
            port = (if ss_Listen s \<noteq> '''' then scan_listen_port (ss_Listen s) else 443);
            userPrivB64 = b64_encode False (kd_user d);
            userPubB64 = b64_encode False (case X25519 c (kd_user d) (Basepoint c) of Some p \<Rightarrow> p | None \<Rightarrow> []);
            shortID = hex_bytes (kd_sid d);
            upkSafe = replace_char CHR ''/'' CHR ''_'' (replace_char CHR ''+'' CHR ''-'' userPrivB64)
        in Some (insert_user (user_lines shortID userPubB64 name) content,
            GenerateURI pubB64 serverIP port shortID (''/'' @ nv_randomAlphaNum 6 (kd_prefix d))
              (''/u/'' @ nv_randomAlphaNum 3 (kd_up d)) (''/d/'' @ nv_randomAlphaNum 3 (kd_down d))
              (nv_randomAlphaNum 5 (kd_key d)) 14336 ''chrome'' name [(''upk'', upkSafe), (''skip'', ''1'')]))"

section \<open>internal/fallback\<close>

datatype fallback_handler = ReverseProxy string | Static string | DefaultSite

text \<open>\<open>New\<close>; \<open>parse_ok\<close> says whether the upstream URL parses. \<open>None\<close> is the error.\<close>

definition fallback_New :: "(string \<Rightarrow> bool) \<Rightarrow> string \<Rightarrow> string \<Rightarrow> string \<Rightarrow> fallback_handler option" where
  "fallback_New parse_ok mode upstream staticRoot =
     (if mode = ''reverse_proxy'' then (if parse_ok upstream then Some (ReverseProxy upstream) else None)
      else if mode = ''static'' then (if staticRoot = '''' then None else Some (Static staticRoot))
      else Some DefaultSite)"

text \<open>What a request gets: the proxy's or file server's answer (\<open>proxy\<close>, \<open>files\<close>), or the page.\<close>

definition fallback_ServeHTTP :: "(string \<Rightarrow> 'r) \<Rightarrow> (string \<Rightarrow> 'r) \<Rightarrow> (nat \<Rightarrow> string \<Rightarrow> 'r) \<Rightarrow> fallback_handler \<Rightarrow> 'r" where
  "fallback_ServeHTTP proxy files page h =
     (case h of ReverseProxy u \<Rightarrow> proxy u | Static r \<Rightarrow> files r
      | DefaultSite \<Rightarrow> page 200 ''<!DOCTYPE html><html><head><title>Welcome</title></head><body><h1>It works!</h1></body></html>'')"

section \<open>cmd_server.go\<close>

fun add_users :: "user_config list \<Rightarrow> (string \<rightharpoonup> user_entry) \<Rightarrow> (string \<rightharpoonup> user_entry) option" where
  "add_users [] m = Some m"
| "add_users (u # us) m =
     (if uc_PublicKey u \<noteq> '''' then
        (case DecodeKey (uc_PublicKey u) of Inl _ \<Rightarrow> None
         | Inr key \<Rightarrow> add_users us
             (m(uc_ShortID u \<mapsto> \<lparr>PublicKey = key, UserShortID = uc_ShortID u, UserName = uc_Name u\<rparr>)))
      else add_users us
        (m(uc_ShortID u \<mapsto> \<lparr>PublicKey = replicate 32 0, UserShortID = uc_ShortID u, UserName = uc_Name u\<rparr>)))"

fun add_short_ids :: "string list \<Rightarrow> (string \<rightharpoonup> user_entry) \<Rightarrow> (string \<rightharpoonup> user_entry)" where
  "add_short_ids [] m = m"
| "add_short_ids (i # is) m =
     (if m i = None then add_short_ids is (m(i \<mapsto> \<lparr>PublicKey = replicate 32 0, UserShortID = i, UserName = i\<rparr>))
      else add_short_ids is m)"

text \<open>The authentication of \<open>runServer\<close>; \<open>None\<close> is the exit on an invalid key.\<close>

definition server_auth :: "auth_config \<Rightarrow> server_x25519 option" where
  "server_auth a =
     (case DecodeKey (ac_PrivateKey a) of Inl _ \<Rightarrow> None
      | Inr privKey \<Rightarrow>
        (case add_users (ac_Users a) Map.empty of None \<Rightarrow> None
         | Some m \<Rightarrow> Some \<lparr>PrivateKey = privKey, Users = add_short_ids (ac_ShortIDs a) m,
             MaxTimeDiff = (if ac_MaxTimeDiff a = 0 then DefaultMaxTimeDiff else ac_MaxTimeDiff a),
             TokenHeader = DefaultTokenHeader\<rparr>))"

text \<open>The transport's configuration; \<open>NewServer\<close> fills in the rest.\<close>

definition server_xhttp_config :: "transport_config \<Rightarrow> config" where
  "server_xhttp_config t =
     \<lparr>PathPrefix = '''', UploadPath = '''', DownloadPath = '''', SessionKeyName = '''',
      MaxChunkSize = tc_MaxChunkSize t, SessionTimeout = tc_SessionTimeout t,
      CfgDownloadBufferBytes = 0, UploadMode = ''''\<rparr>"

definition server_fallback :: "(string \<Rightarrow> bool) \<Rightarrow> server_settings \<Rightarrow> fallback_handler option" where
  "server_fallback parse_ok s =
     (let (fbMode, fbUpstream) =
        (if tls_Dest (ss_TLS s) \<noteq> '''' \<and> fb_Mode (ss_Fallback s) = ''''
         then (''reverse_proxy'', ''https://'' @ FormatRealityDest (tls_Dest (ss_TLS s)))
         else (fb_Mode (ss_Fallback s), fb_Upstream (ss_Fallback s)))
      in fallback_New parse_ok fbMode fbUpstream (fb_Root (ss_Fallback s)))"

datatype listen_mode = ListenTLS | ListenPlain

definition server_listen :: "tls_config \<Rightarrow> listen_mode" where
  "server_listen t =
     (if tls_Dest t \<noteq> '''' then (if tls_CertFile t \<noteq> '''' then ListenTLS else ListenPlain)
      else if tls_CertFile t \<noteq> '''' \<and> tls_KeyFile t \<noteq> '''' then ListenTLS else ListenPlain)"

section \<open>cmd_connect.go\<close>

datatype connect_source = FromURI string | FromFile string | NoSource

definition connect_source_of :: "string \<Rightarrow> string list \<Rightarrow> connect_source" where
  "connect_source_of configPath args =
     (let (uri, configPath) =
        (case args of [] \<Rightarrow> ('''', configPath)
         | arg # _ \<Rightarrow> if is_link arg then (arg, configPath)
             else if configPath = '''' then ('''', arg) else ('''', configPath))
      in if uri \<noteq> '''' then FromURI uri else if configPath \<noteq> '''' then FromFile configPath else NoSource)"

datatype connect_err = BadServerKey | BadShortID | BadUserKey

text \<open>The credentials; without a user key a fresh pair is made from the random bytes \<open>rnd\<close>.\<close>

definition client_auth :: "crypto \<Rightarrow> bytes \<Rightarrow> client_auth_config \<Rightarrow> connect_err + client_x25519" where
  "client_auth c rnd a =
     (case DecodeKey (ca_ServerPublicKey a) of Inl _ \<Rightarrow> Inl BadServerKey
      | Inr serverPubKey \<Rightarrow>
        (case hex_decode (ca_ShortID a) of None \<Rightarrow> Inl BadShortID
         | Some shortID \<Rightarrow>
           if ca_UserPrivateKey a \<noteq> '''' then
             (case DecodeKey (ca_UserPrivateKey a) of Inl _ \<Rightarrow> Inl BadUserKey
              | Inr userPriv \<Rightarrow> Inr \<lparr>ServerPublicKey = serverPubKey, UserPrivateKey = userPriv,
                  UserPublicKey = public_of c userPriv, ShortID = shortID\<rparr>)
           else Inr \<lparr>ServerPublicKey = serverPubKey, UserPrivateKey = rnd,
                  UserPublicKey = public_of c rnd, ShortID = shortID\<rparr>))"

text \<open>The URL, and the server name and the check of the certificate when TLS is used.\<close>

definition connect_tls :: "client_settings \<Rightarrow> string \<times> (string \<times> bool) option" where
  "connect_tls s =
     (if ct_Fingerprint (cs_TLS s) \<noteq> '''' then
        (let sni = ct_SNI (cs_TLS s);
             sni = (if sni = '''' then (case SplitHostPort (cs_Address s) of Some (h, _) \<Rightarrow> h | None \<Rightarrow> cs_Address s) else sni)
         in (''https://'' @ cs_Address s, Some (sni, ct_SkipVerify (cs_TLS s))))
      else (''http://'' @ cs_Address s, None))"


section \<open>Enrolment\<close>

lemma add_users_other: "add_users us m = Some m' \<Longrightarrow> k \<notin> uc_ShortID ` set us \<Longrightarrow> m' k = m k"
  by (induction us arbitrary: m) (auto split: if_splits sum.splits)

lemma add_users_append: "add_users (us @ vs) m = Option.bind (add_users us m) (add_users vs)"
  by (induction us arbitrary: m) (auto split: sum.splits)

lemma add_short_ids_keep: "m k \<noteq> None \<Longrightarrow> add_short_ids is m k = m k"
  by (induction "is" arbitrary: m) auto

lemma add_users_at:
  assumes "add_users (us @ u # vs) m = Some m'" and "uc_ShortID u \<notin> uc_ShortID ` set vs"
    and "uc_PublicKey u \<noteq> ''''" and "DecodeKey (uc_PublicKey u) = Inr key"
  shows "m' (uc_ShortID u) = Some \<lparr>PublicKey = key, UserShortID = uc_ShortID u, UserName = uc_Name u\<rparr>"
  using assms add_users_other [of vs _ m' "uc_ShortID u"]
  by (auto simp: add_users_append bind_eq_Some_conv)

lemma scan_FormatInt:
  assumes "0 \<le> port" and "port < 2 ^ 63"
  shows "scan_int (FormatInt port) = Some port"
proof -
  have pd: "list_all is_digit (FormatInt port)" and ne: "FormatInt port \<noteq> ''''"
    using assms(1) show_nat_digits [of "nat port"] by (simp_all add: FormatInt_def)
  obtain x xs where x: "FormatInt port = x # xs" using ne by (cases "FormatInt port") auto
  have dx: "is_digit x" using pd by (simp add: x)
  then show ?thesis
    using digit_not_sign [OF dx] pd ParseInt_FormatInt [of port] assms
    by (simp add: scan_int_def x skip_space_digit Let_def takeWhile_eq_all_conv [THEN iffD2] list_all_iff)
qed

lemma parseHostPort_plain:
  assumes "plain_host host" and "0 \<le> port" and "port < 2 ^ 63"
  shows "parseHostPort (host @ '':'' @ FormatInt port) = (host, port)"
proof -
  let ?p = "FormatInt port"
  have pd: "list_all is_digit ?p" and ne: "?p \<noteq> ''''"
    using assms(2) show_nat_digits [of "nat port"] by (simp_all add: FormatInt_def)
  have c: "CHR '':'' \<notin> set ?p" using digits_alnum [OF pd, of "CHR '':''"] by (auto simp: is_alnum_def)
  show ?thesis using c scan_FormatInt [OF assms(2,3)] by (simp add: parseHostPort_def)
qed

text \<open>What enrolment is for: the server accepts every token that the client makes in time.\<close>

definition admits :: "crypto \<Rightarrow> client_x25519 \<Rightarrow> server_x25519 \<Rightarrow> bool" where
  "admits c cl srv \<longleftrightarrow> (\<forall>ts now sid nonce ephPriv token r.
     \<bar>now - ts\<bar> \<le> MaxTimeDiff srv \<and> 0 \<le> ts \<and> ts < 2 ^ 63 \<and>
     0 \<le> now \<and> now < 2 ^ 63 \<and> length sid = 16 \<and> length nonce = 12 \<and>
     GenerateToken c cl (Some ephPriv) (Some nonce) ts sid = Some token \<and>
     extractToken r (TokenHeader srv) = b64_encode True token \<longrightarrow> Validate c srv now r = Some (Inr sid))"

lemma registered_admits:
  assumes "crypto_ok c" and "registered c cl srv"
  shows "admits c cl srv"
  unfolding admits_def
proof (intro allI impI)
  fix ts now sid nonce ephPriv token r
  assume a: "\<bar>now - ts\<bar> \<le> MaxTimeDiff srv \<and> 0 \<le> ts \<and> ts < 2 ^ 63 \<and>
     0 \<le> now \<and> now < 2 ^ 63 \<and> length sid = 16 \<and> length nonce = 12 \<and>
     GenerateToken c cl (Some ephPriv) (Some nonce) ts sid = Some token \<and>
     extractToken r (TokenHeader srv) = b64_encode True token"
  then have "timestamp_ok (MaxTimeDiff srv) now (be64 (word_of_int ts))" by (simp add: timestamp_ok_window)
  with a show "Validate c srv now r = Some (Inr sid)" by (elim conjE) (rule honest_token_accepted [OF assms])
qed

definition user_entry_of :: "bytes \<Rightarrow> bytes \<Rightarrow> string \<Rightarrow> user_config" where
  "user_entry_of sid pub name =
     \<lparr>uc_ShortID = hex_bytes sid, uc_PublicKey = b64_encode False pub, uc_Name = name\<rparr>"

lemma server_knows_user:
  assumes "length upub = 32" and "DecodeKey (ac_PrivateKey a) = Inr spriv"
    and "ac_Users a = us @ user_entry_of sid upub name # vs" and "hex_bytes sid \<notin> uc_ShortID ` set vs"
    and "server_auth a = Some srv"
  shows "PrivateKey srv = spriv \<and>
    Users srv (hex_bytes sid) = Some \<lparr>PublicKey = upub, UserShortID = hex_bytes sid, UserName = name\<rparr>"
proof -
  obtain m where m: "add_users (ac_Users a) Map.empty = Some m"
    and srv: "srv = \<lparr>PrivateKey = spriv, Users = add_short_ids (ac_ShortIDs a) m,
      MaxTimeDiff = (if ac_MaxTimeDiff a = 0 then DefaultMaxTimeDiff else ac_MaxTimeDiff a), TokenHeader = DefaultTokenHeader\<rparr>"
    using assms(2,5) by (auto simp: server_auth_def split: option.splits)
  have "upub \<noteq> []" using assms(1) by auto
  then have "m (hex_bytes sid) = Some \<lparr>PublicKey = upub, UserShortID = hex_bytes sid, UserName = name\<rparr>"
    using add_users_at [OF m [unfolded assms(3)], of upub] DecodeKey_encode [of upub False 0] assms(1,4)
    by (simp add: user_entry_of_def)
  then show ?thesis using add_short_ids_keep [of m "hex_bytes sid"] by (simp add: srv)
qed

lemma link_enrols:
  assumes crypto: "crypto_ok c"
    and keys: "DecodeKey (ac_PrivateKey a) = Inr spriv" "X25519 c spriv (Basepoint c) = Some spub"
      "X25519 c user (Basepoint c) = Some upub" "length user = 32" "length sid = 4"
    and addr: "plain_host host" "0 \<le> port"
    and users: "ac_Users a = us @ user_entry_of sid upub name # vs" "hex_bytes sid \<notin> uc_ShortID ` set vs"
    and server: "server_auth a = Some srv"
    and extra: "values_Get extra ''upk'' = b64_encode True user" "distinct (map fst extra)" "fst ` set extra \<inter> base_keys = {}"
  shows "\<exists>cfg rm cl.
    ParseURI (GenerateURI (b64_encode url spub) host port (hex_bytes sid) p u dn sk 14336 fp remark extra) = Inr (cfg, rm) \<and>
    cs_Address cfg = host @ '':'' @ FormatInt port \<and> client_auth c rnd (cs_Auth cfg) = Inr cl \<and>
    registered c cl srv \<and> admits c cl srv \<and> tc_SessionKeyName (cs_Transport cfg) = or_default sk ''sid'' \<and>
    tc_MaxChunkSize (cs_Transport cfg) = 14336 \<and> ct_Fingerprint (cs_TLS cfg) = or_default fp ''chrome''"
proof -
  have len: "length spub = 32" "length upub = 32" using crypto keys(2,3) unfolding crypto_ok_def by blast+
  then have pub: "public_of c user = upub" using keys(3) by (simp add: public_of_def)
  obtain cfg rm where
    parse: "ParseURI (GenerateURI (b64_encode url spub @ replicate 0 CHR ''='') host port (hex_bytes sid) p u dn sk 14336
      fp remark extra) = Inr (cfg, rm)"
    and ad: "cs_Address cfg = host @ '':'' @ FormatInt port"
    and au: "cs_Auth cfg = \<lparr>ca_ServerPublicKey = b64_encode False spub,
      ca_UserPrivateKey = map std_char (values_Get extra ''upk''), ca_ShortID = hex_bytes sid\<rparr>"
    and rest: "tc_SessionKeyName (cs_Transport cfg) = or_default sk ''sid''" "tc_MaxChunkSize (cs_Transport cfg) = 14336"
      "ct_Fingerprint (cs_TLS cfg) = or_default fp ''chrome''"
    using link_roundtrip [OF len(1) addr, of 14336 extra url 0 "hex_bytes sid" p u dn sk fp remark] extra(2,3) by auto
  have upk: "map std_char (values_Get extra ''upk'') = b64_encode False user"
    using extra(1) by (simp add: replace_encode)
  have "b64_encode False user \<noteq> ''''" using keys(4) by auto
  then have cl: "client_auth c rnd (cs_Auth cfg) =
      Inr \<lparr>ServerPublicKey = spub, UserPrivateKey = user, UserPublicKey = upub, ShortID = sid\<rparr>" (is "_ = Inr ?cl")
    using DecodeKey_encode [of spub False 0] DecodeKey_encode [of user False 0] len keys(4)
    by (simp add: client_auth_def au upk hex_decode_hex_bytes pub)
  have reg: "registered c ?cl srv"
    using server_knows_user [OF len(2) keys(1) users server] keys by (simp add: registered_def)
  show ?thesis
    by (rule exI [of _ cfg], rule exI [of _ rm], rule exI [of _ ?cl])
      (use parse ad cl reg rest registered_admits [OF crypto reg] in simp)
qed

text \<open>
  C16. A user enrolled by \<open>keygen\<close> can authenticate. The printed entry goes into the server's user
  list (no later entry has the same short id), the printed link to the client; the link
  parses, gives the address and credentials that are registered at the server, and every
  token that the client makes with them within the clock limit validates to its session id.
\<close>

theorem enrolled_user_authenticates:
  assumes crypto: "crypto_ok c"
    and keys: "DecodeKey (ac_PrivateKey a) = Inr spriv" "X25519 c spriv (Basepoint c) = Some spub"
      "X25519 c (kd_user d) (Basepoint c) = Some upub" "length (kd_user d) = 32" "length (kd_sid d) = 4"
    and addr: "plain_host host" "0 \<le> port" "port < 2 ^ 63"
    and out: "out = runKeygen c d (host @ '':'' @ FormatInt port) remark (b64_encode url spub)"
    and users: "ac_Users a = us @ ko_entry out # vs" "uc_ShortID (ko_entry out) \<notin> uc_ShortID ` set vs"
    and server: "server_auth a = Some srv"
  shows "\<exists>link cfg rm cl. ko_link out = Some link \<and> ParseURI link = Inr (cfg, rm) \<and>
    cs_Address cfg = host @ '':'' @ FormatInt port \<and> client_auth c rnd (cs_Auth cfg) = Inr cl \<and>
    registered c cl srv \<and> admits c cl srv"
proof -
  have len: "length spub = 32" "length upub = 32" using crypto keys(2,3) unfolding crypto_ok_def by blast+
  have entry: "ko_entry out = user_entry_of (kd_sid d) upub remark"
    using keys(3) len by (simp add: out runKeygen_def Let_def public_of_def user_entry_of_def)
  have ex: "b64_encode url spub \<noteq> ''''" using len by auto
  let ?upk = "base64UrlSafe (b64_encode False (kd_user d))"
  obtain p u dn sk where link: "ko_link out = Some (GenerateURI (b64_encode url spub) host port (hex_bytes (kd_sid d)) p u dn sk
      14336 ''chrome'' remark [(''upk'', ?upk)])"
    using parseHostPort_plain [OF addr] ex by (simp add: out runKeygen_def Let_def split_beta)
  have "?upk = b64_encode True (kd_user d)"
    using link_key [of False "kd_user d" 0] by (simp add: base64UrlSafe_def)
  then have upk: "values_Get [(''upk'', ?upk)] ''upk'' = b64_encode True (kd_user d)" by (simp add: values_Get_def)
  have "hex_bytes (kd_sid d) \<notin> uc_ShortID ` set vs" using users(2) by (simp add: entry user_entry_of_def)
  from link_enrols [OF crypto keys addr(1,2) users(1) [unfolded entry] this server upk,
      of url p u dn sk "''chrome''" remark rnd]
  show ?thesis using link by (auto simp: base_keys_def)
qed


definition demo_draws :: keygen_draws where
  "demo_draws = \<lparr>kd_sid = [3, 0x93, 1, 2], kd_prefix = (\<lambda>_. 0), kd_up = (\<lambda>_. 1), kd_down = (\<lambda>_. 2),
     kd_key = (\<lambda>_. 3), kd_user = replicate 32 9, kd_server = []\<rparr>"

theorem enrolled_user_authenticates_witness:
  "\<exists>link cfg rm. ko_link (runKeygen demo_crypto demo_draws (''10.0.0.1:'' @ FormatInt 443) ''Bob'' (b64_encode True (replicate 32 5))) = Some link \<and>
     ParseURI link = Inr (cfg, rm) \<and> cs_Address cfg = ''10.0.0.1:'' @ FormatInt 443"
proof -
  define out where "out = runKeygen demo_crypto demo_draws (''10.0.0.1'' @ '':'' @ FormatInt 443) ''Bob'' (b64_encode True (replicate 32 5))"
  let ?a = "\<lparr>ac_PrivateKey = b64_encode False (replicate 32 5), ac_ShortIDs = [], ac_Users = [] @ ko_entry out # [], ac_MaxTimeDiff = 0\<rparr>"
  have dk: "DecodeKey (b64_encode False (replicate 32 b)) = Inr (replicate 32 b)" for b
    using DecodeKey_encode [of "replicate 32 b" False 0] by simp
  have pub: "public_of demo_crypto (replicate 32 9) = replicate 32 9"
    by (simp add: public_of_def demo_crypto_def vec_add_zero)
  have e: "ko_entry out = \<lparr>uc_ShortID = hex_bytes [3, 0x93, 1, 2], uc_PublicKey = b64_encode False (replicate 32 9), uc_Name = ''Bob''\<rparr>"
    unfolding out_def by (simp add: runKeygen_def Let_def split_beta demo_draws_def pub)
  have "server_auth ?a \<noteq> None" by (simp add: server_auth_def e dk)
  then obtain srv where srv: "server_auth ?a = Some srv" by auto
  have "\<exists>link cfg rm cl. ko_link out = Some link \<and> ParseURI link = Inr (cfg, rm) \<and>
      cs_Address cfg = ''10.0.0.1'' @ '':'' @ FormatInt 443 \<and> client_auth demo_crypto [] (cs_Auth cfg) = Inr cl \<and>
      registered demo_crypto cl srv \<and> admits demo_crypto cl srv"
    by (rule enrolled_user_authenticates [where a = ?a and us = "[]" and vs = "[]" and url = True and remark = "''Bob''"
          and spub = "replicate 32 5" and spriv = "replicate 32 5" and upub = "replicate 32 9" and d = demo_draws,
          OF demo_crypto_ok _ _ _ _ _ _ _ _ out_def _ _ srv])
      (simp_all add: dk plain_host_def is_alnum_def demo_draws_def, simp_all add: demo_crypto_def vec_add_zero)
  then show ?thesis unfolding out_def by auto
qed

section \<open>Adding a user to the file\<close>

lemma last_index_None: "last_index p s = None \<Longrightarrow> \<not> starts_with p (drop j s)"
proof (induction s arbitrary: j)
  case Nil
  then show ?case by (cases p) (simp_all split: if_splits)
next
  case (Cons c s)
  then show ?case by (cases j) (auto split: option.splits if_splits)
qed

lemma last_index_Some:
  "last_index p s = Some i \<Longrightarrow> i \<le> length s \<and> starts_with p (drop i s) \<and> (\<forall>j. i < j \<longrightarrow> j \<le> length s \<longrightarrow> \<not> starts_with p (drop j s))"
proof (induction s arbitrary: i)
  case Nil
  then show ?case by (simp split: if_splits)
next
  case (Cons c s)
  show ?case
  proof (cases "last_index p s")
    case None
    with Cons.prems have i: "i = 0" "starts_with p (c # s)" by (simp_all split: if_splits)
    have "\<not> starts_with p (drop j (c # s))" if "0 < j" for j
      using last_index_None [OF None, of "j - 1"] that by (cases j) simp_all
    with i show ?thesis by simp
  next
    case (Some k)
    with Cons.prems have i: "i = Suc k" by simp
    from Cons.IH [OF Some] have "k \<le> length s" "starts_with p (drop k s)"
      "\<forall>j. k < j \<longrightarrow> j \<le> length s \<longrightarrow> \<not> starts_with p (drop j s)" by auto
    moreover have "\<not> starts_with p (drop j (c # s))" if "Suc k < j" "j \<le> Suc (length s)" for j
      using that calculation(3) by (cases j) simp_all
    ultimately show ?thesis by (auto simp: i)
  qed
qed

text \<open>
  \<open>adduser\<close> puts the new entry behind the line of the last user's name. In a file without such
  a line, or where this line is not ended, it leaves the file as it is: the link that it still
  prints belongs to a user that the server does not know.
\<close>

theorem adduser_placement:
  assumes "runAdduser c d env_ip s content name = Some (content', link)"
  shows "\<exists>entry. entry = user_lines (hex_bytes (kd_sid d))
        (b64_encode False (case X25519 c (kd_user d) (Basepoint c) of Some p \<Rightarrow> p | None \<Rightarrow> [])) name \<and>
    (case last_index name_mark content of
       None \<Rightarrow> content' = content
     | Some i \<Rightarrow>
         (if CHR 0x0A \<in> set (drop i content) then
            \<exists>line after. content = take i content @ line @ CHR 0x0A # after \<and> CHR 0x0A \<notin> set line \<and>
              starts_with name_mark (drop i content) \<and>
              content' = take i content @ line @ CHR 0x0A # entry @ after
          else content' = content))"
proof -
  let ?e = "user_lines (hex_bytes (kd_sid d))
        (b64_encode False (case X25519 c (kd_user d) (Basepoint c) of Some p \<Rightarrow> p | None \<Rightarrow> [])) name"
  have c': "content' = insert_user ?e content"
    using assms by (auto simp: runAdduser_def Let_def split: sum.splits)
  show ?thesis
  proof (cases "last_index name_mark content")
    case None
    then show ?thesis by (simp add: c' insert_user_def)
  next
    case (Some i)
    show ?thesis
    proof (cases "CHR 0x0A \<in> set (drop i content)")
      case False
      with Some show ?thesis by (simp add: c' insert_user_def)
    next
      case True
      let ?l = "takeWhile (\<lambda>c. c \<noteq> CHR 0x0A) (drop i content)"
      from True obtain l r where d: "drop i content = l @ CHR 0x0A # r" and l: "CHR 0x0A \<notin> set l"
        by (metis split_list_first)
      then have tl: "?l = l" by (simp add: takeWhile_until)
      have i: "i \<le> length content" using last_index_Some [OF Some] by simp
      have co: "content = take i content @ l @ CHR 0x0A # r" using d by (metis append_take_drop_id)
      have "take (i + length l + 1) content = take i content @ l @ [CHR 0x0A]"
        "drop (i + length l + 1) content = r"
        using i by (subst co, simp)+
      then have "content' = take i content @ l @ CHR 0x0A # ?e @ r"
        using Some True by (simp add: c' insert_user_def Let_def tl)
      with co l Some True last_index_Some [OF Some] show ?thesis by auto
    qed
  qed
qed

theorem adduser_placement_witness:
  "\<exists>link. runAdduser demo_crypto demo_draws '''' \<lparr>ss_Listen = '''', ss_ServerIP = ''10.0.0.1'',
      ss_TLS = \<lparr>tls_CertFile = '''', tls_KeyFile = '''', tls_Dest = '''', tls_SNI = ''''\<rparr>,
      ss_Auth = \<lparr>ac_PrivateKey = b64_encode False (replicate 32 5), ac_ShortIDs = [], ac_Users = [], ac_MaxTimeDiff = 0\<rparr>,
      ss_Transport = \<lparr>tc_Type = '''', tc_PathPrefix = '''', tc_UploadPath = '''', tc_DownloadPath = '''',
        tc_SessionKeyName = '''', tc_MaxChunkSize = 0, tc_SessionTimeout = 0\<rparr>, ss_Middleware = [],
      ss_Fallback = \<lparr>fb_Mode = '''', fb_Upstream = '''', fb_Root = ''''\<rparr>, ss_API = no_api\<rparr>
      ''users: []'' ''Eve'' = Some (''users: []'', link)"
  (is "\<exists>link. runAdduser ?c ?d ?e ?s ?t ?n = Some (?t, link)")
proof -
  have "DecodeKey (b64_encode False (replicate 32 5)) = Inr (replicate 32 5)"
    using DecodeKey_encode [of "replicate 32 5" False 0] by simp
  then obtain content' link where r: "runAdduser ?c ?d ?e ?s ?t ?n = Some (content', link)"
    by (simp add: runAdduser_def Let_def)
  have "last_index name_mark ?t = None" by (simp add: name_mark_def)
  with adduser_placement [OF r] have "content' = ?t" by simp
  with r show ?thesis by blast
qed

end
