(* ===== verification/Setup.thy ===== *)
theory Setup
  imports Cmd Netip
begin

text \<open>
  Model of \<open>cmd_setup.go\<close> and \<open>cmd_init.go\<close>: the questions and their answers, the detection of
  the public address, the configuration file as text, the import link and the other files
  they write; and what \<open>cmd_link.go\<close> makes of a file. The printing is not modelled. What a YAML
  reader makes of the configuration file is an argument of the statements that need it.
\<close>

section \<open>Answers\<close>

text \<open>\<open>strings.TrimSpace\<close>: the UTF-8 forms of the space runes, taken off both ends.\<close>

definition is_space_rune :: "nat list \<Rightarrow> bool" where
  "is_space_rune b \<longleftrightarrow>
     b \<in> set [[9], [10], [11], [12], [13], [32], [0xC2, 0x85], [0xC2, 0xA0], [0xE1, 0x9A, 0x80], [0xE2, 0x80, 0xA8],
       [0xE2, 0x80, 0xA9], [0xE2, 0x80, 0xAF], [0xE2, 0x81, 0x9F], [0xE3, 0x80, 0x80]] \<or>
     length b = 3 \<and> take 2 b = [0xE2, 0x80] \<and> 0x80 \<le> b ! 2 \<and> b ! 2 \<le> 0x8A"

definition space_end :: "(nat \<Rightarrow> string \<Rightarrow> string) \<Rightarrow> string \<Rightarrow> nat" where
  "space_end part s =
     (let space = (\<lambda>k. is_space_rune (map of_char (part k s))) in
      if s = '''' then 0 else if space 1 then 1 else if space 2 then 2 else if space 3 then 3 else 0)"

function trim_left_space :: "string \<Rightarrow> string" where
  "trim_left_space s =
     (let k = space_end take s in if k = 0 then s else trim_left_space (drop k s))"
  by pat_completeness auto
termination
  by (relation "measure length") (auto simp: space_end_def Let_def split: if_splits)

definition last_part :: "nat \<Rightarrow> string \<Rightarrow> string" where
  "last_part k s = drop (length s - k) s"

function trim_right_space :: "string \<Rightarrow> string" where
  "trim_right_space s =
     (let k = space_end last_part s in if k = 0 then s else trim_right_space (take (length s - k) s))"
  by pat_completeness auto
termination
  by (relation "measure length") (auto simp: space_end_def Let_def split: if_splits)

declare trim_left_space.simps [simp del] trim_right_space.simps [simp del]

definition TrimSpace :: "string \<Rightarrow> string" where
  "TrimSpace s = trim_right_space (trim_left_space s)"

text \<open>\<open>prompt\<close>: the next line of the input, or the default, and the rest of the input.\<close>

definition prompt :: "string \<Rightarrow> string \<Rightarrow> string \<times> string" where
  "prompt defaultVal input =
     (let line = takeWhile (\<lambda>c. c \<noteq> CHR 0x0A) input; rest = drop (length line + 1) input
      in (or_default (TrimSpace line) defaultVal, rest))"

section \<open>The public address\<close>

text \<open>An address of an interface: its text, and whether it is a loopback and an IPv4 address.\<close>

record iface_addr =
  if_ip :: string
  if_loopback :: bool
  if_v4 :: bool

definition public_iface :: "iface_addr \<Rightarrow> bool" where
  "public_iface a \<longleftrightarrow> \<not> if_loopback a \<and> if_v4 a \<and> \<not> starts_with ''10.'' (if_ip a) \<and>
     \<not> starts_with ''172.'' (if_ip a) \<and> \<not> starts_with ''192.168.'' (if_ip a)"

definition iface_ip :: "iface_addr list \<Rightarrow> string \<Rightarrow> string" where
  "iface_ip as none = (case find public_iface as of Some a \<Rightarrow> if_ip a | None \<Rightarrow> none)"

text \<open>The services in their order: the text read from each, \<open>None\<close> for an error.\<close>

fun asked_ip :: "string option list \<Rightarrow> string option" where
  "asked_ip [] = None"
| "asked_ip (None # rs) = asked_ip rs"
| "asked_ip (Some body # rs) =
     (let ip = TrimSpace (take 64 body) in if ParseIP ip \<noteq> None then Some ip else asked_ip rs)"

definition detectPublicIP :: "string option list \<Rightarrow> iface_addr list \<Rightarrow> string" where
  "detectPublicIP rs as = (case asked_ip rs of Some ip \<Rightarrow> ip | None \<Rightarrow> iface_ip as ''YOUR_IP'')"

definition detectIP :: "string \<Rightarrow> iface_addr list \<Rightarrow> string" where
  "detectIP env_ip as = (if env_ip \<noteq> '''' then env_ip else iface_ip as ''YOUR_SERVER_IP'')"

section \<open>The configuration file\<close>

definition quoted :: "string \<Rightarrow> string" where
  "quoted s = [CHR 0x22] @ s @ [CHR 0x22]"

definition text_lines :: "string list \<Rightarrow> string" where
  "text_lines ls = concat (map (\<lambda>l. l @ [CHR 0x0A]) ls)"

text \<open>The lines behind the user's name, the same in both files.\<close>

definition config_tail :: string where
  "config_tail = text_lines [''  transport:'', ''    type: '' @ quoted ''xhttp'', ''    max_chunk_size: 14336'',
     ''    session_timeout: 30'', ''  middleware:'', ''    - type: '' @ quoted ''padding'', ''      min_bytes: 64'',
     ''      max_bytes: 256'', ''  fallback:'', ''    mode: '' @ quoted ''default'']"

definition auth_lines :: "string \<Rightarrow> string \<Rightarrow> string \<Rightarrow> string list" where
  "auth_lines priv shortID pub =
     [''  auth:'', ''    private_key: '' @ quoted priv, ''    max_time_diff: 120'', ''    users:'',
      ''      - short_id: '' @ quoted shortID, ''        public_key: '' @ quoted pub]"

definition setup_yaml :: "int \<Rightarrow> string \<Rightarrow> string \<Rightarrow> string \<Rightarrow> string \<Rightarrow> string \<Rightarrow> string \<Rightarrow> string \<Rightarrow> string \<Rightarrow> string" where
  "setup_yaml port ip cert key dest priv shortID pub name =
     text_lines ([''server:'', ''  listen: '' @ quoted (''0.0.0.0:'' @ FormatInt port), ''  server_ip: '' @ quoted ip, ''  tls:'',
       ''    cert_file: '' @ quoted cert, ''    key_file: '' @ quoted key]
       @ (if dest \<noteq> '''' then [''    dest: '' @ quoted dest] else []) @ auth_lines priv shortID pub)
     @ ''        name: '' @ quoted name @ [CHR 0x0A] @ config_tail"

definition init_yaml :: "int \<Rightarrow> string \<Rightarrow> string \<Rightarrow> string \<Rightarrow> string \<Rightarrow> string \<Rightarrow> string \<Rightarrow> string" where
  "init_yaml port cert key priv shortID pub name =
     text_lines ([''server:'', ''  listen: '' @ quoted (''0.0.0.0:'' @ FormatInt port), ''  tls:'',
       ''    cert_file: '' @ quoted cert, ''    key_file: '' @ quoted key,
       ''    # REALITY mode '' @ map char_of [0xE2, 0x80, 0x94 :: nat] @ '' uncomment to forward probes to a real site:'',
       ''    # dest: '' @ quoted ''google.com:443''] @ auth_lines priv shortID pub)
     @ ''        name: '' @ quoted name @ [CHR 0x0A] @ config_tail"

section \<open>runSetup\<close>

record setup_choices =
  sc_ip :: string
  sc_port :: int
  sc_dest :: string
  sc_name :: string

text \<open>The four questions; a port that does not start with a number stays 443.\<close>

definition setup_questions :: "string \<Rightarrow> string option list \<Rightarrow> iface_addr list \<Rightarrow> setup_choices" where
  "setup_questions input rs as =
     (let (serverIP, input) = prompt (detectPublicIP rs as) input;
          (portStr, input) = prompt ''443'' input;
          port = (case scan_int portStr of Some n \<Rightarrow> n | None \<Rightarrow> 443);
          (realityDest, input) = prompt ''google.com:443'' input;
          (serverName, _) = prompt ''Nightveil'' input
      in \<lparr>sc_ip = serverIP, sc_port = port,
          sc_dest = (if realityDest \<noteq> '''' \<and> CHR '':'' \<notin> set realityDest then realityDest @ '':443'' else realityDest),
          sc_name = serverName\<rparr>)"

definition randAlpha :: "nat \<Rightarrow> (nat \<Rightarrow> nat) \<Rightarrow> string" where
  "randAlpha n ds = map (\<lambda>i. ''abcdefghijklmnopqrstuvwxyz0123456789'' ! ds i) [0..<n]"

record written =
  w_yaml :: string
  w_import :: string
  w_env :: string
  w_user_link :: string

definition raw_public :: "crypto \<Rightarrow> bytes \<Rightarrow> bytes" where
  "raw_public c priv = (case X25519 c priv (Basepoint c) of Some p \<Rightarrow> p | None \<Rightarrow> [])"

definition first_link :: "crypto \<Rightarrow> keygen_draws \<Rightarrow> string \<Rightarrow> int \<Rightarrow> string \<Rightarrow> string" where
  "first_link c d ip port name =
     (let upkSafe = replace_char CHR ''/'' CHR ''_'' (replace_char CHR ''+'' CHR ''-'' (b64_encode False (kd_user d)))
      in GenerateURI (b64_encode False (raw_public c (kd_server d))) ip port (hex_bytes (kd_sid d))
           (''/'' @ randAlpha 6 (kd_prefix d)) (''/u/'' @ randAlpha 3 (kd_up d)) (''/d/'' @ randAlpha 3 (kd_down d))
           (randAlpha 5 (kd_key d)) 14336 ''chrome'' name [(''upk'', upkSafe), (''skip'', ''1'')])"

text \<open>\<open>None\<close>: there is a configuration already, and nothing is written.\<close>

definition runSetup :: "crypto \<Rightarrow> keygen_draws \<Rightarrow> string \<Rightarrow> bool \<Rightarrow> string \<Rightarrow> string option list \<Rightarrow> iface_addr list
    \<Rightarrow> written option" where
  "runSetup c d dir configured input rs as =
     (if configured then None
      else let q = setup_questions input rs as;
               link = first_link c d (sc_ip q) (sc_port q) (sc_name q)
        in Some \<lparr>w_yaml = setup_yaml (sc_port q) (sc_ip q) (dir @ ''/cert.pem'') (dir @ ''/key.pem'') (sc_dest q)
               (b64_encode False (kd_server d)) (hex_bytes (kd_sid d)) (b64_encode False (raw_public c (kd_user d))) (sc_name q),
             w_import = link @ [CHR 0x0A],
             w_env = ''NV_PORT='' @ FormatInt (sc_port q) @ [CHR 0x0A],
             w_user_link = sc_name q @ [CHR 0x0A] @ link @ [CHR 0x0A]\<rparr>)"

definition runInit :: "crypto \<Rightarrow> keygen_draws \<Rightarrow> string \<Rightarrow> int \<Rightarrow> string \<Rightarrow> bool \<Rightarrow> string \<Rightarrow> iface_addr list
    \<Rightarrow> (string \<times> string) option" where
  "runInit c d dir port name configured env_ip as =
     (if configured then None
      else Some (init_yaml port (dir @ ''/cert.pem'') (dir @ ''/key.pem'') (b64_encode False (kd_server d))
            (hex_bytes (kd_sid d)) (b64_encode False (raw_public c (kd_user d))) name,
          first_link c d (detectIP env_ip as) port name @ [CHR 0x0A]))"

text \<open>\<open>showImportLink\<close>, and what \<open>runLink\<close> prints for a file: a name and a link.\<close>

definition showImportLink :: "string option \<Rightarrow> string option" where
  "showImportLink data = (case data of None \<Rightarrow> None | Some t \<Rightarrow> if t = '''' then None else Some (TrimSpace t))"

fun split_lines :: "string \<Rightarrow> string list" where
  "split_lines [] = ['''']"
| "split_lines (c # s) =
     (if c = CHR 0x0A then '''' # split_lines s
      else case split_lines s of [] \<Rightarrow> [[c]] | w # ws \<Rightarrow> (c # w) # ws)"

definition link_of_file :: "string \<Rightarrow> string \<Rightarrow> string \<times> string" where
  "link_of_file base data =
     (case split_lines (TrimSpace data) of
        name # link # _ \<Rightarrow> (name, link) | [link] \<Rightarrow> (base, link) | [] \<Rightarrow> (base, ''''))"

section \<open>The server that setup makes\<close>

text \<open>What the file says: its meaning as YAML, which \<open>config.Load\<close> gets from the YAML library.\<close>

definition setup_settings :: "setup_choices \<Rightarrow> string \<Rightarrow> string \<Rightarrow> string \<Rightarrow> user_config list \<Rightarrow> server_settings" where
  "setup_settings q cert key priv us =
     \<lparr>ss_Listen = ''0.0.0.0:'' @ FormatInt (sc_port q), ss_ServerIP = sc_ip q,
      ss_TLS = \<lparr>tls_CertFile = cert, tls_KeyFile = key, tls_Dest = sc_dest q, tls_SNI = ''''\<rparr>,
      ss_Auth = \<lparr>ac_PrivateKey = priv, ac_ShortIDs = [], ac_Users = us, ac_MaxTimeDiff = 120\<rparr>,
      ss_Transport = \<lparr>tc_Type = ''xhttp'', tc_PathPrefix = '''', tc_UploadPath = '''', tc_DownloadPath = '''',
        tc_SessionKeyName = '''', tc_MaxChunkSize = 14336, tc_SessionTimeout = 30\<rparr>,
      ss_Middleware = [\<lparr>mc_Type = ''padding'', mc_MinBytes = 64, mc_MaxBytes = 256\<rparr>],
      ss_Fallback = \<lparr>fb_Mode = ''default'', fb_Upstream = '''', fb_Root = ''''\<rparr>, ss_API = no_api\<rparr>"

lemma setup_dest: "sc_dest (setup_questions input rs as) \<noteq> ''''"
  by (auto simp: setup_questions_def prompt_def Let_def or_default_def split: prod.splits if_splits)

text \<open>The server started on the file, and a client that uses the link.\<close>

lemma setup_link:
  assumes crypto: "crypto_ok c"
    and keys: "X25519 c (kd_server d) (Basepoint c) = Some spub" "X25519 c (kd_user d) (Basepoint c) = Some upub"
      "length (kd_server d) = 32" "length (kd_user d) = 32" "length (kd_sid d) = 4"
    and ran: "runSetup c d dir False input rs as = Some out" "q = setup_questions input rs as"
      "plain_host (sc_ip q)" "0 \<le> sc_port q"
    and s: "s = setup_settings q cert key (b64_encode False (kd_server d)) [user_entry_of (kd_sid d) upub (sc_name q)]"
  shows "\<exists>srv link cfg rm cl. server_auth (ss_Auth s) = Some srv \<and> TokenHeader srv = DefaultTokenHeader \<and>
    w_import out = link @ [CHR 0x0A] \<and> ParseURI link = Inr (cfg, rm) \<and>
    cs_Address cfg = sc_ip q @ '':'' @ FormatInt (sc_port q) \<and> client_auth c rnd (cs_Auth cfg) = Inr cl \<and>
    registered c cl srv \<and> admits c cl srv \<and> tc_SessionKeyName (cs_Transport cfg) \<noteq> ''off'' \<and>
    tc_MaxChunkSize (cs_Transport cfg) = 14336 \<and> ct_Fingerprint (cs_TLS cfg) = ''chrome''"
proof -
  have len: "length upub = 32" using crypto keys(2) unfolding crypto_ok_def by blast
  then have ne: "upub \<noteq> []" by auto
  have dec: "DecodeKey (ac_PrivateKey (ss_Auth s)) = Inr (kd_server d)"
    using DecodeKey_encode [of "kd_server d" False 0] keys(3) by (simp add: s setup_settings_def)
  have "server_auth (ss_Auth s) \<noteq> None"
    using dec DecodeKey_encode [of upub False 0] len ne
    by (simp add: server_auth_def s setup_settings_def user_entry_of_def)
  then obtain srv where srv: "server_auth (ss_Auth s) = Some srv" by auto
  then have hd: "TokenHeader srv = DefaultTokenHeader"
    by (auto simp: server_auth_def split: sum.splits option.splits)
  have users: "ac_Users (ss_Auth s) = [] @ user_entry_of (kd_sid d) upub (sc_name q) # []"
    by (simp add: s setup_settings_def)
  let ?extra = "[(''upk'', b64_encode True (kd_user d)), (''skip'', ''1'')]"
  have extra: "values_Get ?extra ''upk'' = b64_encode True (kd_user d)" "distinct (map fst ?extra)"
    "fst ` set ?extra \<inter> base_keys = {}" by (simp_all add: values_Get_def base_keys_def)
  define sk where "sk = randAlpha 5 (kd_key d)"
  have "length sk = 5" by (simp add: sk_def randAlpha_def)
  then have sk: "or_default sk ''sid'' \<noteq> ''off''" by (auto simp: or_default_def)
  have name: "or_default ''chrome'' ''chrome'' = ''chrome''" by (simp add: or_default_def)
  obtain p u dn where link: "first_link c d (sc_ip q) (sc_port q) (sc_name q) =
      GenerateURI (b64_encode False spub) (sc_ip q) (sc_port q) (hex_bytes (kd_sid d)) p u dn sk 14336 ''chrome'' (sc_name q) ?extra"
    using keys(1) by (simp add: first_link_def raw_public_def url_safe_encode sk_def)
  have "w_import out = first_link c d (sc_ip q) (sc_port q) (sc_name q) @ [CHR 0x0A]"
    using ran(1,2) by (auto simp: runSetup_def Let_def)
  then show ?thesis
    using link_enrols [OF crypto dec keys(1,2,4,5) ran(3,4) users _ srv extra, of False p u dn sk "''chrome''" "sc_name q" rnd]
      srv hd sk unfolding link [symmetric] name by auto
qed

text \<open>
  A server that \<open>setup\<close> has made serves the link that it has printed. When the YAML library
  reads the written file as what it says, the server starts with its keys, the import link
  parses, and the client that uses it is registered and admitted at the address that was
  given. The fallback, however, is the built-in page, although a site to impersonate is always
  configured: an empty answer takes the default, and the mode \<open>default\<close> keeps the site unused.
\<close>

theorem setup_server_works:
  assumes crypto: "crypto_ok c"
    and keys: "X25519 c (kd_server d) (Basepoint c) = Some spub" "X25519 c (kd_user d) (Basepoint c) = Some upub"
      "length (kd_server d) = 32" "length (kd_user d) = 32" "length (kd_sid d) = 4"
    and ran: "runSetup c d dir False input rs as = Some out" "q = setup_questions input rs as"
      "plain_host (sc_ip q)" "0 \<le> sc_port q"
    and yaml: "load (w_yaml out) = Some (setup_settings q (dir @ ''/cert.pem'') (dir @ ''/key.pem'')
      (b64_encode False (kd_server d)) [user_entry_of (kd_sid d) upub (sc_name q)])"
  shows "\<exists>s srv link cfg rm cl. load (w_yaml out) = Some s \<and> server_auth (ss_Auth s) = Some srv \<and>
    w_import out = link @ [CHR 0x0A] \<and> ParseURI link = Inr (cfg, rm) \<and>
    cs_Address cfg = sc_ip q @ '':'' @ FormatInt (sc_port q) \<and> client_auth c rnd (cs_Auth cfg) = Inr cl \<and>
    registered c cl srv \<and> admits c cl srv \<and>
    tls_Dest (ss_TLS s) \<noteq> '''' \<and> server_fallback parse_ok s = Some DefaultSite"
proof -
  let ?s = "setup_settings q (dir @ ''/cert.pem'') (dir @ ''/key.pem'') (b64_encode False (kd_server d))
      [user_entry_of (kd_sid d) upub (sc_name q)]"
  have "server_fallback parse_ok ?s = Some DefaultSite" "tls_Dest (ss_TLS ?s) \<noteq> ''''"
    using setup_dest [of input rs as] ran(2)
    by (simp_all add: server_fallback_def setup_settings_def fallback_New_def)
  with setup_link [OF crypto keys ran refl, of "dir @ ''/cert.pem''" "dir @ ''/key.pem''" rnd] yaml
  show ?thesis by blast
qed

definition setup_draws :: keygen_draws where
  "setup_draws = demo_draws\<lparr>kd_server := replicate 32 5\<rparr>"

lemma TrimSpace_Nil [simp]: "TrimSpace '''' = ''''"
  by (subst TrimSpace_def, subst trim_left_space.simps, subst trim_right_space.simps) (simp add: space_end_def)

lemma prompt_Nil: "prompt d '''' = (d, '''')"
  by (simp add: prompt_def or_default_def)

lemma setup_defaults:
  "setup_questions '''' [None] [\<lparr>if_ip = ''203.0.113.7'', if_loopback = False, if_v4 = True\<rparr>] =
     \<lparr>sc_ip = ''203.0.113.7'', sc_port = 443, sc_dest = ''google.com:443'', sc_name = ''Nightveil''\<rparr>"
proof -
  have "ParseInt ''443'' = Some 443"
    by (simp add: ParseInt_def parse_unsigned_def is_digit_def dec_val_def digit_val_def)
  then have "scan_int ''443'' = Some 443"
    by (simp add: scan_int_def skip_space_digit is_digit_def)
  then show ?thesis
    by (simp add: setup_questions_def prompt_Nil detectPublicIP_def iface_ip_def public_iface_def)
qed

theorem setup_server_works_witness:
  "\<exists>out link cfg rm cl. runSetup demo_crypto setup_draws ''/etc/nightveil'' False '''' [None]
      [\<lparr>if_ip = ''203.0.113.7'', if_loopback = False, if_v4 = True\<rparr>] = Some out \<and>
    w_import out = link @ [CHR 0x0A] \<and> ParseURI link = Inr (cfg, rm) \<and>
    client_auth demo_crypto [] (cs_Auth cfg) = Inr cl \<and> cs_Address cfg = ''203.0.113.7:'' @ FormatInt 443"
proof -
  let ?as = "[\<lparr>if_ip = ''203.0.113.7'', if_loopback = False, if_v4 = True\<rparr>]" and ?rs = "[None]"
  define q where "q = setup_questions '''' ?rs ?as"
  have q: "q = \<lparr>sc_ip = ''203.0.113.7'', sc_port = 443, sc_dest = ''google.com:443'', sc_name = ''Nightveil''\<rparr>"
    unfolding q_def by (rule setup_defaults)
  obtain out where out: "runSetup demo_crypto setup_draws ''/etc/nightveil'' False '''' ?rs ?as = Some out"
    by (simp add: runSetup_def Let_def)
  define s where "s = setup_settings q (''/etc/nightveil'' @ ''/cert.pem'') (''/etc/nightveil'' @ ''/key.pem'')
      (b64_encode False (kd_server setup_draws)) [user_entry_of (kd_sid setup_draws) (replicate 32 9) (sc_name q)]"
  have "\<exists>s' srv link cfg rm cl. (\<lambda>_. Some s) (w_yaml out) = Some s' \<and> server_auth (ss_Auth s') = Some srv \<and>
    w_import out = link @ [CHR 0x0A] \<and> ParseURI link = Inr (cfg, rm) \<and>
    cs_Address cfg = sc_ip q @ '':'' @ FormatInt (sc_port q) \<and> client_auth demo_crypto [] (cs_Auth cfg) = Inr cl \<and>
    registered demo_crypto cl srv \<and> admits demo_crypto cl srv \<and>
    tls_Dest (ss_TLS s') \<noteq> '''' \<and> server_fallback (\<lambda>_. True) s' = Some DefaultSite"
    by (rule setup_server_works [OF demo_crypto_ok _ _ _ _ _ out q_def, of "replicate 32 5" "replicate 32 9"])
      (simp_all add: q plain_host_def is_alnum_def setup_draws_def demo_draws_def s_def,
        simp_all add: demo_crypto_def vec_add_zero)
  then show ?thesis using out by (auto simp: q)
qed

end
