(* ===== verification/Enrolment.thy ===== *)
theory Enrolment
  imports Setup
begin

text \<open>
  The life of a server's user list: the file that \<open>setup\<close> writes, the users that later runs of
  \<open>adduser\<close> put into it, and the server that reads the result.
\<close>

section \<open>Adding users to the file\<close>

lemma starts_with_append: "starts_with p s \<longleftrightarrow> (\<exists>t. s = p @ t)"
  by (induction p s rule: starts_with.induct) (auto split: list.splits)

lemma tail_has_no_name: "last_index name_mark config_tail = None"
  by code_simp

text \<open>A file whose last user's line is \<open>l\<close> gets the new entry right behind it.\<close>

lemma insert_user_tail:
  assumes "CHR 0x0A \<notin> set l"
  shows "insert_user e (b @ name_mark @ l @ CHR 0x0A # config_tail) = b @ name_mark @ l @ CHR 0x0A # e @ config_tail"
proof -
  let ?c = "b @ name_mark @ l @ CHR 0x0A # config_tail" and ?n = "length (b @ name_mark @ l)"
  have nl: "CHR 0x0A \<notin> set name_mark" by (simp add: name_mark_def)
  have here: "starts_with name_mark (drop (length b) ?c)" by (auto simp: starts_with_append)
  then obtain i where i: "last_index name_mark ?c = Some i" using last_index_None by fastforce
  note li = last_index_Some [OF i]
  have lo: "length b \<le> i" using li here by (metis not_le length_append le_add1)
  have hi: "i \<le> ?n"
  proof (rule ccontr)
    assume "\<not> i \<le> ?n"
    then obtain k where "i = Suc ?n + k" using not_le less_eqE Suc_le_eq by metis
    then have "drop i ?c = drop (i - Suc ?n) config_tail" by simp
    then show False using li last_index_None [OF tail_has_no_name, of "i - Suc ?n"] by simp
  qed
  have d: "drop i ?c = drop (i - length b) (name_mark @ l) @ CHR 0x0A # config_tail" using lo hi by simp
  have "CHR 0x0A \<notin> set (drop (i - length b) (name_mark @ l))" using assms nl by (auto dest: in_set_dropD)
  then have "takeWhile (\<lambda>c. c \<noteq> CHR 0x0A) (drop i ?c) = drop (i - length b) (name_mark @ l)"
    unfolding d by (rule takeWhile_until)
  then have eol: "i + length (takeWhile (\<lambda>c. c \<noteq> CHR 0x0A) (drop i ?c)) + 1 = Suc ?n" using lo hi by simp
  have "CHR 0x0A \<in> set (drop i ?c)" unfolding d by simp
  then have "insert_user e ?c = take (Suc ?n) ?c @ e @ drop (Suc ?n) ?c" by (simp only: insert_user_def i option.case if_True Let_def eol)
  then show ?thesis by simp
qed


section \<open>The file and its users\<close>

definition entry_text :: "user_config \<Rightarrow> string" where
  "entry_text u = user_lines (uc_ShortID u) (uc_PublicKey u) (uc_Name u)"

text \<open>The file of \<open>setup\<close> with the users \<open>us\<close>.\<close>

definition file_head :: "setup_choices \<Rightarrow> string \<Rightarrow> string \<Rightarrow> string" where
  "file_head q dir priv =
     text_lines ([''server:'', ''  listen: '' @ quoted (''0.0.0.0:'' @ FormatInt (sc_port q)), ''  server_ip: '' @ quoted (sc_ip q),
       ''  tls:'', ''    cert_file: '' @ quoted (dir @ ''/cert.pem''), ''    key_file: '' @ quoted (dir @ ''/key.pem'')]
       @ (if sc_dest q \<noteq> '''' then [''    dest: '' @ quoted (sc_dest q)] else [])
       @ [''  auth:'', ''    private_key: '' @ quoted priv, ''    max_time_diff: 120'', ''    users:''])"

definition file_of :: "setup_choices \<Rightarrow> string \<Rightarrow> string \<Rightarrow> user_config list \<Rightarrow> string" where
  "file_of q dir priv us = file_head q dir priv @ concat (map entry_text us) @ config_tail"

lemma setup_yaml_file:
  "setup_yaml (sc_port q) (sc_ip q) (dir @ ''/cert.pem'') (dir @ ''/key.pem'') (sc_dest q) priv sid pub name =
     file_of q dir priv [\<lparr>uc_ShortID = sid, uc_PublicKey = pub, uc_Name = name\<rparr>]"
  by (simp add: setup_yaml_def file_of_def file_head_def entry_text_def user_lines_def auth_lines_def text_lines_def quoted_def)

lemma insert_user_file:
  assumes "CHR 0x0A \<notin> set (uc_Name u)"
  shows "insert_user (entry_text e) (file_of q dir priv (us @ [u])) = file_of q dir priv (us @ [u, e])"
proof -
  let ?l = "[CHR 0x22] @ uc_Name u @ [CHR 0x22]"
  have nl: "CHR 0x0A \<notin> set ?l" using assms by simp
  obtain b where b: "file_of q dir priv (us @ [u]) = b @ name_mark @ ?l @ CHR 0x0A # config_tail"
    "file_of q dir priv (us @ [u, e]) = b @ name_mark @ ?l @ CHR 0x0A # entry_text e @ config_tail"
    by (simp add: file_of_def entry_text_def [of u] user_lines_def name_mark_def)
  show ?thesis unfolding b by (rule insert_user_tail [OF nl])
qed

text \<open>The trimmed answers hold only characters of the line.\<close>

lemma set_trim_left: "set (trim_left_space s) \<subseteq> set s"
proof (induction s rule: trim_left_space.induct)
  case (1 s)
  show ?case
    using 1 by (subst trim_left_space.simps) (auto simp: Let_def dest: in_set_dropD)
qed

lemma set_trim_right: "set (trim_right_space s) \<subseteq> set s"
proof (induction s rule: trim_right_space.induct)
  case (1 s)
  show ?case
    using 1 by (subst trim_right_space.simps) (auto simp: Let_def dest: in_set_takeD)
qed

lemma prompt_one_line: "prompt d input = (line, rest) \<Longrightarrow> CHR 0x0A \<notin> set d \<Longrightarrow> CHR 0x0A \<notin> set line"
  using set_trim_right [of "trim_left_space (takeWhile (\<lambda>c. c \<noteq> CHR 0x0A) input)"]
    set_trim_left [of "takeWhile (\<lambda>c. c \<noteq> CHR 0x0A) input"]
  by (auto simp: prompt_def Let_def or_default_def TrimSpace_def dest!: set_takeWhileD subsetD split: if_splits)

lemma setup_name_one_line: "CHR 0x0A \<notin> set (sc_name (setup_questions input rs as))"
  by (auto simp: setup_questions_def Let_def split: prod.splits dest: prompt_one_line)

section \<open>Adding users one after the other\<close>

text \<open>
  Runs of \<open>adduser\<close>, each with its own draws and name: it reads the configuration (\<open>load\<close> is the
  YAML library) and rewrites the file. The result is the last content and the printed links;
  \<open>None\<close> when a run exits early.
\<close>

fun add_all :: "crypto \<Rightarrow> string \<Rightarrow> (string \<Rightarrow> server_settings option) \<Rightarrow> (keygen_draws \<times> string) list \<Rightarrow> string
    \<Rightarrow> (string \<times> string list) option" where
  "add_all c ip load [] content = Some (content, [])"
| "add_all c ip load ((d, name) # ads) content =
     (case load content of None \<Rightarrow> None
      | Some s \<Rightarrow>
         (case runAdduser c d ip s content name of None \<Rightarrow> None
          | Some (content', link) \<Rightarrow>
             map_option (\<lambda>(final, links). (final, link # links)) (add_all c ip load ads content')))"

definition new_user :: "crypto \<Rightarrow> keygen_draws \<times> string \<Rightarrow> user_config" where
  "new_user c a = user_entry_of (kd_sid (fst a)) (raw_public c (kd_user (fst a))) (snd a)"

definition new_link :: "crypto \<Rightarrow> setup_choices \<Rightarrow> bytes \<Rightarrow> keygen_draws \<times> string \<Rightarrow> string" where
  "new_link c q spub a =
     GenerateURI (b64_encode False spub) (sc_ip q) (sc_port q) (hex_bytes (kd_sid (fst a)))
       (''/'' @ nv_randomAlphaNum 6 (kd_prefix (fst a))) (''/u/'' @ nv_randomAlphaNum 3 (kd_up (fst a)))
       (''/d/'' @ nv_randomAlphaNum 3 (kd_down (fst a))) (nv_randomAlphaNum 5 (kd_key (fst a))) 14336 ''chrome'' (snd a)
       [(''upk'', b64_encode True (kd_user (fst a))), (''skip'', ''1'')]"

lemma runAdduser_file:
  assumes priv: "DecodeKey (b64_encode False spriv) = Inr spriv" "public_of c spriv = spub"
    and q: "sc_ip q \<noteq> ''''" "0 \<le> sc_port q" "sc_port q < 2 ^ 63" and u: "CHR 0x0A \<notin> set (uc_Name u)"
  shows "runAdduser c d ip (setup_settings q cert key (b64_encode False spriv) vs)
      (file_of q dir (b64_encode False spriv) (us @ [u])) name =
    Some (file_of q dir (b64_encode False spriv) (us @ [u, new_user c (d, name)]), new_link c q spub (d, name))"
proof -
  have e: "user_lines (hex_bytes (kd_sid d)) (b64_encode False (raw_public c (kd_user d))) name = entry_text (new_user c (d, name))"
    by (simp add: entry_text_def new_user_def user_entry_of_def)
  have p: "scan_listen_port (''0.0.0.0:'' @ FormatInt (sc_port q)) = sc_port q"
    using scan_FormatInt [OF q(2,3)] by (simp add: scan_listen_port_def)
  show ?thesis
    using insert_user_file [OF u, of "new_user c (d, name)" q dir "b64_encode False spriv" us] priv p q(1)
    by (simp add: runAdduser_def setup_settings_def Let_def new_link_def url_safe_encode or_default_def
        e [unfolded raw_public_def])
qed

lemma add_all_file:
  assumes priv: "DecodeKey (b64_encode False spriv) = Inr spriv" "public_of c spriv = spub"
    and q: "sc_ip q \<noteq> ''''" "0 \<le> sc_port q" "sc_port q < 2 ^ 63"
    and names: "CHR 0x0A \<notin> set (uc_Name u)" "\<forall>a \<in> set ads. CHR 0x0A \<notin> set (snd a)"
    and yaml: "\<forall>k \<le> length ads. load (file_of q dir (b64_encode False spriv) (us @ u # map (new_user c) (take k ads))) =
      Some (setup_settings q cert key (b64_encode False spriv) (us @ u # map (new_user c) (take k ads)))"
  shows "add_all c ip load ads (file_of q dir (b64_encode False spriv) (us @ [u])) =
    Some (file_of q dir (b64_encode False spriv) (us @ u # map (new_user c) ads), map (new_link c q spub) ads)"
  using names yaml
proof (induction ads arbitrary: us u)
  case Nil
  then show ?case by simp
next
  case (Cons a ads)
  obtain d name where a: "a = (d, name)" by (cases a)
  have ld: "load (file_of q dir (b64_encode False spriv) (us @ [u])) =
      Some (setup_settings q cert key (b64_encode False spriv) (us @ [u]))"
    using Cons.prems(3) [rule_format, of 0] by simp
  have one: "CHR 0x0A \<notin> set (uc_Name (new_user c a))" and rest: "\<forall>a \<in> set ads. CHR 0x0A \<notin> set (snd a)"
    using Cons.prems(2) by (simp_all add: new_user_def user_entry_of_def)
  have "load (file_of q dir (b64_encode False spriv) ((us @ [u]) @ new_user c a # map (new_user c) (take k ads))) =
      Some (setup_settings q cert key (b64_encode False spriv) ((us @ [u]) @ new_user c a # map (new_user c) (take k ads)))"
    if "k \<le> length ads" for k
    using Cons.prems(3) [rule_format, of "Suc k"] that by simp
  then have "add_all c ip load ads (file_of q dir (b64_encode False spriv) ((us @ [u]) @ [new_user c a])) =
      Some (file_of q dir (b64_encode False spriv) ((us @ [u]) @ new_user c a # map (new_user c) ads), map (new_link c q spub) ads)"
    by (intro Cons.IH [OF one rest]) simp
  then show ?case
    using runAdduser_file [OF priv q Cons.prems(1), of d ip cert key "us @ [u]" dir us name]
    by (simp add: a ld)
qed

lemma add_users_total:
  "\<forall>u \<in> set us. uc_PublicKey u = '''' \<or> (\<exists>k. DecodeKey (uc_PublicKey u) = Inr k) \<Longrightarrow> \<exists>m'. add_users us m = Some m'"
  by (induction us m rule: add_users.induct) auto

lemma server_of_users:
  assumes "crypto_ok c" and "length (kd_server d) = 32"
    and "\<forall>a \<in> set as. X25519 c (kd_user (fst a)) (Basepoint c) \<noteq> None"
  shows "\<exists>srv. server_auth (ss_Auth (setup_settings q cert key (b64_encode False (kd_server d)) (map (new_user c) as))) = Some srv"
proof -
  have pub: "length p = 32" if "X25519 c k b = Some p" for k b p using assms(1) that unfolding crypto_ok_def by blast
  have dk: "\<exists>k. DecodeKey (uc_PublicKey (new_user c a)) = Inr k" if a: "a \<in> set as" for a
  proof -
    obtain p where p: "X25519 c (kd_user (fst a)) (Basepoint c) = Some p" using assms(3) [rule_format, OF a] by auto
    have e: "uc_PublicKey (new_user c a) = b64_encode False p"
      by (simp add: new_user_def raw_public_def user_entry_of_def p)
    show ?thesis using DecodeKey_encode [OF pub [OF p], of False 0] unfolding e by simp
  qed
  have "\<exists>m. add_users (map (new_user c) as) Map.empty = Some m"
    by (rule add_users_total) (use dk in simp)
  then show ?thesis
    using DecodeKey_encode [of "kd_server d" False 0] assms(2) by (auto simp: server_auth_def setup_settings_def)
qed

text \<open>The link of a user, for the server started on a file with the users of \<open>as\<close>.\<close>

lemma user_link_admits:
  assumes crypto: "crypto_ok c"
    and keys: "X25519 c (kd_server d) (Basepoint c) = Some spub" "length (kd_server d) = 32"
    and q: "plain_host (sc_ip q)" "0 \<le> sc_port q"
    and srv: "server_auth (ss_Auth (setup_settings q cert key (b64_encode False (kd_server d)) (map (new_user c) as))) = Some srv"
    and i: "i < length as" and a: "length (kd_user (fst (as ! i))) = 32" "length (kd_sid (fst (as ! i))) = 4"
      "X25519 c (kd_user (fst (as ! i))) (Basepoint c) = Some p"
    and last: "kd_sid (fst (as ! i)) \<notin> (\<lambda>a. kd_sid (fst a)) ` set (drop (Suc i) as)"
  shows "\<exists>cfg rm cl. ParseURI (new_link c q spub (as ! i)) = Inr (cfg, rm) \<and>
    cs_Address cfg = sc_ip q @ '':'' @ FormatInt (sc_port q) \<and> client_auth c rnd (cs_Auth cfg) = Inr cl \<and>
    registered c cl srv \<and> admits c cl srv"
proof -
  let ?a = "as ! i" and ?s = "setup_settings q cert key (b64_encode False (kd_server d)) (map (new_user c) as)"
  let ?before = "map (new_user c) (take i as)" and ?after = "map (new_user c) (drop (Suc i) as)"
  have e: "new_user c ?a = user_entry_of (kd_sid (fst ?a)) p (snd ?a)"
    using a(3) by (simp add: new_user_def raw_public_def)
  have us: "ac_Users (ss_Auth ?s) = ?before @ user_entry_of (kd_sid (fst ?a)) p (snd ?a) # ?after"
    using arg_cong [OF id_take_nth_drop [OF i], of "map (new_user c)"] by (simp add: setup_settings_def e)
  have later: "hex_bytes (kd_sid (fst ?a)) \<notin> uc_ShortID ` set ?after"
    using last by (force simp: new_user_def user_entry_of_def dest: hex_bytes_inj)
  have dec: "DecodeKey (ac_PrivateKey (ss_Auth ?s)) = Inr (kd_server d)"
    using DecodeKey_encode [of "kd_server d" False 0] keys(2) by (simp add: setup_settings_def)
  let ?extra = "[(''upk'', b64_encode True (kd_user (fst ?a))), (''skip'', ''1'')]"
  have extra: "values_Get ?extra ''upk'' = b64_encode True (kd_user (fst ?a))" "distinct (map fst ?extra)"
    "fst ` set ?extra \<inter> base_keys = {}" by (simp_all add: values_Get_def base_keys_def)
  show ?thesis
    using link_enrols [OF crypto dec keys(1) a(3,1,2) q us later srv extra, of False _ _ _ _ "''chrome''" "snd ?a" rnd]
    unfolding new_link_def by blast
qed

text \<open>
  Enrolment over a server's life. From the file that \<open>setup\<close> has written, every sequence of
  \<open>adduser\<close> runs succeeds and leaves exactly the users in the order they were added, between
  an unchanged beginning and end; and the server that is then started on the file admits, at
  the address of the set-up, every one of them who uses the link printed by its run, whatever
  was added before and after.
\<close>

theorem added_users_admitted:
  assumes crypto: "crypto_ok c"
    and keys: "X25519 c (kd_server d) (Basepoint c) = Some spub" "length (kd_server d) = 32"
      "X25519 c (kd_user d) (Basepoint c) \<noteq> None"
    and ran: "runSetup c d dir False input rs as = Some out" "q = setup_questions input rs as"
      "plain_host (sc_ip q)" "0 \<le> sc_port q" "sc_port q < 2 ^ 63"
    and ads: "\<forall>a \<in> set ads. CHR 0x0A \<notin> set (snd a) \<and> length (kd_user (fst a)) = 32 \<and> length (kd_sid (fst a)) = 4 \<and>
        X25519 c (kd_user (fst a)) (Basepoint c) \<noteq> None"
      "distinct (map (\<lambda>a. kd_sid (fst a)) ads)"
    and users: "users = (\<lambda>k. map (new_user c) ((d, sc_name q) # take k ads))"
    and yaml: "\<forall>k \<le> length ads. load (file_of q dir (b64_encode False (kd_server d)) (users k)) =
        Some (setup_settings q (dir @ ''/cert.pem'') (dir @ ''/key.pem'') (b64_encode False (kd_server d)) (users k))"
  shows "\<exists>content links s srv. add_all c ip load ads (w_yaml out) = Some (content, links) \<and>
    content = file_of q dir (b64_encode False (kd_server d)) (users (length ads)) \<and>
    load content = Some s \<and> server_auth (ss_Auth s) = Some srv \<and> length links = length ads \<and>
    (\<forall>i < length ads. \<exists>cfg rm cl. ParseURI (links ! i) = Inr (cfg, rm) \<and>
       cs_Address cfg = sc_ip q @ '':'' @ FormatInt (sc_port q) \<and> client_auth c rnd (cs_Auth cfg) = Inr cl \<and>
       registered c cl srv \<and> admits c cl srv)"
proof -
  let ?priv = "b64_encode False (kd_server d)" and ?n = "length ads"
  let ?s = "setup_settings q (dir @ ''/cert.pem'') (dir @ ''/key.pem'') ?priv (users ?n)"
  have pub: "length p = 32" if "X25519 c k b = Some p" for k b p using crypto that unfolding crypto_ok_def by blast
  have dec: "DecodeKey ?priv = Inr (kd_server d)" using DecodeKey_encode [of "kd_server d" False 0] keys(2) by simp
  have spub: "public_of c (kd_server d) = spub" using keys(1) pub [OF keys(1)] by (simp add: public_of_def)
  have ip: "sc_ip q \<noteq> ''''" using ran(3) by (simp add: plain_host_def)
  have name: "CHR 0x0A \<notin> set (uc_Name (new_user c (d, sc_name q)))"
    using setup_name_one_line by (simp add: new_user_def user_entry_of_def ran(2))
  have "w_yaml out = file_of q dir ?priv [new_user c (d, sc_name q)]"
    using ran(1,2) by (auto simp: runSetup_def Let_def setup_yaml_file new_user_def user_entry_of_def)
  then have run: "add_all c ip load ads (w_yaml out) = Some (file_of q dir ?priv (users ?n), map (new_link c q spub) ads)"
    using add_all_file [OF dec spub ip ran(4,5) name, of ads load dir "[]" "dir @ ''/cert.pem''" "dir @ ''/key.pem''" ip] ads yaml
    by (simp add: users)
  have key: "\<exists>p. X25519 c (kd_user (fst a)) (Basepoint c) = Some p \<and> length p = 32 \<and>
      new_user c a = user_entry_of (kd_sid (fst a)) p (snd a)" if "a \<in> set ((d, sc_name q) # ads)" for a
    using that keys(3) ads(1) pub by (auto simp: new_user_def raw_public_def)
  obtain srv where srv: "server_auth (ss_Auth ?s) = Some srv"
    using server_of_users [OF crypto keys(2), of "(d, sc_name q) # ads" q "dir @ ''/cert.pem''" "dir @ ''/key.pem''"] keys(3) ads(1)
    by (auto simp: users)
  have "\<exists>cfg rm cl. ParseURI (map (new_link c q spub) ads ! i) = Inr (cfg, rm) \<and>
       cs_Address cfg = sc_ip q @ '':'' @ FormatInt (sc_port q) \<and> client_auth c rnd (cs_Auth cfg) = Inr cl \<and>
       registered c cl srv \<and> admits c cl srv" if i: "i < ?n" for i
  proof -
    let ?as = "(d, sc_name q) # ads" and ?a = "ads ! i"
    have "server_auth (ss_Auth (setup_settings q (dir @ ''/cert.pem'') (dir @ ''/key.pem'') ?priv (map (new_user c) ?as))) = Some srv"
      using srv by (simp add: users)
    note ad = user_link_admits [OF crypto keys(1,2) ran(3,4) this, of "Suc i"]
    have "distinct (map (\<lambda>a. kd_sid (fst a)) (take i ads @ ?a # drop (Suc i) ads))"
      using ads(2) id_take_nth_drop [OF i] by simp
    then have last: "kd_sid (fst ?a) \<notin> (\<lambda>a. kd_sid (fst a)) ` set (drop (Suc i) ads)" by simp
    have len: "length (kd_user (fst ?a)) = 32" "length (kd_sid (fst ?a)) = 4" using ads(1) i by auto
    obtain p where "X25519 c (kd_user (fst ?a)) (Basepoint c) = Some p" using key [of ?a] i by auto
    with ad [of p rnd] last len i show ?thesis by simp
  qed
  then show ?thesis using run srv yaml [rule_format, of ?n] by (intro exI conjI) (assumption | simp | blast)+
qed

definition demo_choices :: setup_choices where
  "demo_choices = \<lparr>sc_ip = ''203.0.113.7'', sc_port = 443, sc_dest = ''google.com:443'', sc_name = ''Nightveil''\<rparr>"

definition second_draws :: keygen_draws where
  "second_draws = setup_draws\<lparr>kd_user := replicate 32 8, kd_sid := [1, 2, 3, 4]\<rparr>"

definition demo_users :: "nat \<Rightarrow> user_config list" where
  "demo_users = (\<lambda>k. map (new_user demo_crypto) ((setup_draws, ''Nightveil'') # take k [(second_draws, ''Bob'')]))"

definition demo_load :: "string \<Rightarrow> server_settings option" where
  "demo_load text =
     (let file = file_of demo_choices ''/etc/nightveil'' (b64_encode False (replicate 32 5));
          settings = setup_settings demo_choices ''/etc/nightveil/cert.pem'' ''/etc/nightveil/key.pem'' (b64_encode False (replicate 32 5))
      in if text = file (demo_users 0) then Some (settings (demo_users 0))
         else if text = file (demo_users 1) then Some (settings (demo_users 1)) else None)"

lemma demo_load_file:
  assumes "k \<le> 1"
  shows "demo_load (file_of demo_choices ''/etc/nightveil'' (b64_encode False (replicate 32 5)) (demo_users k)) =
    Some (setup_settings demo_choices ''/etc/nightveil/cert.pem'' ''/etc/nightveil/key.pem'' (b64_encode False (replicate 32 5))
      (demo_users k))"
proof -
  have "k = 0 \<or> k = 1" using assms by linarith
  moreover have "file_of demo_choices ''/etc/nightveil'' p (demo_users 1) \<noteq> file_of demo_choices ''/etc/nightveil'' p (demo_users 0)" for p
    by (simp add: file_of_def demo_users_def entry_text_def user_lines_def)
  ultimately show ?thesis by (elim disjE) (simp_all add: demo_load_def)
qed

theorem added_users_admitted_witness:
  "\<exists>out content link cfg rm. runSetup demo_crypto setup_draws ''/etc/nightveil'' False '''' [None]
      [\<lparr>if_ip = ''203.0.113.7'', if_loopback = False, if_v4 = True\<rparr>] = Some out \<and>
    add_all demo_crypto '''' demo_load [(second_draws, ''Bob'')] (w_yaml out) = Some (content, [link]) \<and>
    ParseURI link = Inr (cfg, rm) \<and> cs_Address cfg = ''203.0.113.7:'' @ FormatInt 443"
proof -
  let ?as = "[\<lparr>if_ip = ''203.0.113.7'', if_loopback = False, if_v4 = True\<rparr>]" and ?ads = "[(second_draws, ''Bob'')]"
  obtain out where out: "runSetup demo_crypto setup_draws ''/etc/nightveil'' False '''' [None] ?as = Some out"
    by (simp add: runSetup_def Let_def)
  have q: "demo_choices = setup_questions '''' [None] ?as" by (simp add: setup_defaults demo_choices_def)
  have dr: "kd_server setup_draws = replicate 32 5" by (simp add: setup_draws_def)
  have us: "demo_users = (\<lambda>k. map (new_user demo_crypto) ((setup_draws, sc_name demo_choices) # take k ?ads))"
    by (simp add: demo_users_def demo_choices_def)
  have yaml: "\<forall>k \<le> length ?ads. demo_load (file_of demo_choices ''/etc/nightveil'' (b64_encode False (kd_server setup_draws)) (demo_users k)) =
      Some (setup_settings demo_choices (''/etc/nightveil'' @ ''/cert.pem'') (''/etc/nightveil'' @ ''/key.pem'')
        (b64_encode False (kd_server setup_draws)) (demo_users k))"
    using demo_load_file by (simp add: dr)
  have "\<exists>content links s srv. add_all demo_crypto '''' demo_load ?ads (w_yaml out) = Some (content, links) \<and>
    content = file_of demo_choices ''/etc/nightveil'' (b64_encode False (kd_server setup_draws)) (demo_users (length ?ads)) \<and>
    demo_load content = Some s \<and> server_auth (ss_Auth s) = Some srv \<and> length links = length ?ads \<and>
    (\<forall>i < length ?ads. \<exists>cfg rm cl. ParseURI (links ! i) = Inr (cfg, rm) \<and>
       cs_Address cfg = sc_ip demo_choices @ '':'' @ FormatInt (sc_port demo_choices) \<and>
       client_auth demo_crypto [] (cs_Auth cfg) = Inr cl \<and> registered demo_crypto cl srv \<and> admits demo_crypto cl srv)"
    by (rule added_users_admitted [OF demo_crypto_ok _ _ _ out q _ _ _ _ _ us yaml, where spub = "replicate 32 5"])
      (simp_all add: demo_choices_def plain_host_def is_alnum_def second_draws_def setup_draws_def demo_draws_def,
        simp_all add: demo_crypto_def vec_add_zero)
  then obtain content links where "add_all demo_crypto '''' demo_load ?ads (w_yaml out) = Some (content, links)" "length links = 1"
    "\<exists>cfg rm. ParseURI (links ! 0) = Inr (cfg, rm) \<and> cs_Address cfg = sc_ip demo_choices @ '':'' @ FormatInt (sc_port demo_choices)"
    by (auto simp del: add_all.simps)
  with out show ?thesis by (cases links) (auto simp: demo_choices_def simp del: add_all.simps)
qed

end
