(* ===== verification/Cli.thy ===== *)
theory Cli
  imports Enrolment "HOL-Library.AList" "HOL-Library.Multiset"
begin

text \<open>
  The commands that manage a server, over its files: \<open>runSetup\<close>, \<open>runInit\<close>, \<open>runAdduser\<close>,
  \<open>runUsers\<close> and \<open>runLink\<close> (\<open>cmd/nv\<close>), with \<open>config.Load\<close>. The file system is a table of paths,
  which are compared as texts; the YAML library is a function that reads a text into settings
  and says whether it failed.
\<close>

section \<open>Files\<close>

datatype node = File string | Dir

type_synonym files = "(string \<times> node) list"

text \<open>The root and the working directory have the empty name.\<close>

definition node_at :: "files \<Rightarrow> string \<Rightarrow> node option" where
  "node_at fs p = (if p = '''' then Some Dir else map_of fs p)"

definition parent :: "string \<Rightarrow> string" where
  "parent p = (if CHR ''/'' \<in> set p then before_last CHR ''/'' p else '''')"

definition base_name :: "string \<Rightarrow> string" where
  "base_name p = (if CHR ''/'' \<in> set p then tl (from_last CHR ''/'' p) else p)"

definition stat :: "files \<Rightarrow> string \<Rightarrow> bool" where
  "stat fs p \<longleftrightarrow> node_at fs p \<noteq> None"

definition read_file :: "files \<Rightarrow> string \<Rightarrow> string option" where
  "read_file fs p = (case node_at fs p of Some (File d) \<Rightarrow> Some d | _ \<Rightarrow> None)"

text \<open>Writing fails on a directory and where there is none to hold the file; nobody looks at the error.\<close>

definition write_file :: "string \<Rightarrow> string \<Rightarrow> files \<Rightarrow> files" where
  "write_file p d fs =
     (if node_at fs p \<noteq> Some Dir \<and> node_at fs (parent p) = Some Dir then AList.update p (File d) fs else fs)"

lemma length_parent: "p \<noteq> '''' \<Longrightarrow> length (parent p) < length p"
  by (cases p) (auto simp: parent_def before_last_def)

function mkdir_all :: "string \<Rightarrow> files \<Rightarrow> files" where
  "mkdir_all p fs =
     (if node_at fs p \<noteq> None then fs
      else let fs = mkdir_all (parent p) fs in
        if node_at fs (parent p) = Some Dir then AList.update p Dir fs else fs)"
  by pat_completeness auto
termination
  by (relation "measure (\<lambda>(p, fs). length p)") (auto simp: node_at_def length_parent split: if_splits)

declare mkdir_all.simps [simp del]

text \<open>\<open>filepath.Glob\<close> of \<open>dir/*.txt\<close>: the matching paths in their order.\<close>

definition glob_txt :: "string \<Rightarrow> files \<Rightarrow> string list" where
  "glob_txt dir fs =
     sort (filter (\<lambda>p. CHR ''/'' \<in> set p \<and> parent p = dir \<and> last_part 4 p = ''.txt'' \<and> 4 \<le> length (base_name p)) (map fst fs))"

section \<open>config.Load\<close>

type_synonym unmarshal = "string \<Rightarrow> server_settings \<Rightarrow> bool \<times> server_settings"

definition config_Load :: "(string \<Rightarrow> 's \<Rightarrow> bool \<times> 's) \<Rightarrow> files \<Rightarrow> string \<Rightarrow> 's \<Rightarrow> bool \<times> 's" where
  "config_Load unmarshal fs path dst =
     (case read_file fs path of None \<Rightarrow> (False, dst) | Some text \<Rightarrow> unmarshal text dst)"

definition no_settings :: server_settings where
  "no_settings =
     \<lparr>ss_Listen = '''', ss_ServerIP = '''', ss_TLS = \<lparr>tls_CertFile = '''', tls_KeyFile = '''', tls_Dest = '''', tls_SNI = ''''\<rparr>,
      ss_Auth = \<lparr>ac_PrivateKey = '''', ac_ShortIDs = [], ac_Users = [], ac_MaxTimeDiff = 0\<rparr>,
      ss_Transport = \<lparr>tc_Type = '''', tc_PathPrefix = '''', tc_UploadPath = '''', tc_DownloadPath = '''',
        tc_SessionKeyName = '''', tc_MaxChunkSize = 0, tc_SessionTimeout = 0\<rparr>,
      ss_Middleware = [], ss_Fallback = \<lparr>fb_Mode = '''', fb_Upstream = '''', fb_Root = ''''\<rparr>, ss_API = no_api\<rparr>"

text \<open>The first path that loads; what an earlier one has left in the settings stays there.\<close>

fun load_first :: "unmarshal \<Rightarrow> files \<Rightarrow> string list \<Rightarrow> server_settings \<Rightarrow> (string \<times> server_settings) option" where
  "load_first unmarshal fs [] cfg = None"
| "load_first unmarshal fs (p # ps) cfg =
     (case config_Load unmarshal fs p cfg of
        (True, cfg) \<Rightarrow> Some (p, cfg)
      | (False, cfg) \<Rightarrow> load_first unmarshal fs ps cfg)"

definition common_paths :: "string \<Rightarrow> string list" where
  "common_paths configPath = [configPath, ''/etc/nightveil/server.yaml'', ''/opt/nightveil/server.yaml'', ''server.yaml'']"

section \<open>The commands\<close>

text \<open>
  \<open>setup\<close>: \<open>cert\<close> and \<open>key\<close> are the texts of the new certificate, \<open>cwd\<close> the working directory.
  The first result is the link that is shown.
\<close>

definition setup_command :: "crypto \<Rightarrow> keygen_draws \<Rightarrow> (string \<Rightarrow> string \<times> string) \<Rightarrow> string \<Rightarrow> string \<Rightarrow> string option list
    \<Rightarrow> iface_addr list \<Rightarrow> string option \<Rightarrow> files \<Rightarrow> string option \<times> files" where
  "setup_command c d cert dir input rs as cwd fs =
     (let configPath = dir @ ''/server.yaml''; linkPath = dir @ ''/import.txt'' in
      case runSetup c d dir (stat fs configPath) input rs as of
        None \<Rightarrow> (showImportLink (read_file fs linkPath), fs)
      | Some w \<Rightarrow>
         let (certPEM, keyPEM) = cert (sc_ip (setup_questions input rs as));
             fs = mkdir_all dir fs;
             fs = write_file (dir @ ''/cert.pem'') certPEM fs;
             fs = write_file (dir @ ''/key.pem'') keyPEM fs;
             fs = write_file configPath (w_yaml w) fs;
             fs = write_file linkPath (w_import w) fs;
             fs = write_file (dir @ ''/.env'') (w_env w) fs;
             fs = (case cwd of Some wd \<Rightarrow> write_file (wd @ ''/.env'') (w_env w) fs | None \<Rightarrow> fs);
             fs = mkdir_all (dir @ ''/links'') fs;
             fs = write_file (dir @ ''/links/'' @ hex_bytes (kd_sid d) @ ''.txt'') (w_user_link w) fs
         in (Some (butlast (w_import w)), fs))"

definition init_command :: "crypto \<Rightarrow> keygen_draws \<Rightarrow> (string \<Rightarrow> string \<times> string) \<Rightarrow> string \<Rightarrow> int \<Rightarrow> string \<Rightarrow> string
    \<Rightarrow> iface_addr list \<Rightarrow> files \<Rightarrow> string option \<times> files" where
  "init_command c d cert dir port name env_ip as fs =
     (let configPath = dir @ ''/server.yaml''; linkPath = dir @ ''/import.txt'' in
      case runInit c d dir port name (stat fs configPath) env_ip as of
        None \<Rightarrow> (showImportLink (read_file fs linkPath), fs)
      | Some (yaml, link) \<Rightarrow>
         let (certPEM, keyPEM) = cert (detectIP env_ip as);
             fs = mkdir_all dir fs;
             fs = write_file (dir @ ''/cert.pem'') certPEM fs;
             fs = write_file (dir @ ''/key.pem'') keyPEM fs;
             fs = write_file configPath yaml fs;
             fs = write_file linkPath link fs
         in (Some (butlast link), fs))"

text \<open>\<open>adduser\<close>: the link that is printed, \<open>None\<close> for the exit without one.\<close>

definition adduser_command :: "crypto \<Rightarrow> keygen_draws \<Rightarrow> string \<Rightarrow> unmarshal \<Rightarrow> string \<Rightarrow> string list \<Rightarrow> files
    \<Rightarrow> string option \<times> files" where
  "adduser_command c d env_ip unmarshal configPath args fs =
     (let name = (case args of [] \<Rightarrow> ''User'' | a # _ \<Rightarrow> a) in
      case load_first unmarshal fs (filter (\<lambda>p. p \<noteq> '''') (common_paths configPath)) no_settings of
        None \<Rightarrow> (None, fs)
      | Some (cfgPath, s) \<Rightarrow>
         (case read_file fs cfgPath of None \<Rightarrow> (None, fs)
          | Some content \<Rightarrow>
             (case runAdduser c d env_ip s content name of None \<Rightarrow> (None, fs)
              | Some (content, importLink) \<Rightarrow>
                 let fs = write_file cfgPath content fs;
                     configDir = (if CHR ''/'' \<in> set cfgPath then before_last CHR ''/'' cfgPath else cfgPath);
                     linksDir = configDir @ ''/links'';
                     fs = mkdir_all linksDir fs;
                     fs = write_file (linksDir @ ''/'' @ hex_bytes (kd_sid d) @ ''.txt'')
                       (name @ [CHR 0x0A] @ importLink @ [CHR 0x0A]) fs
                 in (Some importLink, fs))))"

text \<open>\<open>users\<close>: the rows of the table and of the legacy list; \<open>None\<close> when there is no configuration.\<close>

record user_row =
  row_number :: nat
  row_id :: string
  row_key :: string
  row_name :: string

definition users_command :: "unmarshal \<Rightarrow> string \<Rightarrow> files \<Rightarrow> (user_row list \<times> (nat \<times> string) list) option" where
  "users_command unmarshal configPath fs =
     (case load_first unmarshal fs (common_paths configPath) no_settings of
        None \<Rightarrow> None
      | Some (p, s) \<Rightarrow>
         Some (map (\<lambda>(i, u). \<lparr>row_number = i + 1, row_id = uc_ShortID u,
             row_key = (if 40 < length (uc_PublicKey u) then take 40 (uc_PublicKey u) @ ''...'' else uc_PublicKey u),
             row_name = uc_Name u\<rparr>) (List.enumerate 0 (ac_Users (ss_Auth s))),
           map (\<lambda>(i, k). (i + 1, k)) (List.enumerate 0 (ac_ShortIDs (ss_Auth s)))))"

datatype shown_links = UserLinks "(string \<times> string) list" | ImportLink string | NoLinks

fun first_links :: "string list \<Rightarrow> files \<Rightarrow> (string \<times> string) list option" where
  "first_links [] fs = None"
| "first_links (dir # dirs) fs =
     (let found = glob_txt dir fs in
      if found = [] then first_links dirs fs
      else Some (map (\<lambda>f. link_of_file (base_name f) (case read_file fs f of Some d \<Rightarrow> d | None \<Rightarrow> '''')) found))"

fun first_import :: "string list \<Rightarrow> files \<Rightarrow> string option" where
  "first_import [] fs = None"
| "first_import (p # ps) fs =
     (case showImportLink (read_file fs p) of Some l \<Rightarrow> Some l | None \<Rightarrow> first_import ps fs)"

definition link_command :: "files \<Rightarrow> shown_links" where
  "link_command fs =
     (case first_links [''/etc/nightveil/links'', ''/opt/nightveil/links'', ''links''] fs of
        Some ls \<Rightarrow> UserLinks ls
      | None \<Rightarrow>
         (case first_import [''/etc/nightveil/import.txt'', ''/opt/nightveil/import.txt'', ''import.txt''] fs of
            Some l \<Rightarrow> ImportLink l | None \<Rightarrow> NoLinks))"

section \<open>Paths and files\<close>

lemma parent_child [simp]: "CHR ''/'' \<notin> set b \<Longrightarrow> parent (d @ CHR ''/'' # b) = d"
  by (simp add: parent_def)

lemma base_child [simp]: "CHR ''/'' \<notin> set b \<Longrightarrow> base_name (d @ CHR ''/'' # b) = b"
  by (simp add: base_name_def)

lemma node_at_update: "p \<noteq> '''' \<Longrightarrow> node_at (AList.update p n fs) q = (if q = p then Some n else node_at fs q)"
  by (simp add: node_at_def update_conv')

lemma node_at_write:
  "node_at (write_file p d fs) q =
     (if q = p \<and> node_at fs p \<noteq> Some Dir \<and> node_at fs (parent p) = Some Dir then Some (File d) else node_at fs q)"
  by (cases "p = ''''") (simp_all add: write_file_def node_at_update, simp_all add: node_at_def)

lemma read_write: "read_file (write_file p d fs) q =
    (if q = p \<and> node_at fs p \<noteq> Some Dir \<and> node_at fs (parent p) = Some Dir then Some d else read_file fs q)"
  by (simp add: read_file_def node_at_write)

lemma dir_write: "node_at (write_file p d fs) q = Some Dir \<longleftrightarrow> node_at fs q = Some Dir"
  by (auto simp: node_at_write)

definition in_dir :: "string \<Rightarrow> files \<Rightarrow> files" where
  "in_dir dir fs = filter (\<lambda>(p, n). CHR ''/'' \<in> set p \<and> parent p = dir) fs"

lemma in_dir_update:
  "in_dir dir (AList.update p n fs) =
     (if CHR ''/'' \<in> set p \<and> parent p = dir then AList.update p n (in_dir dir fs) else in_dir dir fs)"
  by (induction fs) (auto simp: in_dir_def)

lemma in_dir_write: "parent p \<noteq> dir \<or> node_at fs dir \<noteq> Some Dir \<Longrightarrow> in_dir dir (write_file p d fs) = in_dir dir fs"
  by (auto simp: write_file_def in_dir_update)

lemma map_of_in_dir: "CHR ''/'' \<in> set p \<Longrightarrow> map_of fs p = map_of (in_dir (parent p) fs) p"
  by (induction fs) (auto simp: in_dir_def)

text \<open>\<open>MkdirAll\<close> succeeds where no file is in the way, and only adds directories that are not longer.\<close>

lemma mkdir_all_dir:
  "(\<And>n t. node_at fs ((parent ^^ n) p) \<noteq> Some (File t)) \<Longrightarrow> node_at (mkdir_all p fs) p = Some Dir"
proof (induction p fs rule: mkdir_all.induct)
  case (1 p fs)
  show ?case
  proof (cases "node_at fs p")
    case None
    have "node_at fs ((parent ^^ n) (parent p)) \<noteq> Some (File t)" for n t
      using 1(2) [of "Suc n" t] by (simp add: funpow_swap1)
    then have "node_at (mkdir_all (parent p) fs) (parent p) = Some Dir" using 1(1) None by simp
    then show ?thesis
      using None by (subst mkdir_all.simps) (auto simp: Let_def node_at_def update_conv')
  next
    case (Some x)
    with 1(2) [of 0] have "x = Dir" by (cases x) auto
    with Some show ?thesis by (subst mkdir_all.simps) simp
  qed
qed

lemma mkdir_all_other:
  "length p < length q \<Longrightarrow> node_at (mkdir_all p fs) q = node_at fs q"
proof (induction p fs rule: mkdir_all.induct)
  case (1 p fs)
  show ?case
  proof (cases "node_at fs p")
    case None
    then have ne: "p \<noteq> ''''" by (auto simp: node_at_def)
    then have "length (parent p) < length q" using 1(2) length_parent [OF ne] by simp
    then have "node_at (mkdir_all (parent p) fs) q = node_at fs q" using 1(1) None by simp
    then show ?thesis using None 1(2) ne by (subst mkdir_all.simps) (auto simp: Let_def node_at_update)
  qed (subst mkdir_all.simps, simp)
qed

lemma in_dir_mkdir_all: "length p \<le> length dir \<Longrightarrow> in_dir dir (mkdir_all p fs) = in_dir dir fs"
proof (induction p fs rule: mkdir_all.induct)
  case (1 p fs)
  show ?case
  proof (cases "node_at fs p")
    case None
    then have ne: "p \<noteq> ''''" by (auto simp: node_at_def)
    note l = length_parent [OF ne]
    then have "parent p \<noteq> dir" using 1(2) by auto
    then show ?thesis using None 1 l by (subst mkdir_all.simps) (auto simp: Let_def in_dir_update)
  qed (subst mkdir_all.simps, simp)
qed

lemma mkdir_all_child:
  assumes "node_at fs dir = Some Dir" and "node_at fs (dir @ CHR ''/'' # b) = None" and "CHR ''/'' \<notin> set b"
  shows "mkdir_all (dir @ CHR ''/'' # b) fs = AList.update (dir @ CHR ''/'' # b) Dir fs"
proof -
  have "mkdir_all dir fs = fs" using assms(1) by (subst mkdir_all.simps) simp
  then show ?thesis using assms by (subst mkdir_all.simps) simp
qed

lemma mkdir_all_there: "node_at fs p = Some Dir \<Longrightarrow> mkdir_all p fs = fs"
  by (subst mkdir_all.simps) simp

section \<open>The files of a server\<close>

text \<open>
  The configuration is \<open>content\<close>, and the directory of links has a file for each of \<open>es\<close>: short
  id, name and link.
\<close>

definition link_path :: "string \<Rightarrow> string \<Rightarrow> string" where
  "link_path dir sid = dir @ ''/links/'' @ sid @ ''.txt''"

definition server_files :: "string \<Rightarrow> string \<Rightarrow> (string \<times> string \<times> string) list \<Rightarrow> files \<Rightarrow> bool" where
  "server_files dir content es fs \<longleftrightarrow>
     node_at fs dir = Some Dir \<and> node_at fs (dir @ ''/links'') = Some Dir \<and>
     read_file fs (dir @ ''/server.yaml'') = Some content \<and>
     in_dir (dir @ ''/links'') fs =
       map (\<lambda>(sid, name, link). (link_path dir sid, File (name @ [CHR 0x0A] @ link @ [CHR 0x0A]))) es"

lemma link_path_split: "link_path dir sid = (dir @ ''/links'') @ CHR ''/'' # (sid @ ''.txt'')"
  by (simp add: link_path_def)

lemma parent_link_path [simp]: "CHR ''/'' \<notin> set sid \<Longrightarrow> parent (link_path dir sid) = dir @ ''/links''"
  unfolding link_path_split by (rule parent_child) simp

lemma link_path_slash: "CHR ''/'' \<in> set (link_path dir sid)"
  by (simp add: link_path_def)

lemma write_link:
  assumes "node_at fs (dir @ ''/links'') = Some Dir" and "CHR ''/'' \<notin> set sid"
    and "in_dir (dir @ ''/links'') fs = map f es" and "\<forall>e \<in> set es. fst (f e) \<noteq> link_path dir sid"
  shows "in_dir (dir @ ''/links'') (write_file (link_path dir sid) t fs) = map f es @ [(link_path dir sid, File t)]"
proof -
  have new: "link_path dir sid \<notin> fst ` set (map f es)" using assms(4) by auto
  then have "map_of fs (link_path dir sid) = None"
    using map_of_in_dir [OF link_path_slash, of fs] assms(2,3) by (simp add: map_of_eq_None_iff)
  then have "node_at fs (link_path dir sid) \<noteq> Some Dir" by (simp add: node_at_def link_path_def)
  then have "write_file (link_path dir sid) t fs = AList.update (link_path dir sid) (File t) fs"
    using assms(1,2) by (simp add: write_file_def)
  then show ?thesis using link_path_slash assms(2,3) update_fresh [OF new] by (simp add: in_dir_update)
qed

lemma hex_no_slash: "CHR ''/'' \<notin> set (hex_bytes b)"
proof -
  have slash: "hex_val CHR ''/'' = None" by (simp add: hex_val_def)
  have "hex_char n \<noteq> CHR ''/''" if "n < 16" for n
    using hex_val_hex_char [OF that] slash by auto
  then have "hex_char (unat b div 16) \<noteq> CHR ''/'' \<and> hex_char (unat b mod 16) \<noteq> CHR ''/''" for b :: byte
    using unat_byte_less [of b] by simp
  then show ?thesis by (auto simp: hex_bytes_def) metis+
qed

lemma other_end: "last a \<noteq> last b \<Longrightarrow> a \<noteq> '''' \<Longrightarrow> b \<noteq> '''' \<Longrightarrow> x @ a \<noteq> y @ b"
  by (metis last_appendR)

lemma setup_files:
  assumes run: "runSetup c d dir False input rs as = Some w" and cmd: "setup_command c d cert dir input rs as cwd fs = (shown, fs')"
    and way: "\<And>n t. node_at fs ((parent ^^ n) dir) \<noteq> Some (File t)"
    and new: "node_at fs (dir @ ''/server.yaml'') = None" "node_at fs (dir @ ''/links'') = None" "in_dir (dir @ ''/links'') fs = []"
    and link: "w_user_link w = name @ [CHR 0x0A] @ link @ [CHR 0x0A]" "w_import w = link @ [CHR 0x0A]"
    and ck: "cert (sc_ip (setup_questions input rs as)) = (certPEM, keyPEM)"
  shows "shown = Some link \<and> server_files dir (w_yaml w) [(hex_bytes (kd_sid d), name, link)] fs' \<and>
    (node_at fs (dir @ ''/cert.pem'') \<noteq> Some Dir \<longrightarrow> read_file fs' (dir @ ''/cert.pem'') = Some certPEM) \<and>
    (node_at fs (dir @ ''/key.pem'') \<noteq> Some Dir \<longrightarrow> read_file fs' (dir @ ''/key.pem'') = Some keyPEM)"
proof -
  let ?pair = "\<lambda>F. (node_at fs (dir @ ''/cert.pem'') \<noteq> Some Dir \<longrightarrow> read_file F (dir @ ''/cert.pem'') = Some certPEM) \<and>
    (node_at fs (dir @ ''/key.pem'') \<noteq> Some Dir \<longrightarrow> read_file F (dir @ ''/key.pem'') = Some keyPEM)"
  define A where "A = mkdir_all dir fs"
  define B where "B = write_file (dir @ ''/.env'') (w_env w) (write_file (dir @ ''/import.txt'') (w_import w)
    (write_file (dir @ ''/server.yaml'') (w_yaml w) (write_file (dir @ ''/key.pem'') keyPEM (write_file (dir @ ''/cert.pem'') certPEM A))))"
  define C where "C = (case cwd of Some wd \<Rightarrow> write_file (wd @ ''/.env'') (w_env w) B | None \<Rightarrow> B)"
  have A: "node_at A dir = Some Dir" "node_at A (dir @ ''/server.yaml'') = None" "node_at A (dir @ ''/links'') = None"
    "in_dir (dir @ ''/links'') A = []"
    "node_at A (dir @ ''/cert.pem'') = node_at fs (dir @ ''/cert.pem'')" "node_at A (dir @ ''/key.pem'') = node_at fs (dir @ ''/key.pem'')"
    using mkdir_all_dir [OF way] new by (simp_all add: A_def mkdir_all_other in_dir_mkdir_all)
  have B: "node_at B dir = Some Dir" "node_at B (dir @ ''/links'') = None" "in_dir (dir @ ''/links'') B = []"
    "read_file B (dir @ ''/server.yaml'') = Some (w_yaml w)" "?pair B"
    using A by (simp_all add: B_def node_at_write in_dir_write read_write)
  have e: "wd @ ''/.env'' \<noteq> dir @ ''/links''" "wd @ ''/.env'' \<noteq> dir @ ''/server.yaml''"
    "wd @ ''/.env'' \<noteq> dir @ ''/cert.pem''" "wd @ ''/.env'' \<noteq> dir @ ''/key.pem''" for wd
    by (rule other_end, simp, simp, simp)+
  have C: "node_at C dir = Some Dir" "node_at C (dir @ ''/links'') = None" "in_dir (dir @ ''/links'') C = []"
    "read_file C (dir @ ''/server.yaml'') = Some (w_yaml w)"
    using B(1-4) e(1,2) by (simp_all add: C_def node_at_write in_dir_write read_write dir_write split: option.split) fastforce+
  have C5: "?pair C"
    using B(5) e(3,4) [symmetric] by (simp add: C_def read_write split: option.split)
  have mk: "mkdir_all (dir @ ''/links'') C = AList.update (dir @ ''/links'') Dir C"
    using mkdir_all_child [OF C(1), of "''links''"] C(2) by simp
  define E where "E = AList.update (dir @ ''/links'') Dir C"
  have E: "node_at E dir = Some Dir" "node_at E (dir @ ''/links'') = Some Dir" "in_dir (dir @ ''/links'') E = []"
    "read_file E (dir @ ''/server.yaml'') = Some (w_yaml w)"
    using C by (simp_all add: E_def node_at_update in_dir_update read_file_def)
  have E5: "?pair E" using C5 by (simp add: E_def node_at_update read_file_def)
  have "stat fs (dir @ ''/server.yaml'') = False" using new(1) by (simp add: stat_def)
  then have "setup_command c d cert dir input rs as cwd fs = (Some (butlast (w_import w)),
      write_file (link_path dir (hex_bytes (kd_sid d))) (w_user_link w) (mkdir_all (dir @ ''/links'') C))"
    using run unfolding C_def B_def A_def link_path_def setup_command_def by (simp add: Let_def ck)
  then have "shown = Some link" and fs': "fs' = write_file (link_path dir (hex_bytes (kd_sid d))) (w_user_link w) E"
    using cmd link(2) unfolding mk E_def by simp_all
  moreover have "link_path dir (hex_bytes (kd_sid d)) \<noteq> dir @ ''/server.yaml''"
    unfolding link_path_def by (simp add: hex_no_slash)
  moreover have "?pair fs'" using E5 unfolding fs' link_path_def by (simp add: read_write)
  moreover have "in_dir (dir @ ''/links'') fs' = [(link_path dir (hex_bytes (kd_sid d)), File (w_user_link w))]"
    using write_link [OF E(2) hex_no_slash, of id "[]"] E(3) by (simp add: fs')
  ultimately show ?thesis using E by (simp add: server_files_def dir_write read_write link)
qed

lemma adduser_files:
  assumes fs: "server_files dir content es fs" and cmd: "adduser_command c d ip unmarshal cp [name] fs = (shown, fs')"
    and load: "load_first unmarshal fs (filter (\<lambda>p. p \<noteq> '''') (common_paths cp)) no_settings = Some (dir @ ''/server.yaml'', s)"
    and run: "runAdduser c d ip s content name = Some (content', link)"
    and new: "\<forall>e \<in> set es. fst e \<noteq> hex_bytes (kd_sid d)"
  shows "shown = Some link \<and> server_files dir content' (es @ [(hex_bytes (kd_sid d), name, link)]) fs'"
proof -
  let ?sid = "hex_bytes (kd_sid d)"
  define A where "A = write_file (dir @ ''/server.yaml'') content' fs"
  have yaml: "read_file fs (dir @ ''/server.yaml'') = Some content" using fs by (simp add: server_files_def)
  then have "node_at fs (dir @ ''/server.yaml'') \<noteq> Some Dir" by (auto simp: read_file_def)
  then have A: "node_at A dir = Some Dir" "node_at A (dir @ ''/links'') = Some Dir" "read_file A (dir @ ''/server.yaml'') = Some content'"
    "in_dir (dir @ ''/links'') A = map (\<lambda>(sid, name, link). (link_path dir sid, File (name @ [CHR 0x0A] @ link @ [CHR 0x0A]))) es"
    using fs by (simp_all add: A_def server_files_def dir_write read_write in_dir_write)
  have "before_last CHR ''/'' (dir @ ''/server.yaml'') = dir" by simp
  then have "shown = Some link" and fs': "fs' = write_file (link_path dir ?sid) (name @ [CHR 0x0A] @ link @ [CHR 0x0A]) A"
    using cmd load run yaml A(2) by (simp_all add: adduser_command_def Let_def A_def [symmetric] mkdir_all_there link_path_def)
  moreover have "link_path dir ?sid \<noteq> dir @ ''/server.yaml''" unfolding link_path_def by (simp add: hex_no_slash)
  moreover have "\<forall>e \<in> set es. fst ((\<lambda>(sid, name, link). (link_path dir sid, File (name @ [CHR 0x0A] @ link @ [CHR 0x0A]))) e)
      \<noteq> link_path dir ?sid"
    using new by (auto simp: link_path_def)
  note write_link [OF A(2) hex_no_slash A(4) this, of "name @ [CHR 0x0A] @ link @ [CHR 0x0A]"]
  ultimately show ?thesis using A by (simp add: server_files_def dir_write read_write)
qed

section \<open>The text of a link file\<close>

text \<open>Links are made of printable characters, so that trimming a file ends at its link.\<close>

definition printable :: "char \<Rightarrow> bool" where
  "printable c \<longleftrightarrow> 33 \<le> (of_char c :: nat) \<and> (of_char c :: nat) < 127"

lemma is_alnum_printable: "is_alnum c \<Longrightarrow> printable c"
  by (auto simp: is_alnum_def printable_def Let_def)

lemma escape_printable:
  assumes "mode \<noteq> EncodeHost" "mode \<noteq> EncodeZone" and "c \<in> set (escape mode s)"
  shows "printable c"
proof -
  obtain x where x: "c \<in> set (escape_char mode x)" using assms(3) by (auto simp: escape_def)
  have hex: "printable (hex_upper d)" if "d < 16" for d
    using that by (auto simp: printable_def hex_upper_def)
  have b: "(of_char x :: nat) div 16 < 16" "(of_char x :: nat) mod 16 < 16"
    using nat_of_char_less_256 [of x] by (simp_all add: less_mult_imp_div_less)
  have keep: "is_alnum x \<or> x \<in> set ''-_.~$&+,/:;=?@!()*''" if "\<not> shouldEscape x mode"
    using that assms(1,2) unfolding shouldEscape_def by (auto split: if_splits)
  have "printable x" if "\<not> shouldEscape x mode"
    using keep [OF that] is_alnum_printable [of x] by (auto simp: printable_def)
  then show ?thesis
    using x hex b by (auto simp: escape_char_def printable_def split: if_splits)
qed

lemma link_printable:
  assumes "plain_host host" and "0 \<le> port" and "c \<in> set (GenerateURI (b64_encode False key) host port sid p u d sk ch fp remark extra)"
  shows "printable c"
proof -
  let ?m = "uri_params sid p u d sk ch fp extra"
  have pd: "list_all is_digit (FormatInt port)"
    using assms(2) show_nat_digits [of "nat port"] by (simp add: FormatInt_def)
  have "GenerateURI (b64_encode False key @ replicate 0 CHR ''='') host port sid p u d sk ch fp remark extra =
      ''nightveil://'' @ (b64_encode True key @ ''@'' @ host @ '':'' @ FormatInt port @ ''?'' @ values_Encode ?m @
        (if remark \<noteq> '''' then CHR ''#'' # PathEscape remark else ''''))"
    unfolding GenerateURI_def Let_def link_key by simp
  then have "c \<in> set ''nightveil://@:?#'' \<or> c \<in> set (b64_encode True key) \<or> c \<in> set host \<or> c \<in> set (FormatInt port) \<or>
      c \<in> set (values_Encode ?m) \<or> c \<in> set (PathEscape remark)"
    using assms(3) by (auto split: if_splits)
  then show ?thesis
  proof (elim disjE)
    assume "c \<in> set (b64_encode True key)"
    from b64_url_chars [OF this] show ?thesis using is_alnum_printable [of c] by (auto simp: printable_def)
  next
    assume "c \<in> set host"
    then show ?thesis using assms(1) is_alnum_printable [of c] by (auto simp: plain_host_def printable_def)
  next
    assume "c \<in> set (FormatInt port)"
    then show ?thesis using digits_alnum [OF pd] is_alnum_printable [of c] by blast
  next
    have j: "c \<in> set (amp_join ss) \<Longrightarrow> c = CHR ''&'' \<or> (\<exists>s \<in> set ss. c \<in> set s)" for ss
      by (induction ss rule: amp_join.induct) auto
    assume "c \<in> set (values_Encode ?m)"
    then have "c = CHR ''&'' \<or> c = CHR ''='' \<or> (\<exists>s. c \<in> set (QueryEscape s))"
      unfolding values_Encode_def by (auto dest!: j)
    then show ?thesis using escape_printable [of EncodeQueryComponent c] by (auto simp: printable_def)
  next
    assume "c \<in> set (PathEscape remark)"
    then show ?thesis using escape_printable [of EncodePathSegment c] by simp
  qed (auto simp: printable_def)
qed

lemma space_rune_end:
  assumes "is_space_rune (map of_char b)"
  shows "b \<noteq> [] \<and> \<not> printable (last b) \<and> CHR 0x0A \<notin> set (tl b)"
proof -
  define n :: "nat list" where "n = map of_char b"
  have "n \<noteq> [] \<and> (last n < 33 \<or> 127 \<le> last n) \<and> 10 \<notin> set (tl n)"
    using assms unfolding is_space_rune_def n_def [symmetric]
  proof
    assume a: "length n = 3 \<and> take 2 n = [0xE2, 0x80] \<and> 0x80 \<le> n ! 2 \<and> n ! 2 \<le> 0x8A"
    then obtain x where "n = [0xE2, 0x80, x]"
      by (cases n; cases "tl n"; cases "tl (tl n)") (auto simp: numeral_3_eq_3 numeral_2_eq_2)
    with a show ?thesis by simp
  qed auto
  moreover from this have b: "b \<noteq> []" by (simp add: n_def)
  moreover have "10 \<in> set (tl n)" if "CHR 0x0A \<in> set (tl b)"
    using imageI [OF that, of "of_char :: char \<Rightarrow> nat"] by (cases b) (simp_all add: n_def)
  moreover have "last n = of_char (last b)" using b by (simp add: n_def last_map)
  ultimately show ?thesis by (auto simp: printable_def)
qed

lemma length_trim_left: "length (trim_left_space s) \<le> length s"
proof (induction s rule: trim_left_space.induct)
  case (1 s)
  show ?case by (subst trim_left_space.simps) (use 1 in \<open>auto simp: Let_def intro: le_trans\<close>)
qed

lemma length_trim_right: "length (trim_right_space s) \<le> length s"
proof (induction s rule: trim_right_space.induct)
  case (1 s)
  show ?case by (subst trim_right_space.simps) (use 1 in \<open>auto simp: Let_def intro: le_trans\<close>)
qed

lemma space_end_take: "space_end take s = 0 \<longleftrightarrow> (s = '''' \<or> (\<forall>k \<in> {1, 2, 3}. \<not> is_space_rune (map of_char (take k s))))"
  by (auto simp: space_end_def Let_def)

lemma space_end_last: "space_end last_part s = 0 \<longleftrightarrow> (s = '''' \<or> (\<forall>k \<in> {1, 2, 3}. \<not> is_space_rune (map of_char (last_part k s))))"
  by (auto simp: space_end_def Let_def)

lemma trimmed_start:
  assumes "TrimSpace s = s" and "s \<noteq> ''''"
  shows "space_end take s = 0"
proof (rule ccontr)
  assume k: "space_end take s \<noteq> 0"
  have "length (trim_left_space (drop (space_end take s) s)) < length s"
    by (rule le_less_trans [OF length_trim_left]) (use k assms(2) in simp)
  then have "length (trim_left_space s) < length s" using k by (subst trim_left_space.simps) (simp add: Let_def)
  then have "length (TrimSpace s) < length s"
    using length_trim_right [of "trim_left_space s"] by (simp add: TrimSpace_def)
  with assms(1) show False by simp
qed

lemma start_before_newline:
  assumes "space_end take s = 0" and "s \<noteq> ''''"
  shows "space_end take (s @ CHR 0x0A # r) = 0"
  unfolding space_end_take
proof (intro disjI2 ballI notI)
  fix k :: nat
  assume k: "k \<in> {1, 2, 3}" and sp: "is_space_rune (map of_char (take k (s @ CHR 0x0A # r)))"
  show False
  proof (cases "k \<le> length s")
    case True
    then show False using assms k sp by (auto simp: space_end_take)
  next
    case False
    then obtain m where m: "k = length s + Suc m" using less_imp_Suc_add [of "length s" k] by auto
    have "CHR 0x0A \<in> set (tl (take k (s @ CHR 0x0A # r)))" using assms(2) by (cases s) (simp_all add: m)
    then show False using space_rune_end [OF sp] by blast
  qed
qed

lemma end_printable:
  assumes "s \<noteq> ''''" and "printable (last s)"
  shows "space_end last_part s = 0"
  unfolding space_end_last
proof (intro disjI2 ballI notI)
  fix k :: nat
  assume "k \<in> {1, 2, 3}" and sp: "is_space_rune (map of_char (last_part k s))"
  then have "last (last_part k s) = last s" using assms(1) by (auto simp: last_part_def)
  with space_rune_end [OF sp] assms(2) show False by simp
qed

lemma split_lines_none: "CHR 0x0A \<notin> set s \<Longrightarrow> split_lines s = [s]"
  by (induction s) auto

lemma split_lines_first: "CHR 0x0A \<notin> set s \<Longrightarrow> split_lines (s @ CHR 0x0A # r) = s # split_lines r"
  by (induction s) auto

lemma link_of_text:
  assumes name: "TrimSpace name = name" "name \<noteq> ''''" "CHR 0x0A \<notin> set name"
    and link: "link \<noteq> ''''" "\<forall>c \<in> set link. printable c"
  shows "link_of_file b (name @ [CHR 0x0A] @ link @ [CHR 0x0A]) = (name, link)"
proof -
  let ?t = "name @ CHR 0x0A # link"
  have "space_end take (?t @ [CHR 0x0A]) = 0"
    using start_before_newline [OF trimmed_start [OF name(1,2)] name(2), of "link @ [CHR 0x0A]"] by simp
  then have l: "trim_left_space (?t @ [CHR 0x0A]) = ?t @ [CHR 0x0A]" by (subst trim_left_space.simps) simp
  have "space_end last_part ?t = 0" by (rule end_printable) (use link in simp_all)
  then have "trim_right_space ?t = ?t" by (subst trim_right_space.simps) simp
  moreover have "space_end last_part (?t @ [CHR 0x0A]) = 1"
    by (simp add: space_end_def last_part_def is_space_rune_def)
  ultimately have "trim_right_space (?t @ [CHR 0x0A]) = ?t" by (subst trim_right_space.simps) simp
  with l have "TrimSpace (?t @ [CHR 0x0A]) = ?t" by (simp add: TrimSpace_def)
  moreover have "CHR 0x0A \<notin> set link" using link(2) by (auto simp: printable_def)
  ultimately show ?thesis
    using name(3) by (simp add: link_of_file_def split_lines_first split_lines_none)
qed

text \<open>A trimmed text, like every answer of the setup, is trimmed for good.\<close>

lemma trim_left_end: "space_end take (trim_left_space s) = 0"
proof (induction s rule: trim_left_space.induct)
  case (1 s)
  show ?case by (subst trim_left_space.simps) (use 1 in \<open>auto simp: Let_def\<close>)
qed

lemma trim_right_end: "space_end last_part (trim_right_space s) = 0"
proof (induction s rule: trim_right_space.induct)
  case (1 s)
  show ?case by (subst trim_right_space.simps) (use 1 in \<open>auto simp: Let_def\<close>)
qed

lemma trim_right_take: "\<exists>n. trim_right_space s = take n s"
proof (induction s rule: trim_right_space.induct)
  case (1 s)
  show ?case
  proof (cases "space_end last_part s = 0")
    case True
    then show ?thesis by (subst trim_right_space.simps) (auto intro: exI [of _ "length s"])
  next
    case False
    then obtain n where "trim_right_space (take (length s - space_end last_part s) s) = take n (take (length s - space_end last_part s) s)"
      using 1 by auto
    then show ?thesis using False by (subst trim_right_space.simps) (auto simp: Let_def take_take)
  qed
qed

lemma space_end_prefix:
  assumes "space_end take s = 0"
  shows "space_end take (take n s) = 0"
proof (cases "take n s = ''''")
  case False
  have "\<not> is_space_rune (map of_char (take k (take n s)))" if "k \<in> {1, 2, 3 :: nat}" for k
  proof -
    have "min k n \<in> {1, 2, 3}" using that False by (auto simp: min_def)
    then show ?thesis using assms False unfolding space_end_take by (auto simp: take_take simp del: take_eq_Nil)
  qed
  then show ?thesis unfolding space_end_take by blast
qed (simp add: space_end_take)

lemma TrimSpace_idem: "TrimSpace (TrimSpace s) = TrimSpace s"
proof -
  let ?u = "TrimSpace s"
  obtain n where "?u = take n (trim_left_space s)" using trim_right_take by (auto simp: TrimSpace_def)
  then have "space_end take ?u = 0" using space_end_prefix [OF trim_left_end] by simp
  then have "trim_left_space ?u = ?u" by (subst trim_left_space.simps) simp
  moreover have "space_end last_part ?u = 0" by (simp add: TrimSpace_def trim_right_end)
  then have "trim_right_space ?u = ?u" by (subst trim_right_space.simps) simp
  ultimately show ?thesis by (simp add: TrimSpace_def [of ?u])
qed

definition name_ok :: "string \<Rightarrow> bool" where
  "name_ok s \<longleftrightarrow> TrimSpace s = s \<and> s \<noteq> '''' \<and> CHR 0x0A \<notin> set s"

lemma prompt_trimmed:
  "prompt d input = (line, rest) \<Longrightarrow> TrimSpace d = d \<Longrightarrow> d \<noteq> '''' \<Longrightarrow> TrimSpace line = line \<and> line \<noteq> ''''"
  by (auto simp: prompt_def Let_def or_default_def TrimSpace_idem split: if_splits)

lemma setup_name_ok: "name_ok (sc_name (setup_questions input rs as))"
proof -
  have "space_end take ''Nightveil'' = 0" "space_end last_part ''Nightveil'' = 0"
    by (simp_all add: space_end_def last_part_def is_space_rune_def)
  then have "TrimSpace ''Nightveil'' = ''Nightveil''"
    by (simp add: TrimSpace_def trim_left_space.simps trim_right_space.simps)
  then have "TrimSpace (sc_name (setup_questions input rs as)) = sc_name (setup_questions input rs as) \<and>
      sc_name (setup_questions input rs as) \<noteq> ''''"
    by (auto simp: setup_questions_def Let_def split: prod.splits dest: prompt_trimmed)
  then show ?thesis using setup_name_one_line by (simp add: name_ok_def)
qed

section \<open>Listing\<close>

lemma glob_in_dir:
  "filter (\<lambda>p. CHR ''/'' \<in> set p \<and> parent p = dir \<and> P p) (map fst fs) = filter P (map fst (in_dir dir fs))"
  by (induction fs) (auto simp: in_dir_def)

lemma last_part_end: "length y = k \<Longrightarrow> last_part k (x @ y) = y"
  by (simp add: last_part_def)

lemma list_links:
  assumes fs: "server_files dir content es fs" and es: "es \<noteq> []" "distinct (map fst es)"
    and ok: "\<forall>(sid, name, link) \<in> set es. CHR ''/'' \<notin> set sid \<and> name_ok name \<and> link \<noteq> '''' \<and> (\<forall>c \<in> set link. printable c)"
  shows "\<exists>ls. first_links ((dir @ ''/links'') # dirs) fs = Some ls \<and> mset ls = mset (map snd es)"
proof -
  let ?links = "dir @ ''/links''"
  let ?entry = "\<lambda>(sid, name, link). (link_path dir sid, File (name @ [CHR 0x0A] @ link @ [CHR 0x0A]))"
  define shown where "shown = (\<lambda>f. link_of_file (base_name f) (case read_file fs f of Some d \<Rightarrow> d | None \<Rightarrow> ''''))"
  have there: "in_dir ?links fs = map ?entry es" using fs by (simp add: server_files_def)
  have paths: "map fst (map ?entry es) = map (link_path dir \<circ> fst) es" by auto
  have dottxt: "last_part 4 (link_path dir sid) = ''.txt''" "4 \<le> length (base_name (link_path dir sid))"
    if "CHR ''/'' \<notin> set sid" for sid
  proof -
    show "last_part 4 (link_path dir sid) = ''.txt''"
      using last_part_end [of "''.txt''" 4 "dir @ ''/links/'' @ sid"] by (simp add: link_path_def)
    have "base_name ((dir @ ''/links'') @ CHR ''/'' # (sid @ ''.txt'')) = sid @ ''.txt''" by (rule base_child) (simp add: that)
    then show "4 \<le> length (base_name (link_path dir sid))" by (simp only: link_path_split) simp
  qed
  have "glob_txt ?links fs = sort (filter (\<lambda>p. last_part 4 p = ''.txt'' \<and> 4 \<le> length (base_name p)) (map fst (map ?entry es)))"
    unfolding glob_txt_def glob_in_dir there ..
  also have "\<dots> = sort (map (link_path dir \<circ> fst) es)"
    unfolding paths using ok dottxt by (intro arg_cong [where f = sort] filter_True) auto
  finally have glob: "glob_txt ?links fs = sort (map (link_path dir \<circ> fst) es)" .
  have inj: "inj (link_path dir)" by (simp add: inj_def link_path_def)
  have "distinct (map fst (map ?entry es))"
    unfolding paths using es(2) inj by (simp add: distinct_map comp_inj_on inj_on_subset)
  then have one: "shown (link_path dir (fst e)) = snd e" if "e \<in> set es" for e
  proof -
    obtain sid name link where e: "e = (sid, name, link)" by (cases e)
    have s: "CHR ''/'' \<notin> set sid" "name_ok name" "link \<noteq> ''''" "\<forall>c \<in> set link. printable c"
      using ok that by (auto simp: e)
    have "map_of (map ?entry es) (link_path dir sid) = Some (File (name @ [CHR 0x0A] @ link @ [CHR 0x0A]))"
      using \<open>distinct (map fst (map ?entry es))\<close> that by (intro map_of_is_SomeI) (force simp: e)+
    then have "map_of fs (link_path dir sid) = Some (File (name @ [CHR 0x0A] @ link @ [CHR 0x0A]))"
      using map_of_in_dir [OF link_path_slash, of fs] there s(1) by simp
    then have "read_file fs (link_path dir sid) = Some (name @ [CHR 0x0A] @ link @ [CHR 0x0A])"
      by (simp add: read_file_def node_at_def link_path_def)
    then show ?thesis using link_of_text [of name link] s by (simp add: e name_ok_def shown_def)
  qed
  have ne: "sort (map (link_path dir \<circ> fst) es) \<noteq> []" using es(1) by (metis length_0_conv length_map length_sort)
  have "first_links (?links # dirs) fs = Some (map shown (sort (map (link_path dir \<circ> fst) es)))"
    using glob ne by (simp add: Let_def shown_def)
  moreover have "mset (map shown (sort (map (link_path dir \<circ> fst) es))) = mset (map shown (map (link_path dir \<circ> fst) es))"
    by (simp only: mset_map mset_sort)
  moreover have "map shown (map (link_path dir \<circ> fst) es) = map snd es"
    by (simp add: one)
  ultimately show ?thesis by metis
qed

section \<open>Adding users, one command after the other\<close>

fun add_each :: "crypto \<Rightarrow> string \<Rightarrow> unmarshal \<Rightarrow> (keygen_draws \<times> string) list \<Rightarrow> files \<Rightarrow> string option list \<times> files" where
  "add_each c ip unmarshal [] fs = ([], fs)"
| "add_each c ip unmarshal ((d, name) # ads) fs =
     (case adduser_command c d ip unmarshal '''' [name] fs of (shown, fs) \<Rightarrow>
        (case add_each c ip unmarshal ads fs of (links, fs) \<Rightarrow> (shown # links, fs)))"

definition user_file :: "crypto \<Rightarrow> setup_choices \<Rightarrow> bytes \<Rightarrow> keygen_draws \<times> string \<Rightarrow> string \<times> string \<times> string" where
  "user_file c q spub a = (hex_bytes (kd_sid (fst a)), snd a, new_link c q spub a)"

lemma load_common:
  assumes "read_file fs ''/etc/nightveil/server.yaml'' = Some content" and "unmarshal content no_settings = (True, s)"
  shows "load_first unmarshal fs (filter (\<lambda>p. p \<noteq> '''') (common_paths '''')) no_settings = Some (''/etc/nightveil/server.yaml'', s)"
    and "load_first unmarshal fs (common_paths ''/etc/nightveil/server.yaml'') no_settings = Some (''/etc/nightveil/server.yaml'', s)"
  using assms by (simp_all add: common_paths_def config_Load_def)

lemma add_each_files:
  assumes priv: "DecodeKey (b64_encode False spriv) = Inr spriv" "public_of c spriv = spub"
    and q: "sc_ip q \<noteq> ''''" "0 \<le> sc_port q" "sc_port q < 2 ^ 63"
    and names: "CHR 0x0A \<notin> set (uc_Name u)" "\<forall>a \<in> set ads. CHR 0x0A \<notin> set (snd a)"
    and sids: "distinct (map fst es @ map (\<lambda>a. hex_bytes (kd_sid (fst a))) ads)"
    and yaml: "\<forall>k \<le> length ads. unmarshal (file_of q dir (b64_encode False spriv) (us @ u # map (new_user c) (take k ads))) no_settings =
      (True, setup_settings q cert key (b64_encode False spriv) (us @ u # map (new_user c) (take k ads)))"
    and fs: "server_files ''/etc/nightveil'' (file_of q dir (b64_encode False spriv) (us @ [u])) es fs"
    and run: "add_each c ip unmarshal ads fs = (links, fs')"
  shows "links = map (\<lambda>a. Some (new_link c q spub a)) ads \<and>
    server_files ''/etc/nightveil'' (file_of q dir (b64_encode False spriv) (us @ u # map (new_user c) ads))
      (es @ map (user_file c q spub) ads) fs'"
  using names sids yaml fs run
proof (induction ads arbitrary: us u es fs links)
  case Nil
  then show ?case by simp
next
  case (Cons a ads)
  obtain d name where a: "a = (d, name)" by (cases a)
  let ?priv = "b64_encode False spriv" and ?link = "new_link c q spub a"
  obtain shown fsA rest where one: "adduser_command c d ip unmarshal '''' [name] fs = (shown, fsA)"
    and more: "add_each c ip unmarshal ads fsA = (rest, fs')" and links: "links = shown # rest"
    using Cons.prems(6) by (auto simp: a split: prod.splits)
  have read: "read_file fs ''/etc/nightveil/server.yaml'' = Some (file_of q dir ?priv (us @ [u]))"
    using Cons.prems(5) by (simp add: server_files_def)
  have "unmarshal (file_of q dir ?priv (us @ [u])) no_settings = (True, setup_settings q cert key ?priv (us @ [u]))"
    using Cons.prems(4) [rule_format, of 0] by simp
  note load = load_common(1) [where unmarshal = unmarshal, OF read this]
  have fsA: "shown = Some ?link \<and> server_files ''/etc/nightveil'' (file_of q dir ?priv (us @ [u, new_user c a]))
      (es @ [user_file c q spub a]) fsA"
    using adduser_files [OF Cons.prems(5) one, of "setup_settings q cert key ?priv (us @ [u])"
        "file_of q dir ?priv (us @ [u, new_user c a])" ?link] load
      runAdduser_file [OF priv q Cons.prems(1), of d ip cert key "us @ [u]" dir us name] Cons.prems(3)
    by (simp add: a user_file_def image_iff) metis
  have "unmarshal (file_of q dir ?priv ((us @ [u]) @ new_user c a # map (new_user c) (take k ads))) no_settings =
      (True, setup_settings q cert key ?priv ((us @ [u]) @ new_user c a # map (new_user c) (take k ads)))" if "k \<le> length ads" for k
    using Cons.prems(4) [rule_format, of "Suc k"] that by simp
  moreover have "CHR 0x0A \<notin> set (uc_Name (new_user c a))" "\<forall>a \<in> set ads. CHR 0x0A \<notin> set (snd a)"
    using Cons.prems(2) by (simp_all add: new_user_def user_entry_of_def)
  moreover have "distinct (map fst (es @ [user_file c q spub a]) @ map (\<lambda>a. hex_bytes (kd_sid (fst a))) ads)"
    using Cons.prems(3) by (simp add: user_file_def)
  ultimately show ?case
    using Cons.IH [of "new_user c a" "es @ [user_file c q spub a]" "us @ [u]" fsA rest] fsA more by (simp add: links)
qed

section \<open>The commands together\<close>

lemma map_enumerate: "map (\<lambda>x. f (snd x)) (List.enumerate n us) = map f us"
  by (induction us arbitrary: n) simp_all

lemma new_link_chars:
  assumes "plain_host (sc_ip q)" and "0 \<le> sc_port q"
  shows "new_link c q spub a \<noteq> ''''" and "x \<in> set (new_link c q spub a) \<Longrightarrow> printable x"
proof -
  show "new_link c q spub a \<noteq> ''''" by (simp add: new_link_def GenerateURI_def Let_def)
  show "x \<in> set (new_link c q spub a) \<Longrightarrow> printable x" unfolding new_link_def by (rule link_printable [OF assms])
qed

lemma setup_written:
  assumes "runSetup c d dir False input rs as = Some w" and "q = setup_questions input rs as"
    and "X25519 c (kd_server d) (Basepoint c) = Some spub"
  shows "w_user_link w = sc_name q @ [CHR 0x0A] @ new_link c q spub (d, sc_name q) @ [CHR 0x0A]"
    and "w_import w = new_link c q spub (d, sc_name q) @ [CHR 0x0A]"
    and "w_yaml w = file_of q dir (b64_encode False (kd_server d)) [new_user c (d, sc_name q)]"
proof -
  have "first_link c d (sc_ip q) (sc_port q) (sc_name q) = new_link c q spub (d, sc_name q)"
    using assms(3) by (simp add: first_link_def new_link_def raw_public_def url_safe_encode randAlpha_def nv_randomAlphaNum_def)
  with assms(1,2) show "w_user_link w = sc_name q @ [CHR 0x0A] @ new_link c q spub (d, sc_name q) @ [CHR 0x0A]"
    and "w_import w = new_link c q spub (d, sc_name q) @ [CHR 0x0A]"
    and "w_yaml w = file_of q dir (b64_encode False (kd_server d)) [new_user c (d, sc_name q)]"
    by (auto simp: runSetup_def Let_def setup_yaml_file new_user_def user_entry_of_def)
qed


section \<open>What is not listed\<close>

text \<open>
  A configuration that is named without a directory: the directory of links is looked for below
  the configuration file itself, so \<open>adduser\<close> prints a link that is saved nowhere.
\<close>

theorem bare_config_saves_no_link:
  assumes "load_first unmarshal fs (filter (\<lambda>p. p \<noteq> '''') (common_paths cp)) no_settings = Some (path, s)"
    and "path \<noteq> ''''" and "CHR ''/'' \<notin> set path" and "read_file fs path = Some content"
    and "node_at fs (path @ ''/links'') = None"
    and "runAdduser c d ip s content name = Some (content', link)"
  shows "adduser_command c d ip unmarshal cp [name] fs = (Some link, write_file path content' fs)"
proof -
  let ?fs = "write_file path content' fs" and ?links = "path @ ''/links''"
  have here: "node_at ?fs path \<noteq> None" "node_at ?fs path \<noteq> Some Dir" "node_at ?fs ?links = None"
    using assms(2-5) by (auto simp: node_at_write read_file_def split: option.splits node.splits)
  have "mkdir_all path ?fs = ?fs" using here(1) by (subst mkdir_all.simps) simp
  then have "mkdir_all ?links ?fs = ?fs" using here by (subst mkdir_all.simps) simp
  moreover have "write_file (?links @ ''/'' @ sid @ ''.txt'') t ?fs = ?fs" if "CHR ''/'' \<notin> set sid" for sid t
  proof -
    have "parent (?links @ CHR ''/'' # (sid @ ''.txt'')) = ?links" by (rule parent_child) (simp add: that)
    then show ?thesis using here(3) by (simp add: write_file_def)
  qed
  ultimately show ?thesis
    using assms(1,3,4,6) hex_no_slash by (simp add: adduser_command_def Let_def)
qed

theorem bare_config_saves_no_link_witness:
  "\<exists>link. adduser_command demo_crypto second_draws '''' (\<lambda>_ s. (True, s\<lparr>ss_Auth := (ss_Auth s)\<lparr>ac_PrivateKey := b64_encode False (replicate 32 5)\<rparr>\<rparr>))
      ''my.yaml'' [''Bob''] [(''my.yaml'', File ''x'')] = (Some link, write_file ''my.yaml'' ''x'' [(''my.yaml'', File ''x'')])"
proof -
  let ?s = "no_settings\<lparr>ss_Auth := (ss_Auth no_settings)\<lparr>ac_PrivateKey := b64_encode False (replicate 32 5)\<rparr>\<rparr>"
  have dk: "DecodeKey (b64_encode False (replicate 32 5)) = Inr (replicate 32 5)"
    using DecodeKey_encode [of "replicate 32 5" False 0] by simp
  have "insert_user e ''x'' = ''x''" for e
    by (simp add: insert_user_def name_mark_def)
  then obtain link where "runAdduser demo_crypto second_draws '''' ?s ''x'' ''Bob'' = Some (''x'', link)"
    by (simp add: runAdduser_def dk Let_def)
  then show ?thesis
    by (intro exI [of _ link] bare_config_saves_no_link [where s = ?s and path = "''my.yaml''" and content = "''x''"])
      (simp_all add: common_paths_def config_Load_def read_file_def node_at_def)
qed

text \<open>
  \<open>init\<close> writes the link of its first user into \<open>import.txt\<close> only: after the first \<open>adduser\<close> the
  directory of links exists, and \<open>link\<close> shows the added user alone.
\<close>

theorem init_user_not_listed:
  assumes "init_command c e cert ''/etc/nightveil'' port server_name env_ip as fs = (shown, fs1)"
    and "\<And>n t. node_at fs ((parent ^^ n) ''/etc/nightveil'') \<noteq> Some (File t)"
    and "node_at fs ''/etc/nightveil/server.yaml'' = None" "node_at fs ''/etc/nightveil/links'' = None"
      "in_dir ''/etc/nightveil/links'' fs = []"
    and "load_first unmarshal fs1 (filter (\<lambda>p. p \<noteq> '''') (common_paths cp)) no_settings = Some (''/etc/nightveil/server.yaml'', s)"
    and "\<And>content. \<exists>content'. runAdduser c d ip s content name = Some (content', link)"
    and "adduser_command c d ip unmarshal cp [name] fs1 = (shown2, fs2)"
    and "name_ok name" "link \<noteq> ''''" "\<forall>x \<in> set link. printable x"
  shows "link_command fs2 = UserLinks [(name, link)]"
proof -
  let ?dir = "''/etc/nightveil''"
  define dir where "dir = ?dir"
  obtain yaml ilink where run: "runInit c e dir port server_name False env_ip as = Some (yaml, ilink)" by (auto simp: runInit_def)
  obtain certPEM keyPEM where ck: "cert (detectIP env_ip as) = (certPEM, keyPEM)" by (cases "cert (detectIP env_ip as)")
  define A where "A = mkdir_all dir fs"
  have A: "node_at A dir = Some Dir" "node_at A (dir @ ''/server.yaml'') = None" "node_at A (dir @ ''/links'') = None"
    "in_dir (dir @ ''/links'') A = []"
    using mkdir_all_dir [of fs dir] assms(2-5) by (simp_all add: A_def mkdir_all_other in_dir_mkdir_all dir_def)
  have "stat fs (dir @ ''/server.yaml'') = False" using assms(3) by (simp add: stat_def dir_def)
  then have fs1: "fs1 = write_file (dir @ ''/import.txt'') ilink (write_file (dir @ ''/server.yaml'') yaml
      (write_file (dir @ ''/key.pem'') keyPEM (write_file (dir @ ''/cert.pem'') certPEM A)))"
    using assms(1) run unfolding dir_def [symmetric] init_command_def by (simp add: Let_def ck A_def)
  have B: "node_at fs1 dir = Some Dir" "node_at fs1 (dir @ ''/links'') = None" "in_dir (dir @ ''/links'') fs1 = []"
    "read_file fs1 (dir @ ''/server.yaml'') = Some yaml"
    using A by (simp_all add: fs1 node_at_write in_dir_write read_write)
  obtain content' where ad: "runAdduser c d ip s yaml name = Some (content', link)" using assms(7) by blast
  define C where "C = write_file (dir @ ''/server.yaml'') content' fs1"
  have nd: "node_at fs1 (dir @ ''/server.yaml'') \<noteq> Some Dir" using B(4) by (auto simp: read_file_def)
  have C: "node_at C dir = Some Dir" "node_at C (dir @ ''/links'') = None" "in_dir (dir @ ''/links'') C = []"
    "read_file C (dir @ ''/server.yaml'') = Some content'"
    using B nd by (simp_all add: C_def node_at_write in_dir_write read_write)
  define E where "E = AList.update (dir @ ''/links'') Dir C"
  have mk: "mkdir_all (dir @ ''/links'') C = E" using mkdir_all_child [OF C(1), of "''links''"] C(2) by (simp add: E_def)
  have E: "node_at E dir = Some Dir" "node_at E (dir @ ''/links'') = Some Dir" "in_dir (dir @ ''/links'') E = map id []"
    "read_file E (dir @ ''/server.yaml'') = Some content'"
    using C by (simp_all add: E_def node_at_update in_dir_update read_file_def)
  have "before_last CHR ''/'' (dir @ ''/server.yaml'') = dir" by simp
  moreover have "load_first unmarshal fs1 (filter (\<lambda>p. p \<noteq> '''') (common_paths cp)) no_settings = Some (dir @ ''/server.yaml'', s)"
    using assms(6) by (simp add: dir_def)
  ultimately have fs2: "fs2 = write_file (link_path dir (hex_bytes (kd_sid d))) (name @ [CHR 0x0A] @ link @ [CHR 0x0A]) E"
    using assms(8) ad B(4) by (simp add: adduser_command_def Let_def C_def [symmetric] mk link_path_def)
  have "link_path dir (hex_bytes (kd_sid d)) \<noteq> dir @ ''/server.yaml''" unfolding link_path_def by (simp add: hex_no_slash)
  then have "server_files dir content' [(hex_bytes (kd_sid d), name, link)] fs2"
    using write_link [OF E(2) hex_no_slash E(3)] E by (simp add: fs2 server_files_def dir_write read_write)
  from list_links [OF this, of "[''/opt/nightveil/links'', ''links'']"] obtain ls
    where "link_command fs2 = UserLinks ls" "mset ls = {#(name, link)#}"
    using assms(9-11) hex_no_slash by (auto simp: link_command_def dir_def)
  then show ?thesis by (simp add: mset_single_iff)
qed

definition demo_unmarshal :: unmarshal where
  "demo_unmarshal text s = (case demo_load text of None \<Rightarrow> (False, s) | Some s \<Rightarrow> (True, s))"


end
