(* ===== verification/Utls.thy ===== *)
theory Utls
  imports Http Hostport
begin

text \<open>
  Model of \<open>internal/security/utls.go\<close>: the choice of the fingerprint, the dial function of the
  HTTP/2 transport with its two ways to fail, and the limits that \<open>NewUTLSHTTPClient\<close> sets. The TCP
  dial and the TLS handshake are arguments.
\<close>

section \<open>The fingerprint\<close>

text \<open>
  \<open>strings.ToLower\<close> as far as a comparison with an ASCII name sees it: besides the ASCII letters,
  two other letters have an ASCII letter as their lower case (the dotted capital I and the
  Kelvin sign, in UTF-8), and no other byte above 127 becomes one.
\<close>

fun fold_ascii :: "string \<Rightarrow> string" where
  "fold_ascii (a # b # c # s) =
     (if a = CHR 0xE2 \<and> b = CHR 0x84 \<and> c = CHR 0xAA then CHR ''k'' # fold_ascii s
      else if a = CHR 0xC4 \<and> b = CHR 0xB0 then CHR ''i'' # fold_ascii (c # s)
      else lower_char a # fold_ascii (b # c # s))"
| "fold_ascii [a, b] = (if a = CHR 0xC4 \<and> b = CHR 0xB0 then [CHR ''i''] else [lower_char a, lower_char b])"
| "fold_ascii [a] = [lower_char a]"
| "fold_ascii [] = []"

datatype hello_id = HelloChrome_Auto | HelloFirefox_Auto | HelloSafari_Auto | HelloEdge_Auto | HelloRandomized

definition ResolveHelloID :: "string \<Rightarrow> hello_id" where
  "ResolveHelloID name = (let n = fold_ascii name in
     if n = ''chrome'' then HelloChrome_Auto else if n = ''firefox'' then HelloFirefox_Auto
     else if n = ''safari'' then HelloSafari_Auto else if n = ''edge'' then HelloEdge_Auto
     else if n = ''random'' then HelloRandomized else HelloChrome_Auto)"

text \<open>The server name of \<open>DialTLSContext\<close>: the configured one, or the host of the address.\<close>

definition utls_server_name :: "string \<Rightarrow> string \<Rightarrow> string" where
  "utls_server_name configured addr =
     (if configured = '''' then (case SplitHostPort addr of Some (h, _) \<Rightarrow> h | None \<Rightarrow> '''') else configured)"

text \<open>
  On ASCII names the folding is that of the ASCII letters.
\<close>

lemma fold_ascii_ASCII:
  assumes "\<forall>x \<in> set s. (of_char x :: nat) < 128"
  shows "fold_ascii s = map lower_char s"
proof -
  have "x \<noteq> CHR 0xE2 \<and> x \<noteq> CHR 0xC4" if "(of_char x :: nat) < 128" for x :: char
    using that by auto
  with assms show ?thesis by (induction s rule: fold_ascii.induct) auto
qed

section \<open>The dial\<close>

record utls_config =
  ut_ServerName :: string
  ut_Fingerprint :: string
  ut_SkipVerify :: bool

datatype 'e utls_err = DialFailed string 'e | HandshakeFailed 'e

text \<open>
  \<open>DialTLSContext\<close>: \<open>dial\<close> opens a TCP connection to the address and \<open>shake\<close> is the handshake on it,
  for a server name, with the check of the certificate skipped or not, and with a fingerprint. The
  second result lists the connections that the function has closed.
\<close>

definition DialTLSContext :: "(string \<Rightarrow> 'e + 'c) \<Rightarrow> ('c \<Rightarrow> string \<Rightarrow> bool \<Rightarrow> hello_id \<Rightarrow> 'e + 't) \<Rightarrow> utls_config \<Rightarrow> string
    \<Rightarrow> ('e utls_err + 't) \<times> 'c list" where
  "DialTLSContext dial shake cfg addr =
     (case dial addr of Inl err \<Rightarrow> (Inl (DialFailed addr err), [])
      | Inr tcpConn \<Rightarrow>
         (case shake tcpConn (utls_server_name (ut_ServerName cfg) addr) (ut_SkipVerify cfg) (ResolveHelloID (ut_Fingerprint cfg)) of
            Inl err \<Rightarrow> (Inl (HandshakeFailed err), [tcpConn])
          | Inr tlsConn \<Rightarrow> (Inr tlsConn, [])))"

section \<open>The client\<close>

text \<open>The limits in nanoseconds; 0 is none. A client without a transport of its own has \<open>None\<close>.\<close>

record ('c, 'e, 't) h2_transport =
  h2_Dial :: "string \<Rightarrow> ('e utls_err + 't) \<times> 'c list"
  ReadIdleTimeout :: int
  PingTimeout :: int
  WriteByteTimeout :: int

record ('c, 'e, 't) http_client =
  hc_Transport :: "('c, 'e, 't) h2_transport option"
  hc_Timeout :: int

definition NewUTLSHTTPClient :: "(string \<Rightarrow> int \<Rightarrow> 'e + 'c) \<Rightarrow> ('c \<Rightarrow> string \<Rightarrow> bool \<Rightarrow> hello_id \<Rightarrow> 'e + 't) \<Rightarrow> utls_config
    \<Rightarrow> ('c, 'e, 't) http_client" where
  "NewUTLSHTTPClient dial shake cfg =
     \<lparr>hc_Transport = Some \<lparr>h2_Dial = DialTLSContext (\<lambda>addr. dial addr 30000000000) shake cfg,
        ReadIdleTimeout = 5000000000, PingTimeout = 5000000000, WriteByteTimeout = 0\<rparr>,
      hc_Timeout = 0\<rparr>"

text \<open>
  A TCP connection that was opened ends up under the TLS connection that is returned, or it is
  closed exactly once and the handshake's error is reported; no other connection is touched.
\<close>

lemma DialTLSContext_no_leak:
  assumes "DialTLSContext dial shake cfg addr = (r, cs)"
  shows "case r of
      Inr t \<Rightarrow> cs = [] \<and> (\<exists>c. dial addr = Inr c \<and>
        shake c (utls_server_name (ut_ServerName cfg) addr) (ut_SkipVerify cfg) (ResolveHelloID (ut_Fingerprint cfg)) = Inr t)
    | Inl (DialFailed a e) \<Rightarrow> cs = [] \<and> a = addr \<and> dial addr = Inl e
    | Inl (HandshakeFailed e) \<Rightarrow> (\<exists>c. cs = [c] \<and> dial addr = Inr c \<and>
        shake c (utls_server_name (ut_ServerName cfg) addr) (ut_SkipVerify cfg) (ResolveHelloID (ut_Fingerprint cfg)) = Inl e)"
  using assms by (auto simp: DialTLSContext_def split: sum.splits)

end
