(* ===== verification/Connect.thy ===== *)
theory Connect
  imports Cmd Rotator Tunnel Xhttp_Client Utls
begin

text \<open>
  Model of \<open>runConnect\<close> (\<open>cmd_connect.go\<close>): how the client puts detector, controller,
  rotator, canary and transport manager together, and how they then run beside each other.
  Every callback is started as a goroutine, so a state holds the callbacks that have been
  started and not yet run; they run in any order.
\<close>

section \<open>Start\<close>

text \<open>The callbacks are numbered in the order in which \<open>runConnect\<close> registers them.\<close>

definition cb_adaptive :: nat where "cb_adaptive = 0"
definition cb_emergency :: nat where "cb_emergency = 1"
definition cb_log :: nat where "cb_log = 2"
definition cb_canary :: nat where "cb_canary = 3"
definition cb_rebuild :: nat where "cb_rebuild = 4"

datatype callback = AdaptiveCb tstate | EmergencyCb tstate | LogCb tstate | CanaryCb canary_state | RebuildCb live_params

definition state_callback :: "nat \<times> tstate \<Rightarrow> callback" where
  "state_callback c = (if fst c = cb_adaptive then AdaptiveCb (snd c)
     else if fst c = cb_emergency then EmergencyCb (snd c) else LogCb (snd c))"

definition strategy_of :: "string \<Rightarrow> strategy" where
  "strategy_of s = (if s = '''' then StrategyUnset else if s = ''multiply'' then StrategyMultiply
     else if s = ''rotate'' then StrategyRotate else if s = ''both'' then StrategyBoth else StrategyOther s)"

record 'f nv_client =
  nc_url :: string
  nc_http :: "string option"
  nc_auth :: client_x25519
  nc_app :: "(client, 'f) client_app"
  nc_adaptive :: adaptive
  nc_rot :: rotator_run
  nc_canary :: canary
  nc_calls :: "callback list"
  nc_built :: "client list"

text \<open>\<open>makeXHTTPTransport\<close>, with the rotator's parameters at the moment it is called.\<close>

definition makeXHTTPTransport :: "string \<Rightarrow> string option \<Rightarrow> live_params \<Rightarrow> client" where
  "makeXHTTPTransport url tr p =
     NewClient url \<lparr>PathPrefix = LPathPrefix p, UploadPath = LUploadPath p, DownloadPath = LDownloadPath p,
       SessionKeyName = SessionKey p, MaxChunkSize = ChunkSize p, SessionTimeout = 0,
       CfgDownloadBufferBytes = 0, UploadMode = ''''\<rparr> tr"

text \<open>
  The parameters that the configuration overrides; \<open>SetInitialParams\<close> ignores what is empty
  or zero. The HTTP client is that of uTLS over HTTP/2, or the standard one without a
  transport of its own.
\<close>

definition settings_params :: "client_settings \<Rightarrow> live_params" where
  "settings_params s =
     \<lparr>PaddingMin = 0, PaddingMax = 0, ChunkSize = tc_MaxChunkSize (cs_Transport s), JitterMinMs = 0, JitterMaxMs = 0,
       LPathPrefix = tc_PathPrefix (cs_Transport s), LUploadPath = tc_UploadPath (cs_Transport s),
       LDownloadPath = tc_DownloadPath (cs_Transport s), SessionKey = tc_SessionKeyName (cs_Transport s)\<rparr>"

definition connect_http :: "client_settings \<Rightarrow> string option" where
  "connect_http s = (if ct_Fingerprint (cs_TLS s) \<noteq> '''' then Some ''*http2.Transport'' else None)"

text \<open>
  The same client with its limits: what \<open>http.Client\<close> is given as \<open>Timeout\<close> covers a request with
  all of its body.
\<close>

definition connect_client :: "(string \<Rightarrow> int \<Rightarrow> 'e + 'c) \<Rightarrow> ('c \<Rightarrow> string \<Rightarrow> bool \<Rightarrow> hello_id \<Rightarrow> 'e + 't) \<Rightarrow> client_settings
    \<Rightarrow> ('c, 'e, 't) http_client" where
  "connect_client dial shake s =
     (case snd (connect_tls s) of
        Some (sni, skip) \<Rightarrow> NewUTLSHTTPClient dial shake
          \<lparr>ut_ServerName = sni, ut_Fingerprint = ct_Fingerprint (cs_TLS s), ut_SkipVerify = skip\<rparr>
      | None \<Rightarrow> \<lparr>hc_Transport = None, hc_Timeout = 30000000000\<rparr>)"

lemma connect_client_http:
  "connect_http s = map_option (\<lambda>t. ''*http2.Transport'') (hc_Transport (connect_client dial shake s))"
  by (simp add: connect_http_def connect_client_def connect_tls_def NewUTLSHTTPClient_def Let_def)

text \<open>
  Dialling the configured address, the handshake names the configured server name or else the host
  without its port; only an address with an empty host is dialled with an empty name.
\<close>

lemma connect_client_name:
  assumes "ct_Fingerprint (cs_TLS s) \<noteq> ''''" and "SplitHostPort (cs_Address s) = Some (host, port)"
    and "dial (cs_Address s) 30000000000 = Inr c"
  shows "\<exists>tr. hc_Transport (connect_client dial shake s) = Some tr \<and> hc_Timeout (connect_client dial shake s) = 0 \<and>
    h2_Dial tr (cs_Address s) =
      (case shake c (if ct_SNI (cs_TLS s) = '''' then host else ct_SNI (cs_TLS s)) (ct_SkipVerify (cs_TLS s))
          (ResolveHelloID (ct_Fingerprint (cs_TLS s))) of
         Inl e \<Rightarrow> (Inl (HandshakeFailed e), [c]) | Inr t \<Rightarrow> (Inr t, []))"
  using assms
  by (simp add: connect_client_def connect_tls_def NewUTLSHTTPClient_def DialTLSContext_def utls_server_name_def Let_def
      split: sum.split)

definition start_client :: "'f float_ops \<Rightarrow> draws \<Rightarrow> client_x25519 \<Rightarrow> client_settings \<Rightarrow> 'f nv_client" where
  "start_client F d cl s =
     (let det = NewDetector F \<lparr>RTTSpikeMs = at_DetectRTTSpikeMs (cs_AntiThrottle s),
            ThroughputDropPct = at_DetectThroughputDrop (cs_AntiThrottle s), WindowSize = 0, ConfirmCount = 3\<rparr>;
          (ad, det1) = NewAdaptive \<lparr>Strategy = strategy_of (at_Response (cs_AntiThrottle s)), BaseParallelConns = 1,
            MaxParallelConns = 8, RotateIntervalSec = 0\<rparr> cb_adaptive det;
          (rot0, det2) = NewRotator d \<lparr>ParamRotateInterval = 5 * 60000000000, SessionRotateInterval = 30 * 60000000000,
            EmergencyRotate = True\<rparr> DefaultRanges cb_emergency (Some det1);
          rot1 = SetInitialParams (settings_params s) rot0;
          can = canary_OnStateChange cb_canary (NewCanary \<lparr>CEndpoints = [], Interval = 30000000000,
            Timeout = 10000000000, FailThreshold = 3\<rparr>);
          det3 = detector_OnStateChange cb_log (the det2);
          url = fst (connect_tls s);
          m = tmanager_New [(''xhttp'', makeXHTTPTransport url (connect_http s) (GetParams rot1))]
      in \<lparr>nc_url = url, nc_http = connect_http s, nc_auth = cl, nc_app = \<lparr>app_mgr = m, app_det = det3\<rparr>,
          nc_adaptive = ad, nc_rot = rotator_Start (OnSessionRotate cb_rebuild rot1), nc_canary = can,
          nc_calls = [], nc_built = []\<rparr>)"

section \<open>Running\<close>

definition start_rebuilds :: "(nat \<times> live_params) list \<Rightarrow> 'f nv_client \<Rightarrow> 'f nv_client" where
  "start_rebuilds cs s = s\<lparr>nc_calls := nc_calls s @ map (\<lambda>(l, p). RebuildCb p) cs\<rparr>"

text \<open>
  One step: a tick of a timer of the rotator (\<open>runConnect\<close> registers no callback for parameter
  rotations, so such a tick starts none), a callback, the two halves of a rebuild (the
  callback on a session rotation first builds a transport and then replaces the old one), a
  round of the canary, a SOCKS5 connection and the report at its end, the health check.
\<close>

inductive nv_step :: "'f float_ops \<Rightarrow> ('id, client, 'e, conn) dialer \<Rightarrow> 'f nv_client \<Rightarrow> 'f nv_client \<Rightarrow> bool"
  for F dial where
  param_timer: "ploop (nc_rot s) \<Longrightarrow> draws_ok DefaultRanges d \<Longrightarrow> rotateParams d (rot (nc_rot s)) = ([], r) \<Longrightarrow>
    nv_step F dial s (s\<lparr>nc_rot := (nc_rot s)\<lparr>rot := r\<rparr>\<rparr>)"
| session_timer: "sloop (nc_rot s) \<Longrightarrow> draws_ok DefaultRanges d \<Longrightarrow> rotateSession d (rot (nc_rot s)) = (cs, r) \<Longrightarrow>
    nv_step F dial s (start_rebuilds cs (s\<lparr>nc_rot := (nc_rot s)\<lparr>rot := r\<rparr>\<rparr>))"
| adaptive_called: "nc_calls s = xs @ AdaptiveCb t # ys \<Longrightarrow>
    nv_step F dial s (s\<lparr>nc_calls := xs @ ys, nc_adaptive := onStateChange t (nc_adaptive s)\<rparr>)"
| emergency_called: "nc_calls s = xs @ EmergencyCb t # ys \<Longrightarrow> draws_ok DefaultRanges d \<Longrightarrow>
    emergency_callback d t (rot (nc_rot s)) = (cs, r) \<Longrightarrow>
    nv_step F dial s (start_rebuilds cs (s\<lparr>nc_calls := xs @ ys, nc_rot := (nc_rot s)\<lparr>rot := r\<rparr>\<rparr>))"
| log_called: "nc_calls s = xs @ LogCb t # ys \<Longrightarrow> nv_step F dial s (s\<lparr>nc_calls := xs @ ys\<rparr>)"
| canary_fine: "nc_calls s = xs @ CanaryCb t # ys \<Longrightarrow> t \<noteq> CanaryBlocked \<Longrightarrow> nv_step F dial s (s\<lparr>nc_calls := xs @ ys\<rparr>)"
| canary_blocked: "nc_calls s = xs @ CanaryCb CanaryBlocked # ys \<Longrightarrow> draws_ok DefaultRanges d \<Longrightarrow>
    EmergencyRotateNow d (rot (nc_rot s)) = (cs, r) \<Longrightarrow>
    nv_step F dial s (start_rebuilds cs (s\<lparr>nc_calls := xs @ ys, nc_rot := (nc_rot s)\<lparr>rot := r\<rparr>\<rparr>))"
| rebuild_begins: "nc_calls s = xs @ RebuildCb p # ys \<Longrightarrow>
    nv_step F dial s (s\<lparr>nc_calls := xs @ ys,
      nc_built := nc_built s @ [makeXHTTPTransport (nc_url s) (nc_http s) (GetParams (rot (nc_rot s)))]\<rparr>)"
| rebuild_ends: "nc_built s = xs @ c # ys \<Longrightarrow> manager_Replace 0 (''xhttp'', c) (app_mgr (nc_app s)) = (old, m) \<Longrightarrow>
    nv_step F dial s (s\<lparr>nc_built := xs @ ys, nc_app := (nc_app s)\<lparr>app_mgr := m\<rparr>\<rparr>)"
| probed: "canary_probe F answers (Some (app_det (nc_app s))) (nc_canary s) = (ccalls, dcalls, Some d, can) \<Longrightarrow>
    nv_step F dial s (s\<lparr>nc_calls := nc_calls s @ map state_callback dcalls @ map (\<lambda>(l, t). CanaryCb t) ccalls,
      nc_canary := can, nc_app := (nc_app s)\<lparr>app_det := d\<rparr>\<rparr>)"
| socks_client: "handleSOCKS5Client F dial sid rtt conn (nc_app s) = Some (res, app) \<Longrightarrow>
    nv_step F dial s (s\<lparr>nc_app := app, nc_calls := nc_calls s @ map state_callback (sr_calls res)\<rparr>)"
| reported: "report_throughput F st duration (nc_app s) = (calls, app) \<Longrightarrow>
    nv_step F dial s (s\<lparr>nc_app := app, nc_calls := nc_calls s @ map state_callback calls\<rparr>)"
| health_check: "tryPromote dial zero (app_mgr (nc_app s)) = (r, m) \<Longrightarrow>
    nv_step F dial s (s\<lparr>nc_app := (nc_app s)\<lparr>app_mgr := m\<rparr>\<rparr>)"

section \<open>What the transport keeps\<close>

definition params_ok :: "int \<Rightarrow> live_params \<Rightarrow> bool" where
  "params_ok mx p \<longleftrightarrow> 0 < ChunkSize p \<and> ChunkSize p \<le> mx \<and> SessionKey p \<noteq> ''off''"

definition client_ok :: "string \<Rightarrow> string option \<Rightarrow> int \<Rightarrow> client \<Rightarrow> bool" where
  "client_ok url tr mx c \<longleftrightarrow> ServerURL c = url \<and> HTTPTransport c = tr \<and>
     0 < MaxChunkSize (ClientConfig c) \<and> MaxChunkSize (ClientConfig c) \<le> mx \<and>
     SessionKeyName (ClientConfig c) \<noteq> ''off'' \<and> UploadMode (ClientConfig c) = ''auto''"

lemma makeXHTTPTransport_ok: "params_ok mx p \<Longrightarrow> client_ok url tr mx (makeXHTTPTransport url tr p)"
  by (simp add: params_ok_def client_ok_def makeXHTTPTransport_def NewClient_def defaults_def)

lemma random_params_ok: "in_ranges DefaultRanges p \<Longrightarrow> 14336 \<le> mx \<Longrightarrow> params_ok mx p"
  by (auto simp: in_ranges_def params_ok_def DefaultRanges_def alnum_path_def)

definition rot_ok :: "int \<Rightarrow> rotator \<Rightarrow> bool" where
  "rot_ok mx r \<longleftrightarrow> params_ok mx (params r) \<and> ranges r = DefaultRanges \<and> onParamRotate r = []"

lemma rotated_ok:
  assumes "rot_ok mx r" and "draws_ok DefaultRanges d" and "14336 \<le> mx"
  shows "rotateParams d r = (cs, r') \<Longrightarrow> rot_ok mx r'"
    and "rotateSession d r = (cs, r') \<Longrightarrow> rot_ok mx r'"
    and "EmergencyRotateNow d r = (cs, r') \<Longrightarrow> rot_ok mx r'"
    and "emergency_callback d t r = (cs, r') \<Longrightarrow> rot_ok mx r'"
proof -
  note rnd = random_params_ok [OF in_ranges_randomizeAll [OF _ assms(2)] assms(3)]
  have ok: "ranges_ok DefaultRanges" using DefaultRanges_ok by blast
  show "rotateSession d r = (cs, r') \<Longrightarrow> rot_ok mx r'" and "EmergencyRotateNow d r = (cs, r') \<Longrightarrow> rot_ok mx r'"
    and "emergency_callback d t r = (cs, r') \<Longrightarrow> rot_ok mx r'"
    using assms(1) rnd [OF ok]
    by (auto simp: rot_ok_def rotateSession_def emergency_callback_def EmergencyRotateNow_def Let_def split: if_splits)
  show "rotateParams d r = (cs, r') \<Longrightarrow> rot_ok mx r'"
    using assms(1) rnd [OF ok] by (auto simp: rot_ok_def rotateParams_def Let_def params_ok_def randomizeAll_def)
qed

definition nv_ok :: "string \<Rightarrow> string option \<Rightarrow> client_x25519 \<Rightarrow> int \<Rightarrow> 'f nv_client \<Rightarrow> bool" where
  "nv_ok url tr cl mx s \<longleftrightarrow> nc_url s = url \<and> nc_http s = tr \<and> nc_auth s = cl \<and>
     (\<exists>c. transports (app_mgr (nc_app s)) = [(''xhttp'', c)] \<and> client_ok url tr mx c) \<and>
     activeIdx (app_mgr (nc_app s)) = 0 \<and> (\<forall>c \<in> set (nc_built s). client_ok url tr mx c) \<and> rot_ok mx (rot (nc_rot s))"

lemma handleSOCKS5Client_mgr:
  assumes "transports (app_mgr app) = [(n, c)]" and "activeIdx (app_mgr app) = 0" and "\<And>sid t. snd (dial sid t) = t"
    and "handleSOCKS5Client F dial sid rtt conn app = Some (res, app')"
  shows "app_mgr app' = app_mgr app"
  using assms(4) stateless_dialer.Dial_single [OF stateless_dialer.intro assms(1,2), of dial, OF assms(3)]
  by (auto simp: handleSOCKS5Client_def Let_def split: prod.splits sum.splits option.splits)

lemma nv_step_ok:
  assumes "nv_step F dial s t" and dial: "\<And>sid t. snd (dial sid t) = t" and ok: "nv_ok url tr cl mx s" and mx: "14336 \<le> mx"
  shows "nv_ok url tr cl mx t"
proof -
  obtain c where m: "transports (app_mgr (nc_app s)) = [(''xhttp'', c)]" "activeIdx (app_mgr (nc_app s)) = 0"
    using ok by (auto simp: nv_ok_def)
  have r: "rot_ok mx (rot (nc_rot s))" using ok by (simp add: nv_ok_def)
  from assms(1) show ?thesis
  proof (cases rule: nv_step.cases)
    case (param_timer d r)
    then show ?thesis using ok rotated_ok(1) [OF r _ mx] by (simp add: nv_ok_def)
  next
    case (session_timer d cs r)
    then show ?thesis using ok rotated_ok(2) [OF r _ mx] by (simp add: nv_ok_def start_rebuilds_def)
  next
    case (emergency_called xs st ys d cs r)
    then show ?thesis using ok rotated_ok(4) [OF r _ mx] by (simp add: nv_ok_def start_rebuilds_def)
  next
    case (canary_blocked xs ys d cs r)
    then show ?thesis using ok rotated_ok(3) [OF r _ mx] by (simp add: nv_ok_def start_rebuilds_def)
  next
    case (rebuild_begins xs p ys)
    then show ?thesis using ok makeXHTTPTransport_ok by (auto simp: nv_ok_def rot_ok_def GetParams_def)
  next
    case (rebuild_ends xs c' ys old m')
    then show ?thesis using ok m by (auto simp: nv_ok_def manager_Replace_def)
  next
    case (socks_client sid rtt conn res app)
    then show ?thesis using ok handleSOCKS5Client_mgr [OF m dial socks_client(2)] by (simp add: nv_ok_def)
  next
    case (reported st duration calls app)
    then have "app_mgr app = app_mgr (nc_app s)" by (auto simp: report_throughput_def split: if_splits prod.splits)
    with reported show ?thesis using ok by (simp add: nv_ok_def)
  next
    case (health_check zero r m')
    then show ?thesis using ok m by (simp add: nv_ok_def tryPromote_def)
  qed (use ok in \<open>auto simp: nv_ok_def\<close>)
qed

lemma start_client_ok:
  assumes "draws_ok DefaultRanges d" and "tc_SessionKeyName (cs_Transport s) \<noteq> ''off''"
  shows "nv_ok (fst (connect_tls s)) (connect_http s) cl (max 14336 (tc_MaxChunkSize (cs_Transport s))) (start_client F d cl s)"
proof -
  let ?mx = "max 14336 (tc_MaxChunkSize (cs_Transport s))"
  have "in_ranges DefaultRanges (randomizeAll d DefaultRanges)"
    using in_ranges_randomizeAll [OF _ assms(1)] DefaultRanges_ok by blast
  then have p: "params_ok ?mx (randomizeAll d DefaultRanges)" by (rule random_params_ok) simp
  define r where "r = SetInitialParams (settings_params s)
    \<lparr>rconfig = rotator_defaults \<lparr>ParamRotateInterval = 5 * 60000000000, SessionRotateInterval = 30 * 60000000000,
       EmergencyRotate = True\<rparr>, ranges = DefaultRanges, params = randomizeAll d DefaultRanges, onParamRotate = [],
     onSessionRotate = [], rstopped = False\<rparr>"
  have r: "rot_ok ?mx r"
    using p assms(2) by (auto simp: r_def rot_ok_def params_ok_def SetInitialParams_def settings_params_def Let_def)
  have "rot_ok ?mx (OnSessionRotate cb_rebuild r)" using r by (simp add: rot_ok_def OnSessionRotate_def)
  moreover have "client_ok url tr ?mx (makeXHTTPTransport url tr (GetParams r))" for url tr
    using r by (intro makeXHTTPTransport_ok) (simp add: rot_ok_def GetParams_def)
  ultimately show ?thesis
    by (simp add: start_client_def NewAdaptive_def NewRotator_def Let_def rotator_defaults_def nv_ok_def
        tmanager_New_def rotator_Start_def r_def [unfolded rotator_defaults_def, simplified, symmetric])
qed

lemma nv_run_ok:
  assumes "(nv_step F dial)\<^sup>*\<^sup>* s t" and "\<And>sid t. snd (dial sid t) = t" and "nv_ok url tr cl mx s" and "14336 \<le> mx"
  shows "nv_ok url tr cl mx t"
  using assms(1,3) by (induction rule: rtranclp_induct) (auto intro: nv_step_ok [OF _ assms(2) _ assms(4)])

lemma running_transport:
  assumes "draws_ok DefaultRanges d" and "tc_SessionKeyName (cs_Transport s) \<noteq> ''off''"
    and "\<And>sid t. snd (dial sid t) = t" and "(nv_step F dial)\<^sup>*\<^sup>* (start_client F d cl s) t"
  shows "\<exists>c. transports (app_mgr (nc_app t)) = [(''xhttp'', c)] \<and> nc_auth t = cl \<and>
    client_ok (fst (connect_tls s)) (connect_http s) (max 14336 (tc_MaxChunkSize (cs_Transport s))) c \<and>
    (\<forall>sid. manager_Dial dial sid (app_mgr (nc_app t)) = Some (fst (dial sid c), app_mgr (nc_app t)))"
proof -
  have "nv_ok (fst (connect_tls s)) (connect_http s) cl (max 14336 (tc_MaxChunkSize (cs_Transport s))) t"
    by (rule nv_run_ok [OF assms(4,3) start_client_ok [OF assms(1,2)]]) simp
  then show ?thesis
    using stateless_dialer.Dial_single [OF stateless_dialer.intro, of dial "app_mgr (nc_app t)", OF assms(3)] by (auto simp: nv_ok_def)
qed

section \<open>Properties\<close>

text \<open>
  C21. The running client keeps a usable transport. However rotations, emergency rotations, canary
  rounds, SOCKS5 clients, throughput reports, health checks and the halves of the rebuilds
  interleave, the manager holds exactly one transport, to the configured server with the
  configured kind of HTTP client, whose chunk size is positive and at most that of the
  configuration or 14336, and whose session parameter never hides the offset; every dial
  through the manager is a dial of this transport, and the client's keys never change.
\<close>

theorem rotation_keeps_transport:
  assumes "draws_ok DefaultRanges d" and "tc_SessionKeyName (cs_Transport s) \<noteq> ''off''"
    and "\<And>sid t. snd (dial sid t) = t" and "(nv_step F dial)\<^sup>*\<^sup>* (start_client F d cl s) t"
  shows "\<exists>c. transports (app_mgr (nc_app t)) = [(''xhttp'', c)] \<and> nc_auth t = cl \<and>
    ServerURL c = fst (connect_tls s) \<and> HTTPTransport c = connect_http s \<and>
    0 < MaxChunkSize (ClientConfig c) \<and> MaxChunkSize (ClientConfig c) \<le> max 14336 (tc_MaxChunkSize (cs_Transport s)) \<and>
    SessionKeyName (ClientConfig c) \<noteq> ''off'' \<and>
    (\<forall>sid. manager_Dial dial sid (app_mgr (nc_app t)) = Some (fst (dial sid c), app_mgr (nc_app t)))"
  using running_transport [OF assms] unfolding client_ok_def by blast

text \<open>A state with nothing pending whose rotator has the callback of \<open>runConnect\<close>.\<close>

definition settled :: "'f nv_client \<Rightarrow> bool" where
  "settled s \<longleftrightarrow> nc_calls s = [] \<and> nc_built s = [] \<and> sloop (nc_rot s) \<and>
     onSessionRotate (rot (nc_rot s)) = [cb_rebuild] \<and> ranges (rot (nc_rot s)) = DefaultRanges \<and>
     length (transports (app_mgr (nc_app s))) = 1"

definition rotated :: "draws \<Rightarrow> 'f nv_client \<Rightarrow> 'f nv_client" where
  "rotated d s = s\<lparr>nc_rot := (nc_rot s)\<lparr>rot := (rot (nc_rot s))\<lparr>params := randomizeAll d DefaultRanges\<rparr>\<rparr>\<rparr>"

definition installed :: "client \<Rightarrow> 'f nv_client \<Rightarrow> 'f nv_client" where
  "installed c s = s\<lparr>nc_app := (nc_app s)\<lparr>app_mgr := (app_mgr (nc_app s))\<lparr>transports := [(''xhttp'', c)]\<rparr>\<rparr>\<rparr>"

lemma session_rotation:
  assumes "sloop (nc_rot s)" and "onSessionRotate (rot (nc_rot s)) = [cb_rebuild]"
    and "ranges (rot (nc_rot s)) = DefaultRanges" and "draws_ok DefaultRanges d" and "nc_calls s = []"
  shows "(nv_step F dial)\<^sup>*\<^sup>* s ((rotated d s)\<lparr>nc_built := nc_built s @
    [makeXHTTPTransport (nc_url s) (nc_http s) (randomizeAll d DefaultRanges)]\<rparr>)"
proof -
  let ?p = "randomizeAll d DefaultRanges"
  let ?r = "(rot (nc_rot s))\<lparr>params := ?p\<rparr>"
  have r: "rotateSession d (rot (nc_rot s)) = ([(cb_rebuild, ?p)], ?r)"
    using assms(2,3) by (simp add: rotateSession_def Let_def)
  note a = nv_step.session_timer [where F = F and dial = dial, OF assms(1,4) r]
  let ?s1 = "start_rebuilds [(cb_rebuild, ?p)] (s\<lparr>nc_rot := (nc_rot s)\<lparr>rot := ?r\<rparr>\<rparr>)"
  have "nc_calls ?s1 = [] @ RebuildCb ?p # []" using assms(5) by (simp add: start_rebuilds_def)
  note b = nv_step.rebuild_begins [where F = F and dial = dial, OF this]
  from b have "(nv_step F dial)\<^sup>*\<^sup>* ?s1 ((rotated d s)\<lparr>nc_built := nc_built s @
      [makeXHTTPTransport (nc_url s) (nc_http s) ?p]\<rparr>)"
    using assms(5) by (intro r_into_rtranclp) (cases s, simp add: start_rebuilds_def rotated_def GetParams_def)
  then show ?thesis by (rule converse_rtranclp_into_rtranclp [where r = "nv_step F dial", OF a])
qed

lemma rebuild_installs:
  assumes "nc_built s = xs @ c # ys" and "length (transports (app_mgr (nc_app s))) = 1"
  shows "(nv_step F dial)\<^sup>*\<^sup>* s (installed c (s\<lparr>nc_built := xs @ ys\<rparr>))"
proof -
  obtain e where "transports (app_mgr (nc_app s)) = [e]" using assms(2) by (auto simp: length_Suc_conv)
  then have "manager_Replace 0 (''xhttp'', c) (app_mgr (nc_app s)) =
      (Some e, (app_mgr (nc_app s))\<lparr>transports := [(''xhttp'', c)]\<rparr>)" by (simp add: manager_Replace_def)
  from nv_step.rebuild_ends [where F = F and dial = dial, OF assms(1) this]
  show ?thesis by (auto simp: installed_def)
qed

text \<open>
  A session rotation reaches the transport: once its callback has run, the transport carries
  the parameters of the rotator. But callbacks of two rotations may overtake each other: the
  one that built its transport first may install it last, and then the tunnel keeps the older
  parameters while nothing is left to do.
\<close>

theorem rotation_installs_or_races:
  assumes "settled s" and "draws_ok DefaultRanges d1" and "draws_ok DefaultRanges d2"
  shows "(\<exists>t. (nv_step F dial)\<^sup>*\<^sup>* s t \<and> settled t \<and> params (rot (nc_rot t)) = randomizeAll d1 DefaultRanges \<and>
      transports (app_mgr (nc_app t)) =
        [(''xhttp'', makeXHTTPTransport (nc_url s) (nc_http s) (randomizeAll d1 DefaultRanges))]) \<and>
    (\<exists>t. (nv_step F dial)\<^sup>*\<^sup>* s t \<and> settled t \<and> params (rot (nc_rot t)) = randomizeAll d2 DefaultRanges \<and>
      transports (app_mgr (nc_app t)) =
        [(''xhttp'', makeXHTTPTransport (nc_url s) (nc_http s) (randomizeAll d1 DefaultRanges))])"
proof -
  let ?c = "\<lambda>d. makeXHTTPTransport (nc_url s) (nc_http s) (randomizeAll d DefaultRanges)"
  note S = assms(1) [unfolded settled_def]
  define s1 where "s1 = (rotated d1 s)\<lparr>nc_built := [?c d1]\<rparr>"
  define s2 where "s2 = (rotated d2 s1)\<lparr>nc_built := [?c d1, ?c d2]\<rparr>"
  have a1: "(nv_step F dial)\<^sup>*\<^sup>* s s1" using session_rotation [of s d1 F dial] S assms(2) by (simp add: s1_def)
  have a2: "(nv_step F dial)\<^sup>*\<^sup>* s1 s2"
    using session_rotation [of s1 d2 F dial] S assms(3) by (simp add: s1_def s2_def rotated_def)
  have i1: "(nv_step F dial)\<^sup>*\<^sup>* s1 (installed (?c d1) (s1\<lparr>nc_built := []\<rparr>))"
    using rebuild_installs [of s1 "[]" "?c d1" "[]" F dial] S by (simp add: s1_def rotated_def)
  define s3 where "s3 = installed (?c d2) (s2\<lparr>nc_built := [?c d1]\<rparr>)"
  have i2: "(nv_step F dial)\<^sup>*\<^sup>* s2 s3"
    using rebuild_installs [of s2 "[?c d1]" "?c d2" "[]" F dial] S by (simp add: s1_def s2_def s3_def rotated_def)
  have i3: "(nv_step F dial)\<^sup>*\<^sup>* s3 (installed (?c d1) (s3\<lparr>nc_built := []\<rparr>))"
    using rebuild_installs [of s3 "[]" "?c d1" "[]" F dial] by (simp add: s3_def installed_def)
  note fields = settled_def s1_def s2_def s3_def rotated_def installed_def
  show ?thesis
  proof (intro conjI exI)
    show "(nv_step F dial)\<^sup>*\<^sup>* s (installed (?c d1) (s1\<lparr>nc_built := []\<rparr>))" using a1 i1 by (rule rtranclp_trans)
    show "(nv_step F dial)\<^sup>*\<^sup>* s (installed (?c d1) (s3\<lparr>nc_built := []\<rparr>))"
      using a1 a2 i2 i3 by (blast intro: rtranclp_trans)
  qed (use S in \<open>simp_all add: fields\<close>)
qed

definition demo_settings :: client_settings where
  "demo_settings = \<lparr>cs_Inbound = \<lparr>in_Type = ''socks5'', in_Listen = ''127.0.0.1:10809''\<rparr>, cs_Address = ''example.org:443'',
     cs_Auth = \<lparr>ca_ServerPublicKey = '''', ca_UserPrivateKey = '''', ca_ShortID = ''''\<rparr>,
     cs_Transport = \<lparr>tc_Type = ''xhttp'', tc_PathPrefix = ''/api'', tc_UploadPath = ''/u'', tc_DownloadPath = ''/d'',
       tc_SessionKeyName = ''sid'', tc_MaxChunkSize = 9000, tc_SessionTimeout = 0\<rparr>,
     cs_TLS = \<lparr>ct_Fingerprint = ''chrome'', ct_SNI = '''', ct_SkipVerify = False\<rparr>, cs_Middleware = [],
     cs_AntiThrottle = \<lparr>at_Enabled = True, at_DetectRTTSpikeMs = 500, at_DetectThroughputDrop = 70, at_Response = ''both''\<rparr>,
     cs_API = no_api\<rparr>"

definition demo_nv :: "real nv_client" where
  "demo_nv = start_client real_ops draws0 demo_client demo_settings"

definition no_dial :: "(unit, client, unit, conn) dialer" where
  "no_dial sid c = (Inl (), c)"

lemma demo_settled: "settled demo_nv"
  by (simp add: demo_nv_def settled_def start_client_def NewAdaptive_def NewRotator_def Let_def rotator_defaults_def
      SetInitialParams_def OnSessionRotate_def rotator_Start_def tmanager_New_def)

theorem rotation_keeps_transport_witness:
  "\<exists>(t :: real nv_client) c. settled t \<and> params (rot (nc_rot t)) = randomizeAll draws0 DefaultRanges \<and>
    transports (app_mgr (nc_app t)) = [(''xhttp'', c)] \<and> 0 < MaxChunkSize (ClientConfig c) \<and>
    manager_Dial no_dial () (app_mgr (nc_app t)) = Some (Inl (), app_mgr (nc_app t))"
proof -
  have dr: "draws_ok DefaultRanges draws0" using DefaultRanges_ok by blast
  have st: "\<And>sid t. snd (no_dial sid t) = t" by (simp add: no_dial_def)
  have key: "tc_SessionKeyName (cs_Transport demo_settings) \<noteq> ''off''" by (simp add: demo_settings_def)
  obtain t where t: "(nv_step real_ops no_dial)\<^sup>*\<^sup>* (start_client real_ops draws0 demo_client demo_settings) t" "settled t"
    "params (rot (nc_rot t)) = randomizeAll draws0 DefaultRanges"
    using rotation_installs_or_races [OF demo_settled dr dr, of real_ops no_dial] unfolding demo_nv_def by blast
  from rotation_keeps_transport [OF dr key st t(1)] obtain c where "transports (app_mgr (nc_app t)) = [(''xhttp'', c)]"
    "0 < MaxChunkSize (ClientConfig c)"
    "manager_Dial no_dial () (app_mgr (nc_app t)) = Some (fst (no_dial () c), app_mgr (nc_app t))" by blast
  with t(2,3) show ?thesis by (auto simp: no_dial_def)
qed

end
