(* ===== verification/Serve.thy ===== *)
theory Serve
  imports Cli Connect
begin

text \<open>
  The two programs as they are started: \<open>runServer\<close> (\<open>cmd_server.go\<close>) with its certificate
  (\<open>internal/security/tls.go\<close>), \<open>runConnect\<close> (\<open>cmd_connect.go\<close>), each from its command line and
  files to the running state or the error that ends it, and the loops that accept connections.
\<close>

section \<open>Flags\<close>

text \<open>
  \<open>flag.FlagSet.Parse\<close> for flags with a text: the values and the other arguments. \<open>None\<close> is an
  error or a request for help, which ends the program.
\<close>

fun parse_flags :: "string list \<Rightarrow> string list \<Rightarrow> (string \<times> string) list \<Rightarrow> ((string \<times> string) list \<times> string list) option" where
  "parse_flags names [] vs = Some (vs, [])"
| "parse_flags names (s # args) vs =
     (if length s < 2 \<or> hd s \<noteq> CHR ''-'' then Some (vs, s # args)
      else if s = ''--'' then Some (vs, args)
      else let name = drop (if s ! 1 = CHR ''-'' then 2 else 1) s;
               key = takeWhile (\<lambda>c. c \<noteq> CHR ''='') name; val = dropWhile (\<lambda>c. c \<noteq> CHR ''='') name in
        if name = '''' \<or> hd name = CHR ''-'' \<or> hd name = CHR ''='' \<or> key \<notin> set names then None
        else if val \<noteq> '''' then parse_flags names args (AList.update key (tl val) vs)
        else case args of [] \<Rightarrow> None | v # args \<Rightarrow> parse_flags names args (AList.update key v vs))"

definition flag_value :: "string \<Rightarrow> string \<Rightarrow> string list \<Rightarrow> (string \<times> string list) option" where
  "flag_value name dflt args =
     map_option (\<lambda>(vs, rest). (the (map_of vs name), rest)) (parse_flags [name] args [(name, dflt)])"

lemma no_flags: "args = [] \<or> length (hd args) < 2 \<or> hd (hd args) \<noteq> CHR ''-'' \<Longrightarrow> flag_value name dflt args = Some (dflt, args)"
  by (cases args) (auto simp: flag_value_def)

lemma config_flag: "flag_value ''config'' dflt (''-config'' # path # args) =
    map_option (\<lambda>(vs, rest). (the (map_of vs ''config''), rest)) (parse_flags [''config''] args [(''config'', path)])"
  by (simp add: flag_value_def Let_def)

text \<open>What the commands for users do with their arguments.\<close>

definition adduser_main :: "crypto \<Rightarrow> keygen_draws \<Rightarrow> string \<Rightarrow> unmarshal \<Rightarrow> string list \<Rightarrow> files \<Rightarrow> string option \<times> files" where
  "adduser_main c d env_ip unmarshal args fs =
     (case flag_value ''config'' '''' args of None \<Rightarrow> (None, fs)
      | Some (configPath, rest) \<Rightarrow> adduser_command c d env_ip unmarshal configPath rest fs)"

definition users_main :: "unmarshal \<Rightarrow> string list \<Rightarrow> files \<Rightarrow> (user_row list \<times> (nat \<times> string) list) option" where
  "users_main unmarshal args fs =
     (case flag_value ''config'' ''server.yaml'' args of None \<Rightarrow> None
      | Some (configPath, _) \<Rightarrow> users_command unmarshal configPath fs)"

section \<open>tls.go\<close>

text \<open>\<open>parse\<close> is the reading of the two PEM texts.\<close>

definition LoadX509KeyPair :: "(string \<Rightarrow> string \<Rightarrow> 'c option) \<Rightarrow> files \<Rightarrow> string \<Rightarrow> string \<Rightarrow> 'c option" where
  "LoadX509KeyPair parse fs certFile keyFile =
     (case (read_file fs certFile, read_file fs keyFile) of (Some a, Some b) \<Rightarrow> parse a b | _ \<Rightarrow> None)"

record 'c server_tls =
  Certificates :: "'c list"
  MinVersion :: nat
  NextProtos :: "string list"

definition NewServerTLSConfig :: "(string \<Rightarrow> string \<Rightarrow> 'c option) \<Rightarrow> files \<Rightarrow> string \<Rightarrow> string \<Rightarrow> 'c server_tls option" where
  "NewServerTLSConfig parse fs certFile keyFile =
     (case LoadX509KeyPair parse fs certFile keyFile of None \<Rightarrow> None
      | Some cert \<Rightarrow> Some \<lparr>Certificates = [cert], MinVersion = 0x0303, NextProtos = [''h2'', ''http/1.1'']\<rparr>)"

section \<open>runServer\<close>

datatype server_exit = ServerUsage | ConfigError | KeyError | FallbackError | TLSError

record 'c running_server =
  rs_auth :: server_x25519
  rs_fallback :: fallback_handler
  rs_config :: config
  rs_xhttp :: server
  rs_addr :: string
  rs_read_timeout :: int
  rs_write_timeout :: int
  rs_idle_timeout :: int
  rs_tls :: "'c server_tls option"
  rs_users :: nat

definition start_server :: "(string \<Rightarrow> bool) \<Rightarrow> (string \<Rightarrow> string \<Rightarrow> 'c option) \<Rightarrow> files \<Rightarrow> server_settings
    \<Rightarrow> server_exit + 'c running_server" where
  "start_server parse_ok parse fs s =
     (case server_auth (ss_Auth s) of None \<Rightarrow> Inl KeyError
      | Some serverAuth \<Rightarrow>
         (case server_fallback parse_ok s of None \<Rightarrow> Inl FallbackError
          | Some fb \<Rightarrow>
             let xhttpCfg = server_xhttp_config (ss_Transport s);
                 running = \<lparr>rs_auth = serverAuth, rs_fallback = fb, rs_config = xhttpCfg, rs_xhttp = NewServer xhttpCfg,
                   rs_addr = ss_Listen s, rs_read_timeout = 30 * 1000000000, rs_write_timeout = 0,
                   rs_idle_timeout = 120 * 1000000000, rs_tls = None,
                   rs_users = length (ac_Users (ss_Auth s)) + length (ac_ShortIDs (ss_Auth s))\<rparr>
             in (case server_listen (ss_TLS s) of
                   ListenPlain \<Rightarrow> Inr running
                 | ListenTLS \<Rightarrow>
                    (case NewServerTLSConfig parse fs (tls_CertFile (ss_TLS s)) (tls_KeyFile (ss_TLS s)) of
                       None \<Rightarrow> Inl TLSError
                     | Some tls \<Rightarrow> Inr (running\<lparr>rs_tls := Some tls\<rparr>)))))"

definition runServer :: "(string \<Rightarrow> bool) \<Rightarrow> (string \<Rightarrow> string \<Rightarrow> 'c option) \<Rightarrow> unmarshal \<Rightarrow> files \<Rightarrow> string list
    \<Rightarrow> server_exit + 'c running_server" where
  "runServer parse_ok parse unmarshal fs args =
     (case flag_value ''config'' ''server.yaml'' args of None \<Rightarrow> Inl ServerUsage
      | Some (configPath, _) \<Rightarrow>
         (case config_Load unmarshal fs configPath no_settings of
            (False, _) \<Rightarrow> Inl ConfigError
          | (True, s) \<Rightarrow> start_server parse_ok parse fs s))"

section \<open>runConnect\<close>

datatype connect_exit = ConnectUsage | UriError | ClientConfigError | CredentialError connect_err | ListenError

definition no_client_settings :: client_settings where
  "no_client_settings =
     \<lparr>cs_Inbound = \<lparr>in_Type = '''', in_Listen = ''''\<rparr>, cs_Address = '''',
      cs_Auth = \<lparr>ca_ServerPublicKey = '''', ca_UserPrivateKey = '''', ca_ShortID = ''''\<rparr>,
      cs_Transport = \<lparr>tc_Type = '''', tc_PathPrefix = '''', tc_UploadPath = '''', tc_DownloadPath = '''',
        tc_SessionKeyName = '''', tc_MaxChunkSize = 0, tc_SessionTimeout = 0\<rparr>,
      cs_TLS = \<lparr>ct_Fingerprint = '''', ct_SNI = '''', ct_SkipVerify = False\<rparr>, cs_Middleware = [],
      cs_AntiThrottle = \<lparr>at_Enabled = False, at_DetectRTTSpikeMs = 0, at_DetectThroughputDrop = 0, at_Response = ''''\<rparr>,
      cs_API = no_api\<rparr>"

definition connect_settings :: "(string \<Rightarrow> client_settings \<Rightarrow> bool \<times> client_settings) \<Rightarrow> files \<Rightarrow> connect_source
    \<Rightarrow> connect_exit + client_settings" where
  "connect_settings unmarshal fs source =
     (case source of
        NoSource \<Rightarrow> Inl ConnectUsage
      | FromURI uri \<Rightarrow> (case ParseURI uri of Inl e \<Rightarrow> Inl UriError | Inr (parsed, remark) \<Rightarrow> Inr parsed)
      | FromFile path \<Rightarrow>
         (case config_Load unmarshal fs path no_client_settings of
            (False, _) \<Rightarrow> Inl ClientConfigError | (True, cfg) \<Rightarrow> Inr cfg))"

text \<open>The credentials are checked before the listener is opened; \<open>listens\<close> is the answer of the system.\<close>

definition runConnect :: "crypto \<Rightarrow> bytes \<Rightarrow> 'f float_ops \<Rightarrow> draws \<Rightarrow> (string \<Rightarrow> client_settings \<Rightarrow> bool \<times> client_settings)
    \<Rightarrow> (string \<Rightarrow> bool) \<Rightarrow> files \<Rightarrow> string list \<Rightarrow> connect_exit + 'f nv_client" where
  "runConnect c rnd F d unmarshal listens fs args =
     (case flag_value ''config'' '''' args of None \<Rightarrow> Inl ConnectUsage
      | Some (configPath, rest) \<Rightarrow>
         (case connect_settings unmarshal fs (connect_source_of configPath rest) of Inl e \<Rightarrow> Inl e
          | Inr s \<Rightarrow>
             (case client_auth c rnd (cs_Auth s) of Inl e \<Rightarrow> Inl (CredentialError e)
              | Inr clientAuth \<Rightarrow>
                 if listens (in_Listen (cs_Inbound s)) then Inr (start_client F d clientAuth s) else Inl ListenError)))"

section \<open>Accepting connections\<close>

text \<open>One round of either loop: an error ends it when the context is done, and is skipped otherwise.\<close>

datatype 'c round = Spawn 'c | Leave | Skip

definition accept_round :: "bool \<Rightarrow> 'e + 'c \<Rightarrow> 'c round" where
  "accept_round ctx_done r = (case r of Inr c \<Rightarrow> Spawn c | Inl e \<Rightarrow> if ctx_done then Leave else Skip)"

text \<open>The server's loop over \<open>Accept\<close>; \<open>None\<close> waits for the next connection.\<close>

definition server_round :: "bool \<Rightarrow> server \<Rightarrow> (split_conn round \<times> server) option" where
  "server_round ctx_done sv =
     (case Accept sv of
        (Accepted c, sv) \<Rightarrow> Some (accept_round ctx_done (Inr c :: unit + split_conn), sv)
      | (Canceled, sv) \<Rightarrow> Some (accept_round ctx_done (Inl ()), sv)
      | (AcceptWait, sv) \<Rightarrow> if ctx_done then Some (Leave, sv) else None)"

text \<open>
  A server that has been closed while its context goes on makes the loop spin: every round
  skips the same error, without waiting.
\<close>

lemma closed_server_spins:
  "accept_closed sv \<Longrightarrow> accept_ch sv = [] \<Longrightarrow> server_round False sv = Some (Skip, sv)"
  by (simp add: server_round_def Accept_def accept_round_def)

text \<open>The connections are spawned in the order in which they were put into the channel.\<close>

fun server_loop :: "nat \<Rightarrow> server \<Rightarrow> split_conn list \<times> server" where
  "server_loop 0 sv = ([], sv)"
| "server_loop (Suc n) sv =
     (case server_round False sv of
        Some (Spawn c, sv) \<Rightarrow> (case server_loop n sv of (cs, sv) \<Rightarrow> (c # cs, sv))
      | _ \<Rightarrow> ([], sv))"

lemma server_loop_spawns: "length (accept_ch sv) \<le> n \<Longrightarrow>
    server_loop n sv = (accept_ch sv, sv\<lparr>accept_ch := []\<rparr>)"
proof (induction n arbitrary: sv)
  case (Suc n)
  show ?case
  proof (cases "accept_ch sv")
    case (Cons c cs)
    then show ?thesis using Suc.IH [of "sv\<lparr>accept_ch := cs\<rparr>"] Suc.prems
      by (simp add: server_round_def Accept_def accept_round_def)
  qed (cases sv, simp add: server_round_def Accept_def accept_round_def)
qed (cases sv, simp)

section \<open>Starting on the files of setup\<close>

lemma setup_server_starts:
  assumes files: "server_files dir content es fs" "read_file fs (dir @ ''/cert.pem'') = Some certPEM"
      "read_file fs (dir @ ''/key.pem'') = Some keyPEM"
    and load: "unmarshal content no_settings = (True, s)" "s = setup_settings q (dir @ ''/cert.pem'') (dir @ ''/key.pem'') priv us"
    and auth: "server_auth (ss_Auth s) = Some srv" and dest: "sc_dest q \<noteq> ''''" and pem: "parse certPEM keyPEM = Some pair"
  shows "\<exists>rs. runServer parse_ok parse unmarshal fs [''-config'', dir @ ''/server.yaml''] = Inr rs \<and> rs_auth rs = srv \<and>
    rs_config rs = server_xhttp_config (ss_Transport s) \<and> rs_xhttp rs = NewServer (rs_config rs) \<and>
    rs_addr rs = ''0.0.0.0:'' @ FormatInt (sc_port q) \<and> rs_fallback rs = DefaultSite \<and> rs_users rs = length us \<and>
    map_option Certificates (rs_tls rs) = Some [pair]"
proof -
  have flag: "flag_value ''config'' ''server.yaml'' [''-config'', dir @ ''/server.yaml''] = Some (dir @ ''/server.yaml'', [])"
    by (simp add: config_flag)
  have cfg: "config_Load unmarshal fs (dir @ ''/server.yaml'') no_settings = (True, s)"
    using files(1) load(1) by (simp add: config_Load_def server_files_def)
  have tls: "server_listen (ss_TLS s) = ListenTLS" "server_fallback parse_ok s = Some DefaultSite"
    using dest by (simp_all add: load(2) server_listen_def setup_settings_def server_fallback_def fallback_New_def)
  have cert: "NewServerTLSConfig parse fs (tls_CertFile (ss_TLS s)) (tls_KeyFile (ss_TLS s)) =
      Some \<lparr>Certificates = [pair], MinVersion = 0x0303, NextProtos = [''h2'', ''http/1.1'']\<rparr>"
    using files(2,3) pem by (simp add: NewServerTLSConfig_def LoadX509KeyPair_def load(2) setup_settings_def)
  have rest: "ss_Listen s = ''0.0.0.0:'' @ FormatInt (sc_port q)" "ac_Users (ss_Auth s) = us" "ac_ShortIDs (ss_Auth s) = []"
    by (simp_all add: load(2) setup_settings_def)
  show ?thesis unfolding runServer_def flag option.case prod.case cfg bool.case start_server_def auth tls cert Let_def
    by (simp add: rest)
qed

lemma connect_by_link:
  assumes "is_link link" and "ParseURI link = Inr (cfg, rm)" and "client_auth c rnd (cs_Auth cfg) = Inr cl"
    and "listens (in_Listen (cs_Inbound cfg))"
  shows "runConnect c rnd F d unmarshal listens fs [link] = Inr (start_client F d cl cfg)"
proof -
  have "hd link \<noteq> CHR ''-''" using assms(1) by (cases link) (auto simp: is_link_def)
  then have "flag_value ''config'' '''' [link] = Some ('''', [link])" by (intro no_flags) simp
  moreover have "link \<noteq> ''''" using assms(1) by (auto simp: is_link_def)
  ultimately show ?thesis using assms by (simp add: runConnect_def connect_source_of_def connect_settings_def)
qed

lemma new_link_is_link: "is_link (new_link c q spub a)"
  by (simp add: is_link_def new_link_def GenerateURI_def Let_def)

lemma start_client_auth: "nc_auth (start_client F d cl s) = cl"
  by (simp add: start_client_def Let_def split: prod.split)

end
