(* ===== verification/Quictun.thy ===== *)
theory Quictun
  imports Interfaces Strconv
begin

unbundle bit_operations_syntax

text \<open>
  Model of \<open>internal/transport/quictun\<close>: the packet obfuscation (\<open>obfuscate.go\<close>), with the
  BLAKE2b hash as a parameter, the port hopping (\<open>hopping.go\<close>), with the random draws and
  the resolver as parameters. The transport around the QUIC library is in \<open>Backends\<close>.
\<close>

section \<open>obfuscate.go\<close>

definition saltSize :: nat where
  "saltSize = 8"

definition derivePacketKey :: "(bytes \<Rightarrow> bytes) \<Rightarrow> bytes \<Rightarrow> bytes \<Rightarrow> bytes" where
  "derivePacketKey hash psk salt = hash (psk @ salt)"

definition xorBytes :: "bytes \<Rightarrow> bytes \<Rightarrow> bytes" where
  "xorBytes data key = map (\<lambda>i. data ! i XOR key ! (i mod length key)) [0..<length data]"

text \<open>\<open>WriteTo\<close>: the packet handed to the inner connection, for the salt drawn.\<close>

definition obfs_WriteTo :: "(bytes \<Rightarrow> bytes) \<Rightarrow> bytes \<Rightarrow> bytes \<Rightarrow> bytes \<Rightarrow> bytes" where
  "obfs_WriteTo hash psk salt p = salt @ xorBytes p (derivePacketKey hash psk salt)"

text \<open>
  \<open>ReadFrom\<close> with a buffer of \<open>n\<close> bytes: what it gives for the next datagram. The inner
  read cuts the datagram to the buffer it is given. A short datagram gives no bytes and no
  error.
\<close>

definition obfs_ReadFrom :: "(bytes \<Rightarrow> bytes) \<Rightarrow> bytes \<Rightarrow> nat \<Rightarrow> bytes \<Rightarrow> bytes" where
  "obfs_ReadFrom hash psk n datagram =
     (let buf = take (n + saltSize) datagram in
      if length buf < saltSize then []
      else xorBytes (drop saltSize buf) (derivePacketKey hash psk (take saltSize buf)))"

lemma length_xorBytes [simp]: "length (xorBytes d k) = length d"
  by (simp add: xorBytes_def)

lemma nth_xorBytes [simp]: "i < length d \<Longrightarrow> xorBytes d k ! i = d ! i XOR k ! (i mod length k)"
  by (simp add: xorBytes_def)

lemma xorBytes_twice: "xorBytes (xorBytes d k) k = d"
  by (rule nth_equalityI) (simp_all add: xor.assoc)

lemma take_xorBytes: "take n (xorBytes d k) = xorBytes (take n d) k"
  by (rule nth_equalityI) simp_all

text \<open>A datagram arrives as it was sent, cut to the reader's buffer.\<close>

theorem obfuscation_roundtrip:
  assumes "length salt = saltSize"
  shows "obfs_ReadFrom hash psk n (obfs_WriteTo hash psk salt p) = take n p"
proof -
  let ?k = "derivePacketKey hash psk salt"
  have "take (n + saltSize) (salt @ xorBytes p ?k) = salt @ xorBytes (take n p) ?k"
    using assms by (simp add: take_xorBytes)
  then show ?thesis
    using assms by (simp add: obfs_ReadFrom_def obfs_WriteTo_def Let_def xorBytes_twice)
qed

theorem obfuscation_roundtrip_witness:
  "obfs_ReadFrom id [1, 2] 2 (obfs_WriteTo id [1, 2] [3, 4, 5, 6, 7, 8, 9, 10] [11, 12, 13]) = [11, 12]"
  using obfuscation_roundtrip [of "[3, 4, 5, 6, 7, 8, 9, 10]" id "[1, 2]" 2 "[11, 12, 13]"]
  by (simp add: saltSize_def)

text \<open>
  The key stream of a packet repeats with the length of the hash: two payload bytes that
  far apart differ on the wire exactly as they do in clear, whatever the key and the salt.
\<close>

theorem key_stream_repeats:
  assumes "\<forall>x. length (hash x) = 32" and "length salt = saltSize" and "i + 32 < length p"
  shows "obfs_WriteTo hash psk salt p ! (saltSize + i) XOR obfs_WriteTo hash psk salt p ! (saltSize + i + 32)
    = p ! i XOR p ! (i + 32)"
proof -
  let ?k = "derivePacketKey hash psk salt"
  have k: "length ?k = 32" using assms(1) by (simp add: derivePacketKey_def)
  have w: "obfs_WriteTo hash psk salt p ! (saltSize + j) = p ! j XOR ?k ! (j mod 32)" if "j < length p" for j
    using that assms(2) k by (simp add: obfs_WriteTo_def nth_append)
  have "(i + 32) mod 32 = i mod 32" by simp
  then show ?thesis
    using w [of i] w [of "i + 32"] assms(3) by (simp add: add.assoc xor.assoc xor.left_commute xor.commute)
qed

theorem key_stream_repeats_witness:
  "let w = obfs_WriteTo (\<lambda>x. replicate 32 7) [1] [0, 0, 0, 0, 0, 0, 0, 0] (replicate 33 9)
   in w ! 8 XOR w ! 40 = 0"
  using key_stream_repeats [where hash = "\<lambda>x. replicate 32 7" and psk = "[1]" and i = 0
      and salt = "[0, 0, 0, 0, 0, 0, 0, 0]" and p = "replicate 33 9"]
  by (simp add: saltSize_def Let_def)

section \<open>hopping.go\<close>

record hopping_config =
  PortMin :: int
  PortMax :: int
  HopInterval :: int

definition hopping_defaults :: "hopping_config \<Rightarrow> hopping_config" where
  "hopping_defaults c =
     (let lo = (if PortMin c \<le> 0 then 30000 else PortMin c) in
      \<lparr>PortMin = lo, PortMax = (if PortMax c \<le> lo then wrap64 (lo + 10000) else PortMax c),
       HopInterval = (if HopInterval c \<le> 0 then 30 * 1000000000 else HopInterval c)\<rparr>)"

definition randomPort :: "int \<Rightarrow> int \<Rightarrow> int \<Rightarrow> int" where
  "randomPort lo hi d = (if wrap64 (hi - lo) \<le> 0 then lo else wrap64 (lo + d))"

text \<open>The destination of a port, as \<open>ResolveUDPAddr\<close> gives it for the host.\<close>

record 'a hopping =
  hconfig :: hopping_config
  baseHost :: string
  currentPort :: "32 word"
  destAddr :: "'a option"
  hstopped :: bool

definition updateDestAddr :: "(string \<Rightarrow> 'a option) \<Rightarrow> int \<Rightarrow> 'a hopping \<Rightarrow> 'a hopping" where
  "updateDestAddr resolve port h =
     (case resolve (baseHost h @ '':'' @ FormatInt port) of None \<Rightarrow> h | Some a \<Rightarrow> h\<lparr>destAddr := Some a\<rparr>)"

definition NewHoppingPacketConn :: "(string \<Rightarrow> 'a option) \<Rightarrow> string \<Rightarrow> hopping_config \<Rightarrow> int \<Rightarrow> 'a hopping" where
  "NewHoppingPacketConn resolve host cfg d =
     (let cfg = hopping_defaults cfg; port = randomPort (PortMin cfg) (PortMax cfg) d in
      updateDestAddr resolve port \<lparr>hconfig = cfg, baseHost = host, currentPort = word_of_int port,
        destAddr = None, hstopped = False\<rparr>)"

definition CurrentPort :: "'a hopping \<Rightarrow> int" where
  "CurrentPort h = sint (currentPort h)"

definition hop_ReadFrom :: "(nat \<Rightarrow> 'r) \<Rightarrow> nat \<Rightarrow> 'r" where
  "hop_ReadFrom inner n = inner n"

text \<open>\<open>WriteTo\<close>: where the inner connection sends; the address given is ignored.\<close>

definition hop_WriteTo :: "'a hopping \<Rightarrow> bytes \<Rightarrow> 'a \<Rightarrow> bytes \<times> 'a option" where
  "hop_WriteTo h p addr = (p, destAddr h)"

text \<open>\<open>Close\<close> twice closes a closed channel and panics.\<close>

definition hop_Close :: "'a hopping \<Rightarrow> 'a hopping option" where
  "hop_Close h = (if hstopped h then None else Some (h\<lparr>hstopped := True\<rparr>))"

text \<open>One tick of \<open>hopLoop\<close>.\<close>

definition hop_tick :: "(string \<Rightarrow> 'a option) \<Rightarrow> int \<Rightarrow> 'a hopping \<Rightarrow> 'a hopping" where
  "hop_tick resolve d h =
     (let port = randomPort (PortMin (hconfig h)) (PortMax (hconfig h)) d in
      updateDestAddr resolve port (h\<lparr>currentPort := word_of_int port\<rparr>))"

definition port_range :: "int \<Rightarrow> int \<Rightarrow> bool" where
  "port_range lo hi \<longleftrightarrow> - (2 ^ 31) \<le> lo \<and> lo < 2 ^ 31 \<and> - (2 ^ 31) \<le> hi \<and> hi < 2 ^ 31"

interpretation hop: ranged_choice randomPort port_range
proof
  fix lo hi d :: int
  show "port_range lo hi \<Longrightarrow> lo < hi \<Longrightarrow> 0 \<le> d \<Longrightarrow> d \<le> hi - lo \<Longrightarrow> randomPort lo hi d = lo + d"
    by (simp add: randomPort_def port_range_def)
  show "port_range lo hi \<Longrightarrow> hi \<le> lo \<Longrightarrow> randomPort lo hi d = lo"
    by (simp add: randomPort_def port_range_def wrap64_id)
qed


text \<open>A run of the hop loop, with the draws of its ticks.\<close>

definition hop_run :: "(string \<Rightarrow> 'a option) \<Rightarrow> int list \<Rightarrow> 'a hopping \<Rightarrow> 'a hopping" where
  "hop_run resolve ds h = fold (hop_tick resolve) ds h"

lemma updateDestAddr_same [simp]:
  "hconfig (updateDestAddr resolve p h) = hconfig h" "baseHost (updateDestAddr resolve p h) = baseHost h"
  "currentPort (updateDestAddr resolve p h) = currentPort h"
  by (simp_all add: updateDestAddr_def split: option.split)

definition port_ok :: "(string \<Rightarrow> 'a option) \<Rightarrow> 'a hopping \<Rightarrow> bool" where
  "port_ok resolve h \<longleftrightarrow>
     PortMin (hconfig h) \<le> CurrentPort h \<and> CurrentPort h \<le> PortMax (hconfig h) \<and>
     (resolve (baseHost h @ '':'' @ FormatInt (CurrentPort h)) \<noteq> None \<longrightarrow>
        destAddr h = resolve (baseHost h @ '':'' @ FormatInt (CurrentPort h)))"

definition hopping_ok :: "hopping_config \<Rightarrow> bool" where
  "hopping_ok c \<longleftrightarrow> PortMin c < PortMax c \<and> port_range (PortMin c) (PortMax c)"

lemma updateDestAddr_ok:
  assumes "hopping_ok (hconfig h)" and "hop.draw_ok (PortMin (hconfig h)) (PortMax (hconfig h)) d"
    and p: "p = randomPort (PortMin (hconfig h)) (PortMax (hconfig h)) d" and "currentPort h = word_of_int p"
  shows "port_ok resolve (updateDestAddr resolve p h)"
proof -
  have r: "port_range (PortMin (hconfig h)) (PortMax (hconfig h))" and lt: "PortMin (hconfig h) < PortMax (hconfig h)"
    using assms(1) by (simp_all add: hopping_ok_def)
  have b: "PortMin (hconfig h) \<le> p" "p \<le> PortMax (hconfig h)"
    using hop.in_range [OF r assms(2)] lt by (auto simp: p)
  then have "sint (word_of_int p :: 32 word) = p"
    using r by (intro sint_i32) (simp_all add: port_range_def)
  with assms(4) have c: "CurrentPort h = p" by (simp add: CurrentPort_def)
  then have "CurrentPort (updateDestAddr resolve p h) = p" by (simp add: CurrentPort_def)
  moreover have "resolve (baseHost h @ '':'' @ FormatInt p) \<noteq> None \<longrightarrow>
      destAddr (updateDestAddr resolve p h) = resolve (baseHost h @ '':'' @ FormatInt p)"
    by (simp add: updateDestAddr_def split: option.split)
  ultimately show ?thesis using b by (simp add: port_ok_def)
qed

lemma hop_tick_ok:
  assumes "hopping_ok (hconfig h)" and "hop.draw_ok (PortMin (hconfig h)) (PortMax (hconfig h)) d"
  shows "port_ok resolve (hop_tick resolve d h) \<and> hconfig (hop_tick resolve d h) = hconfig h \<and>
    baseHost (hop_tick resolve d h) = baseHost h"
  using updateDestAddr_ok [where h = "h\<lparr>currentPort := word_of_int (randomPort (PortMin (hconfig h)) (PortMax (hconfig h)) d)\<rparr>"]
    assms by (simp add: hop_tick_def Let_def)

text \<open>
  Whatever the draws, after any number of hops the current port lies in the configured
  range, and packets are sent to its address whenever this address resolves.
\<close>

theorem hops_stay_in_range:
  fixes resolve :: "string \<Rightarrow> 'a option" and host :: string and cfg :: hopping_config
    and ds :: "int list" and d0 :: int
  assumes "hopping_ok (hopping_defaults cfg)"
    and "hop.draw_ok (PortMin (hopping_defaults cfg)) (PortMax (hopping_defaults cfg)) d0"
    and "\<forall>d \<in> set ds. hop.draw_ok (PortMin (hopping_defaults cfg)) (PortMax (hopping_defaults cfg)) d"
  defines "h \<equiv> hop_run resolve ds (NewHoppingPacketConn resolve host cfg d0)"
  shows "PortMin (hopping_defaults cfg) \<le> CurrentPort h \<and> CurrentPort h \<le> PortMax (hopping_defaults cfg) \<and>
    (resolve (host @ '':'' @ FormatInt (CurrentPort h)) \<noteq> None \<longrightarrow>
       snd (hop_WriteTo h p a) = resolve (host @ '':'' @ FormatInt (CurrentPort h)))"
proof -
  have "port_ok resolve (hop_run resolve ds h') \<and> hconfig (hop_run resolve ds h') = hopping_defaults cfg \<and>
      baseHost (hop_run resolve ds h') = host"
    if "port_ok resolve h'" "hconfig h' = hopping_defaults cfg" "baseHost h' = host" for h'
    using assms(3) that
  proof (induction ds arbitrary: h')
    case Nil
    then show ?case by (simp add: hop_run_def)
  next
    case (Cons d ds)
    with hop_tick_ok [of h' d resolve] assms(1) show ?case by (simp add: hop_run_def)
  qed
  moreover have "port_ok resolve (NewHoppingPacketConn resolve host cfg d0)"
    unfolding NewHoppingPacketConn_def Let_def using assms(1,2) by (intro updateDestAddr_ok) simp_all
  moreover have "hconfig (NewHoppingPacketConn resolve host cfg d0) = hopping_defaults cfg"
    "baseHost (NewHoppingPacketConn resolve host cfg d0) = host"
    by (simp_all add: NewHoppingPacketConn_def Let_def)
  ultimately have "port_ok resolve h" "hconfig h = hopping_defaults cfg" "baseHost h = host" unfolding h_def by blast+
  then show ?thesis by (simp add: port_ok_def hop_WriteTo_def)
qed

theorem hops_stay_in_range_witness:
  "30000 \<le> CurrentPort (hop_run Some [5, 10000] (NewHoppingPacketConn Some ''h'' \<lparr>PortMin = 0, PortMax = 0, HopInterval = 0\<rparr> 17))"
  using hops_stay_in_range [of "\<lparr>PortMin = 0, PortMax = 0, HopInterval = 0\<rparr>" 17 "[5, 10000]" Some "''h''" "[]" "''h''"]
  by (simp add: hopping_defaults_def hopping_ok_def port_range_def hop.draw_ok_def Let_def)

text \<open>
  The default of \<open>PortMax\<close> is not cut at the last port: with a \<open>PortMin\<close> above 55535 and no
  \<open>PortMax\<close> there are draws that choose a port above 65535.
\<close>

theorem hop_port_overflow:
  assumes "55535 < PortMin cfg" and "PortMin cfg < 65536" and "PortMax cfg \<le> 0"
  shows "\<exists>d. hop.draw_ok (PortMin (hopping_defaults cfg)) (PortMax (hopping_defaults cfg)) d \<and>
    65535 < CurrentPort (NewHoppingPacketConn resolve host cfg d)"
proof -
  let ?c = "hopping_defaults cfg"
  have c: "PortMin ?c = PortMin cfg" "PortMax ?c = PortMin cfg + 10000"
    using assms by (simp_all add: hopping_defaults_def Let_def)
  then have r: "port_range (PortMin ?c) (PortMax ?c)" using assms by (simp add: port_range_def)
  obtain d where d: "hop.draw_ok (PortMin ?c) (PortMax ?c) d" "randomPort (PortMin ?c) (PortMax ?c) d = PortMax ?c"
    using hop.reaches [OF r, of "PortMax ?c"] c by auto
  have "sint (word_of_int (PortMax ?c) :: 32 word) = PortMax ?c"
    using c assms by (intro sint_i32) simp_all
  then have "CurrentPort (NewHoppingPacketConn resolve host cfg d) = PortMax ?c"
    by (simp add: NewHoppingPacketConn_def Let_def CurrentPort_def d(2))
  with d(1) c assms show ?thesis by (intro exI [of _ d]) simp
qed

theorem hop_port_overflow_witness:
  "\<exists>d. 65535 < CurrentPort (NewHoppingPacketConn Some ''h'' \<lparr>PortMin = 60000, PortMax = 0, HopInterval = 0\<rparr> d)"
  using hop_port_overflow [of "\<lparr>PortMin = 60000, PortMax = 0, HopInterval = 0\<rparr>" Some "''h''"] by auto

end
