(* ===== verification/Backends.thy ===== *)
theory Backends
  imports Quictun Transport
begin

text \<open>
  Model of the alternative transports behind the interface \<open>ClientTransport\<close>: QUIC
  (\<open>internal/transport/quictun/transport.go\<close>), whose library gives the answers of its calls, and
  plain TCP (\<open>internal/transport/raw\<close>). The server of the QUIC transport is a step relation:
  its accept loop, one handler for every connection, \<open>Accept\<close> and \<open>Close\<close> interleave.
\<close>

section \<open>quictun: the client\<close>

text \<open>What a dial has open at its end: the socket, the QUIC connection, the stream.\<close>

datatype quic_resource = UdpSocket | QuicConn | QuicStream

record quic_tls =
  insecure :: bool
  protos :: "string list"

definition client_tls :: "quic_tls option \<Rightarrow> quic_tls" where
  "client_tls cfg = (case cfg of Some t \<Rightarrow> t | None \<Rightarrow> \<lparr>insecure = True, protos = [''nightveil'']\<rparr>)"

text \<open>The answers of the resolver, of the operating system and of the QUIC library to one dial.\<close>

record quic_answers =
  addr_resolves :: bool
  udp_listens :: bool
  quic_dials :: bool
  opens_stream :: bool

datatype quic_err = Resolve_failed | Listen_failed | Dial_failed | Stream_failed

record quic_client =
  ServerAddr :: string
  PSK :: bytes
  TLSConfig :: "quic_tls option"

record quic_stream_conn =
  obfuscated :: bool
  owns_pconn :: bool

definition quic_Dial :: "quic_client \<Rightarrow> quic_answers \<Rightarrow> (quic_err + quic_stream_conn) \<times> quic_resource list" where
  "quic_Dial c os =
     (if \<not> addr_resolves os then (Inl Resolve_failed, [])
      else if \<not> udp_listens os then (Inl Listen_failed, [])
      else let opened = [UdpSocket] in
        if \<not> quic_dials os then (Inl Dial_failed, removeAll UdpSocket opened)
        else let opened = QuicConn # opened in
          if \<not> opens_stream os then (Inl Stream_failed, removeAll UdpSocket (removeAll QuicConn opened))
          else (Inr \<lparr>obfuscated = (0 < length (PSK c)), owns_pconn = True\<rparr>, QuicStream # opened))"

text \<open>\<open>Close\<close> of a connection: the stream, and the socket if the connection owns it.\<close>

definition quic_conn_Close :: "quic_stream_conn \<Rightarrow> quic_resource list \<Rightarrow> quic_resource list" where
  "quic_conn_Close c opened =
     (let opened = removeAll QuicStream opened in
      if owns_pconn c then removeAll UdpSocket opened else opened)"

definition quic_dialer :: "('id \<Rightarrow> quic_answers) \<Rightarrow> ('id, quic_client, quic_err, quic_stream_conn) dialer" where
  "quic_dialer os sid c = (fst (quic_Dial c (os sid)), c)"

text \<open>
  A dial that fails leaves nothing open; one that succeeds leaves the QUIC connection open even
  after \<open>Close\<close>, which releases the socket under it but never closes it.
\<close>

theorem quic_dial_resources:
  "(\<forall>e opened. quic_Dial c os = (Inl e, opened) \<longrightarrow> opened = []) \<and>
   (\<forall>conn opened. quic_Dial c os = (Inr conn, opened) \<longrightarrow>
      obfuscated conn = (PSK c \<noteq> []) \<and> set opened = {UdpSocket, QuicConn, QuicStream} \<and>
      quic_conn_Close conn opened = [QuicConn])"
  by (auto simp: quic_Dial_def quic_conn_Close_def Let_def)

theorem quic_dial_resources_witness:
  "quic_conn_Close \<lparr>obfuscated = True, owns_pconn = True\<rparr> [QuicStream, QuicConn, UdpSocket] = [QuicConn]"
  using quic_dial_resources [of "\<lparr>ServerAddr = ''h:1'', PSK = [1], TLSConfig = None\<rparr>"
      "\<lparr>addr_resolves = True, udp_listens = True, quic_dials = True, opens_stream = True\<rparr>"]
  by (simp add: quic_Dial_def)

section \<open>quictun: the server\<close>

text \<open>A stream is named by the number of its connection and its own number there.\<close>

type_synonym stream_id = "nat \<times> nat"

text \<open>
  A handler waits for its next stream (it has forwarded so many), holds a stream that it sends
  to the accept channel, or has returned. \<open>given_out\<close> records what \<open>Accept\<close> has given out.
\<close>

datatype handler = Waiting_for nat | Sending nat | Ended nat

fun forwarded :: "handler \<Rightarrow> nat" where
  "forwarded (Waiting_for k) = k"
| "forwarded (Sending k) = k"
| "forwarded (Ended k) = k"

record quic_server =
  q_obfuscated :: bool
  listener_open :: bool
  pconn_open :: bool
  accepting :: bool
  handlers :: "handler list"
  acceptCh :: "stream_id list"
  ch_closed :: bool
  panicked :: bool
  given_out :: "stream_id list"

datatype quic_server_err = No_address | No_socket | No_listener

text \<open>\<open>NewServer\<close>; the second component says whether a socket is left open.\<close>

definition quic_NewServer :: "string \<Rightarrow> bool \<Rightarrow> bool \<Rightarrow> bool \<Rightarrow> (quic_server_err + quic_server) \<times> bool" where
  "quic_NewServer psk resolves_addr listens_udp listens_quic =
     (if \<not> resolves_addr then (Inl No_address, False)
      else if \<not> listens_udp then (Inl No_socket, False)
      else if \<not> listens_quic then (Inl No_listener, False)
      else (Inr \<lparr>q_obfuscated = (psk \<noteq> ''''), listener_open = True, pconn_open = True, accepting = True,
              handlers = [], acceptCh = [], ch_closed = False, panicked = False, given_out = []\<rparr>, True))"

datatype quic_accepted = Conn stream_id | Canceled | Ctx_done | Waits

definition quic_Accept :: "bool \<Rightarrow> quic_server \<Rightarrow> quic_accepted \<times> quic_server" where
  "quic_Accept ctx_done s =
     (case acceptCh s of
        c # cs \<Rightarrow> (Conn c, s\<lparr>acceptCh := cs, given_out := given_out s @ [c]\<rparr>)
      | [] \<Rightarrow> (if ch_closed s then Canceled else if ctx_done then Ctx_done else Waits, s))"

definition quic_Close :: "quic_server \<Rightarrow> quic_server" where
  "quic_Close s = s\<lparr>listener_open := False, pconn_open := False\<rparr>"

text \<open>The send of a handler: it panics on the closed channel and waits for room.\<close>

definition forward :: "nat \<Rightarrow> nat \<Rightarrow> quic_server \<Rightarrow> quic_server" where
  "forward i k s =
     (if ch_closed s then s\<lparr>panicked := True\<rparr>
      else if 64 \<le> length (acceptCh s) then s
      else s\<lparr>acceptCh := acceptCh s @ [(i, k)], handlers := (handlers s)[i := Waiting_for (Suc k)]\<rparr>)"

text \<open>
  The listener may fail at any time, and it does when it has been closed; a stream may arrive
  on every connection that is still up. A panic ends the process.
\<close>

inductive quic_step :: "quic_server \<Rightarrow> quic_server \<Rightarrow> bool" where
  connection: "\<not> panicked s \<Longrightarrow> accepting s \<Longrightarrow> listener_open s \<Longrightarrow> quic_step s (s\<lparr>handlers := handlers s @ [Waiting_for 0]\<rparr>)"
| listener_fails: "\<not> panicked s \<Longrightarrow> accepting s \<Longrightarrow> quic_step s (s\<lparr>ch_closed := True, accepting := False\<rparr>)"
| stream: "\<not> panicked s \<Longrightarrow> i < length (handlers s) \<Longrightarrow> handlers s ! i = Waiting_for k \<Longrightarrow>
    quic_step s (s\<lparr>handlers := (handlers s)[i := Sending k]\<rparr>)"
| no_stream: "\<not> panicked s \<Longrightarrow> i < length (handlers s) \<Longrightarrow> handlers s ! i = Waiting_for k \<Longrightarrow>
    quic_step s (s\<lparr>handlers := (handlers s)[i := Ended k]\<rparr>)"
| sends: "\<not> panicked s \<Longrightarrow> i < length (handlers s) \<Longrightarrow> handlers s ! i = Sending k \<Longrightarrow> quic_step s (forward i k s)"
| takes: "\<not> panicked s \<Longrightarrow> quic_Accept ctx_done s = (a, s') \<Longrightarrow> quic_step s s'"
| closes: "\<not> panicked s \<Longrightarrow> quic_step s (quic_Close s)"

definition quic_started :: "quic_server \<Rightarrow> bool" where
  "quic_started s \<longleftrightarrow> (\<exists>psk. quic_NewServer psk True True True = (Inr s, True))"

lemma distinct_of_groups: "(\<And>i. distinct (filter (\<lambda>x. f x = i) xs)) \<Longrightarrow> distinct xs"
proof (induction xs)
  case (Cons a xs)
  have "distinct (filter (\<lambda>x. f x = i) xs)" for i using Cons.prems [of i] by (simp split: if_splits)
  moreover have "a \<notin> set xs" using Cons.prems [of "f a"] by simp
  ultimately show ?case using Cons.IH by simp
qed simp

text \<open>
  The channel and what \<open>Accept\<close> has given out hold, for every connection, the streams that its
  handler has forwarded, in order.
\<close>

definition streams_of :: "nat \<Rightarrow> stream_id list \<Rightarrow> stream_id list" where
  "streams_of i ss = filter (\<lambda>x. fst x = i) ss"

definition quic_inv :: "quic_server \<Rightarrow> bool" where
  "quic_inv s \<longleftrightarrow> length (acceptCh s) \<le> 64 \<and> (accepting s \<longleftrightarrow> \<not> ch_closed s) \<and>
     (\<forall>x \<in> set (given_out s @ acceptCh s). fst x < length (handlers s)) \<and>
     (\<forall>i < length (handlers s). streams_of i (given_out s @ acceptCh s) = map (Pair i) [0..<forwarded (handlers s ! i)])"

lemma quic_inv_count:
  assumes "quic_inv s" and "i < length (handlers s)" and "forwarded h = forwarded (handlers s ! i)"
  shows "quic_inv (s\<lparr>handlers := (handlers s)[i := h]\<rparr>)"
  using assms by (auto simp: quic_inv_def nth_list_update)

lemma quic_inv_connection:
  assumes "quic_inv s"
  shows "quic_inv (s\<lparr>handlers := handlers s @ [Waiting_for 0]\<rparr>)"
proof -
  have "streams_of (length (handlers s)) (given_out s @ acceptCh s) = []"
    using assms by (force simp: quic_inv_def streams_of_def filter_empty_conv)
  then show ?thesis using assms by (auto simp: quic_inv_def nth_append less_Suc_eq)
qed

lemma quic_inv_forward:
  assumes "quic_inv s" and "i < length (handlers s)" and "handlers s ! i = Sending k"
  shows "quic_inv (forward i k s)"
  using assms by (auto simp: quic_inv_def forward_def nth_list_update streams_of_def)

lemma quic_step_inv: "quic_step s t \<Longrightarrow> quic_inv s \<Longrightarrow> quic_inv t"
proof (induction rule: quic_step.induct)
  case (connection s)
  then show ?case by (intro quic_inv_connection)
next
  case (stream s i k)
  then show ?case by (intro quic_inv_count) simp_all
next
  case (no_stream s i k)
  then show ?case by (intro quic_inv_count) simp_all
next
  case (sends s i k)
  then show ?case by (intro quic_inv_forward)
next
  case (takes s d a s')
  then have "given_out s' @ acceptCh s' = given_out s @ acceptCh s" "handlers s' = handlers s"
    "accepting s' = accepting s" "ch_closed s' = ch_closed s" "length (acceptCh s') \<le> length (acceptCh s)"
    by (auto simp: quic_Accept_def split: list.splits)
  then show ?case using takes.prems unfolding quic_inv_def by simp
qed (auto simp: quic_inv_def quic_Close_def)

lemma quic_run_inv:
  assumes "quic_started s" and "quic_step\<^sup>*\<^sup>* s t"
  shows "quic_inv t"
proof -
  have "quic_inv s" using assms(1) by (auto simp: quic_started_def quic_NewServer_def quic_inv_def split: if_splits)
  with assms(2) show ?thesis by (induction rule: rtranclp_induct) (auto intro: quic_step_inv)
qed



text \<open>
  Closing the server can kill it: \<open>acceptLoop\<close> answers the closed listener by closing the accept
  channel, to which the handlers of the connections that are still up go on sending. Only a
  send on the closed channel panics.
\<close>

theorem quic_close_panics:
  assumes "\<not> panicked s" and "accepting s" and "i < length (handlers s)" and "handlers s ! i = Waiting_for k"
  shows "\<exists>t. quic_step\<^sup>*\<^sup>* (quic_Close s) t \<and> panicked t"
proof -
  let ?a = "quic_Close s"
  let ?b = "?a\<lparr>ch_closed := True, accepting := False\<rparr>"
  let ?c = "?b\<lparr>handlers := (handlers ?b)[i := Sending k]\<rparr>"
  have "quic_step ?a ?b" "quic_step ?b ?c" "quic_step ?c (forward i k ?c)"
    using listener_fails [of ?a] stream [of ?b i k] sends [of ?c i k] assms by (simp_all add: quic_Close_def)
  then have "quic_step\<^sup>*\<^sup>* ?a (forward i k ?c)" by (meson rtranclp.rtrancl_refl rtranclp.rtrancl_into_rtrancl)
  moreover have "panicked (forward i k ?c)" by (simp add: forward_def)
  ultimately show ?thesis by blast
qed

theorem quic_close_panics_witness:
  "\<exists>t. quic_step\<^sup>*\<^sup>* (quic_Close \<lparr>q_obfuscated = True, listener_open = True, pconn_open = True, accepting = True,
      handlers = [Waiting_for 3], acceptCh = [], ch_closed = False, panicked = False, given_out = [(0, 0), (0, 1), (0, 2)]\<rparr>) t \<and> panicked t"
  by (rule quic_close_panics [of _ 0 3]) simp_all

section \<open>raw\<close>

record raw_client =
  RawServerAddr :: string

text \<open>The network's dial, listen and accept are arguments; an error is its text.\<close>

definition raw_Dial :: "(string \<Rightarrow> string + 'c) \<Rightarrow> raw_client \<Rightarrow> string + 'c" where
  "raw_Dial net c =
     (case net (RawServerAddr c) of
        Inl e \<Rightarrow> Inl (''raw dial '' @ RawServerAddr c @ '': '' @ e)
      | Inr conn \<Rightarrow> Inr conn)"

definition raw_dialer :: "('id \<Rightarrow> string \<Rightarrow> string + 'c) \<Rightarrow> ('id, raw_client, string, 'c) dialer" where
  "raw_dialer net sid c = (raw_Dial (net sid) c, c)"

record 'l raw_server =
  Listener :: 'l

definition raw_NewServer :: "(string \<Rightarrow> string + 'l) \<Rightarrow> string \<Rightarrow> string + 'l raw_server" where
  "raw_NewServer listen addr =
     (case listen addr of Inl e \<Rightarrow> Inl (''raw listen '' @ addr @ '': '' @ e) | Inr ln \<Rightarrow> Inr \<lparr>Listener = ln\<rparr>)"

definition raw_Accept :: "('l \<Rightarrow> (string + 'c) \<times> 'l) \<Rightarrow> 'l raw_server \<Rightarrow> (string + 'c) \<times> 'l raw_server" where
  "raw_Accept accept s = (case accept (Listener s) of (r, l) \<Rightarrow> (r, s\<lparr>Listener := l\<rparr>))"

definition raw_Close :: "('l \<Rightarrow> string option \<times> 'l) \<Rightarrow> 'l raw_server \<Rightarrow> string option \<times> 'l raw_server" where
  "raw_Close close s = (case close (Listener s) of (r, l) \<Rightarrow> (r, s\<lparr>Listener := l\<rparr>))"

section \<open>Both are dialled without changing\<close>

interpretation quic: stateless_dialer "quic_dialer os" for os :: "'id \<Rightarrow> quic_answers"
  by unfold_locales (simp add: quic_dialer_def)

interpretation raw: stateless_dialer "raw_dialer net" for net :: "'id \<Rightarrow> string \<Rightarrow> string + 'c"
  by unfold_locales (simp add: raw_dialer_def)

text \<open>So neither failing over nor promotion touches the transports of a manager.\<close>

lemma backend_manager_keeps:
  "manager_Dial (quic_dialer os) sid m = Some (r, m') \<Longrightarrow> transports m' = transports m"
  "manager_Dial (raw_dialer net) sid n = Some (q, n') \<Longrightarrow> transports n' = transports n"
  by (rule quic.Dial_keeps, assumption) (rule raw.Dial_keeps, assumption)

end
