(* ===== verification/Singbox.thy ===== *)
theory Singbox
  imports Cmd Handshake Xhttp_Client
begin

text \<open>
  Model of the sing-box adapter (\<open>adapter/singbox/outbound.go\<close>): the outbound made from its
  options, and the connection it opens for a destination. The host name and the port of a
  destination come from sing-box's own address type and are arguments; the HTTP client has no
  transport of its own, so the tunnel works in packet mode.
\<close>

record sb_options =
  sb_Server :: string
  sb_ServerPort :: "16 word"
  sb_ServerPublicKey :: string
  sb_UserPrivateKey :: string
  sb_ShortID :: string
  sb_PathPrefix :: string
  sb_UploadPath :: string
  sb_DownloadPath :: string
  sb_SessionKeyName :: string
  sb_MaxChunkSize :: int
  sb_TLSFingerprint :: string

record outbound =
  ob_tag :: string
  ob_options :: sb_options
  ob_auth :: client_x25519

text \<open>The user's private key: the error of an undecodable one is dropped, and the zero array is used.\<close>

definition sb_user_key :: "bytes \<Rightarrow> sb_options \<Rightarrow> bytes" where
  "sb_user_key rnd opts =
     (if sb_UserPrivateKey opts \<noteq> '''' then (case DecodeKey (sb_UserPrivateKey opts) of Inr k \<Rightarrow> k | Inl _ \<Rightarrow> replicate 32 0)
      else rnd)"

definition NewOutbound :: "crypto \<Rightarrow> bytes \<Rightarrow> string \<Rightarrow> sb_options \<Rightarrow> connect_err + outbound" where
  "NewOutbound c rnd tag opts =
     (case DecodeKey (sb_ServerPublicKey opts) of Inl _ \<Rightarrow> Inl BadServerKey
      | Inr serverPubKey \<Rightarrow>
        (case hex_decode (sb_ShortID opts) of None \<Rightarrow> Inl BadShortID
         | Some shortID \<Rightarrow>
           let userPriv = sb_user_key rnd opts in
           Inr \<lparr>ob_tag = tag, ob_options = opts,
             ob_auth = \<lparr>ServerPublicKey = serverPubKey, UserPrivateKey = userPriv,
               UserPublicKey = public_of c userPriv, ShortID = shortID\<rparr>\<rparr>))"

definition sb_client :: "outbound \<Rightarrow> client" where
  "sb_client ob = (let opts = ob_options ob in
     NewClient (''https://'' @ sb_Server opts @ '':'' @ FormatInt (uint (sb_ServerPort opts)))
       \<lparr>PathPrefix = sb_PathPrefix opts, UploadPath = sb_UploadPath opts, DownloadPath = sb_DownloadPath opts,
        SessionKeyName = sb_SessionKeyName opts, MaxChunkSize = sb_MaxChunkSize opts, SessionTimeout = 0,
        CfgDownloadBufferBytes = 0, UploadMode = ''''\<rparr> None)"

text \<open>
  \<open>DialContext\<close>, with the dial of the tunnel as the argument \<open>dial\<close>: the result, and the tunnel
  that it has closed on the way, if any.
\<close>

datatype 'e outbound_err = DialError 'e | HandshakeError handshake_err

definition DialContext :: "(client \<Rightarrow> 'e + conn) \<Rightarrow> string \<Rightarrow> 16 word \<Rightarrow> outbound \<Rightarrow> ('e outbound_err + conn) \<times> conn option" where
  "DialContext dial host port ob =
     (case dial (sb_client ob) of Inl e \<Rightarrow> (Inl (DialError e), None)
      | Inr tunnelConn \<Rightarrow>
        (case Handshake \<lparr>req_command = CmdConnect, req_host = host, req_port = port\<rparr> tunnelConn of
           (Some e, t) \<Rightarrow> (Inl (HandshakeError e), Some t)
         | (None, t) \<Rightarrow> (Inr t, None)))"

lemma sb_packet_mode:
  assumes "Dial (sb_client ob) token sid reply = Inr conn"
  shows "uploadMode conn = uploadModePacket"
  using assms
  by (auto simp: Dial_def sb_client_def NewClient_def defaults_def resolveUploadMode_def isHTTP2Transport_def Let_def
      uploadModeStream_def uploadModePacket_def startDownload_def split: option.splits if_splits)

text \<open>
  C36. The adapter and \<open>nv connect\<close> make the same credentials of the same settings, with one
  exception: a private key that cannot be decoded stops \<open>nv connect\<close>, while the adapter goes on
  with the zero key, which no server knows.
\<close>

theorem outbound_matches_connect:
  "NewOutbound c rnd tag opts =
     (case client_auth c rnd \<lparr>ca_ServerPublicKey = sb_ServerPublicKey opts, ca_UserPrivateKey = sb_UserPrivateKey opts,
         ca_ShortID = sb_ShortID opts\<rparr> of
        Inr cl \<Rightarrow> Inr \<lparr>ob_tag = tag, ob_options = opts, ob_auth = cl\<rparr>
      | Inl BadUserKey \<Rightarrow> Inr \<lparr>ob_tag = tag, ob_options = opts,
          ob_auth = \<lparr>ServerPublicKey = projr (DecodeKey (sb_ServerPublicKey opts)), UserPrivateKey = replicate 32 0,
            UserPublicKey = public_of c (replicate 32 0), ShortID = the (hex_decode (sb_ShortID opts))\<rparr>\<rparr>
      | Inl e \<Rightarrow> Inl e)"
  by (auto simp: NewOutbound_def client_auth_def sb_user_key_def Let_def split: sum.splits option.splits connect_err.splits)

end
