(* ===== verification/Udprelay.thy ===== *)
theory Udprelay
  imports Udp Hostport "HOL-Library.Sublist"
begin

text \<open>
  Model of \<open>internal/proxy/udprelay.go\<close>. The server side is a state machine: the loop of
  \<open>Run\<close>, one goroutine \<open>readFromDest\<close> per socket, the sweep of \<open>cleanupLoop\<close> and \<open>Close\<close> take
  steps in any order. Sockets live in a store (\<open>socks\<close>), so that the table, the goroutines and
  \<open>Run\<close> can hold the same socket; an index into the store is a \<open>*net.UDPConn\<close>. Whether an
  address can be dialled, whether a write works and what arrives is up to the network.
\<close>

section \<open>The server's state\<close>

definition udpBufSize :: nat where "udpBufSize = 65535"

definition udpIdleTimeout :: int where "udpIdleTimeout = 60 * 1000000000"

record udp_sock =
  us_dest :: string
  us_open :: bool

record udp_conn =
  uc_conn :: nat
  lastUsed :: int

text \<open>
  \<open>readers\<close> are the running goroutines with the socket and the key each was started with;
  \<open>in_hand\<close> is what \<open>Run\<close> holds between \<open>getOrCreate\<close> and its write: key, socket, payload.
\<close>

record udp_relay_server =
  relay :: conn
  udp_conns :: "(string \<times> udp_conn) list"
  socks :: "udp_sock list"
  readers :: "(nat \<times> string) list"
  in_hand :: "(string \<times> nat \<times> bytes) option"
  run_err :: "udp_err option"

definition NewUDPRelayServer :: "conn \<Rightarrow> udp_relay_server" where
  "NewUDPRelayServer c = \<lparr>relay = c, udp_conns = [], socks = [], readers = [], in_hand = None, run_err = None\<rparr>"

definition sock_close :: "nat \<Rightarrow> udp_relay_server \<Rightarrow> udp_relay_server" where
  "sock_close i s = s\<lparr>socks := (socks s)[i := (socks s ! i)\<lparr>us_open := False\<rparr>]\<rparr>"

section \<open>Run\<close>

definition getOrCreate :: "bool \<Rightarrow> int \<Rightarrow> string \<Rightarrow> udp_relay_server \<Rightarrow> nat option \<times> udp_relay_server" where
  "getOrCreate dial_ok now destAddr s =
     (case map_of (udp_conns s) destAddr of
        Some uc \<Rightarrow> (Some (uc_conn uc), s)
      | None \<Rightarrow>
          if \<not> dial_ok then (None, s)
          else let i = length (socks s) in
            (Some i, s\<lparr>socks := socks s @ [\<lparr>us_dest = destAddr, us_open = True\<rparr>],
               udp_conns := AList.update destAddr \<lparr>uc_conn = i, lastUsed = now\<rparr> (udp_conns s),
               readers := readers s @ [(i, destAddr)]\<rparr>))"

definition dest_of :: "udp_message \<Rightarrow> string" where
  "dest_of m = JoinHostPort (um_host m) (show_nat (unat (um_port m)))"

text \<open>An iteration of the loop, up to \<open>getOrCreate\<close> and from the write on.\<close>

definition run_read :: "bool \<Rightarrow> int \<Rightarrow> udp_relay_server \<Rightarrow> udp_message option \<times> udp_relay_server" where
  "run_read dial_ok now s =
     (case ReadMessage (relay s) of
        (Inl e, c) \<Rightarrow> (None, s\<lparr>relay := c, run_err := Some e\<rparr>)
      | (Inr m, c) \<Rightarrow>
          (case getOrCreate dial_ok now (dest_of m) (s\<lparr>relay := c\<rparr>) of
             (None, s1) \<Rightarrow> (Some m, s1)
           | (Some i, s1) \<Rightarrow> (Some m, s1\<lparr>in_hand := Some (dest_of m, i, um_payload m)\<rparr>)))"

definition run_write :: "bool \<Rightarrow> int \<Rightarrow> string \<times> nat \<times> bytes \<Rightarrow> udp_relay_server
    \<Rightarrow> (string \<times> bytes) option \<times> udp_relay_server" where
  "run_write write_ok now h s =
     (case h of (key, i, p) \<Rightarrow>
        if us_open (socks s ! i) \<and> write_ok
        then (Some (us_dest (socks s ! i), p),
              s\<lparr>in_hand := None,
                udp_conns := (case map_of (udp_conns s) key of
                    Some uc \<Rightarrow> if uc_conn uc = i then AList.update key (uc\<lparr>lastUsed := now\<rparr>) (udp_conns s)
                      else udp_conns s
                  | None \<Rightarrow> udp_conns s)\<rparr>)
        else (None, s\<lparr>in_hand := None\<rparr>))"

section \<open>readFromDest\<close>

definition end_reader :: "nat \<Rightarrow> udp_relay_server \<Rightarrow> udp_relay_server" where
  "end_reader i s = s\<lparr>readers := filter (\<lambda>r. fst r \<noteq> i) (readers s)\<rparr>"

text \<open>A read that fails, by its deadline or because the socket is closed.\<close>

definition reader_fail :: "nat \<times> string \<Rightarrow> udp_relay_server \<Rightarrow> udp_relay_server" where
  "reader_fail r s =
     end_reader (fst r) (sock_close (fst r) (s\<lparr>udp_conns := AList.delete (snd r) (udp_conns s)\<rparr>))"

text \<open>A datagram of \<open>data\<close> from the address \<open>ip\<close>, \<open>port\<close>, cut to the buffer by the read.\<close>

definition reader_recv :: "nat \<times> string \<Rightarrow> string \<Rightarrow> u16 \<Rightarrow> bytes \<Rightarrow> udp_relay_server \<Rightarrow> udp_relay_server" where
  "reader_recv r ip port data s =
     (case WriteMessage \<lparr>um_host = ip, um_port = port, um_payload = take udpBufSize data\<rparr> (relay s) of
        (None, c) \<Rightarrow> s\<lparr>relay := c\<rparr>
      | (Some e, c) \<Rightarrow> end_reader (fst r) (s\<lparr>relay := c\<rparr>))"

section \<open>cleanupLoop and Close\<close>

definition idle :: "int \<Rightarrow> string \<times> udp_conn \<Rightarrow> bool" where
  "idle now e \<longleftrightarrow> udpIdleTimeout < now - lastUsed (snd e)"

definition cleanup_conn :: "int \<Rightarrow> string \<times> udp_conn \<Rightarrow> udp_relay_server \<Rightarrow> udp_relay_server" where
  "cleanup_conn now e s =
     (if idle now e
      then (sock_close (uc_conn (snd e)) s)\<lparr>udp_conns := AList.delete (fst e) (udp_conns s)\<rparr>
      else s)"

definition udp_cleanup :: "int \<Rightarrow> udp_relay_server \<Rightarrow> udp_relay_server" where
  "udp_cleanup now s = fold (cleanup_conn now) (udp_conns s) s"

definition close_conn :: "string \<times> udp_conn \<Rightarrow> udp_relay_server \<Rightarrow> udp_relay_server" where
  "close_conn e s = (sock_close (uc_conn (snd e)) s)\<lparr>udp_conns := AList.delete (fst e) (udp_conns s)\<rparr>"

definition udp_Close :: "udp_relay_server \<Rightarrow> udp_relay_server" where
  "udp_Close s = fold close_conn (udp_conns s) s"

lemma sock_close_conns [simp]: "udp_conns (sock_close i s) = udp_conns s"
  by (simp add: sock_close_def)

interpretation idle_sweep: swept_table udp_conns "cleanup_conn now" "idle now" for now
  by unfold_locales (simp add: cleanup_conn_def)

interpretation close_sweep: swept_table udp_conns close_conn "\<lambda>_. True"
  by unfold_locales (simp add: close_conn_def)

section \<open>The steps\<close>

datatype udp_event =
    Got udp_message
  | Sent string bytes

inductive udp_step :: "udp_relay_server \<Rightarrow> udp_event list \<Rightarrow> udp_relay_server \<Rightarrow> bool" where
  read_ok: "run_err s = None \<Longrightarrow> in_hand s = None \<Longrightarrow> run_read dial_ok now s = (Some m, t)
    \<Longrightarrow> udp_step s [Got m] t"
| read_end: "run_err s = None \<Longrightarrow> in_hand s = None \<Longrightarrow> run_read dial_ok now s = (None, t)
    \<Longrightarrow> udp_step s [] t"
| write_ok: "in_hand s = Some h \<Longrightarrow> run_write True now h s = (Some (d, p), t) \<Longrightarrow> udp_step s [Sent d p] t"
| write_fail: "in_hand s = Some h \<Longrightarrow> run_write ok now h s = (None, t) \<Longrightarrow> udp_step s [] t"
| answer: "r \<in> set (readers s) \<Longrightarrow> us_open (socks s ! fst r) \<Longrightarrow> udp_step s [] (reader_recv r ip port data s)"
| no_answer: "r \<in> set (readers s) \<Longrightarrow> udp_step s [] (reader_fail r s)"
| tick: "udp_step s [] (udp_cleanup now s)"
| close: "run_err s \<noteq> None \<Longrightarrow> udp_step s [] (udp_Close s)"

inductive_cases udp_stepE: "udp_step s es t"

inductive udp_runs :: "udp_relay_server \<Rightarrow> udp_event list \<Rightarrow> udp_relay_server \<Rightarrow> bool" where
  nothing: "udp_runs s [] s"
| then_step: "udp_runs s es t \<Longrightarrow> udp_step t es' u \<Longrightarrow> udp_runs s (es @ es') u"

inductive_simps udp_runs_Nil: "udp_runs s [] t"

section \<open>Every datagram goes where its message says\<close>

text \<open>The socket \<open>i\<close> exists and is connected to \<open>k\<close>.\<close>

definition at_dest :: "udp_relay_server \<Rightarrow> string \<Rightarrow> nat \<Rightarrow> bool" where
  "at_dest s k i \<longleftrightarrow> i < length (socks s) \<and> us_dest (socks s ! i) = k"

definition table_ok :: "udp_relay_server \<Rightarrow> bool" where
  "table_ok s \<longleftrightarrow> distinct (map fst (udp_conns s)) \<and>
     (\<forall>k uc. (k, uc) \<in> set (udp_conns s) \<longrightarrow> at_dest s k (uc_conn uc)) \<and>
     (\<forall>i k. (i, k) \<in> set (readers s) \<longrightarrow> at_dest s k i) \<and>
     (\<forall>k i p. in_hand s = Some (k, i, p) \<longrightarrow> at_dest s k i)"

definition wanted :: "udp_event list \<Rightarrow> (string \<times> bytes) list" where
  "wanted es = concat (map (\<lambda>e. case e of Got m \<Rightarrow> [(dest_of m, um_payload m)] | Sent d p \<Rightarrow> []) es)"

definition sent_by :: "udp_event list \<Rightarrow> (string \<times> bytes) list" where
  "sent_by es = concat (map (\<lambda>e. case e of Got m \<Rightarrow> [] | Sent d p \<Rightarrow> [(d, p)]) es)"

definition holding :: "udp_relay_server \<Rightarrow> (string \<times> bytes) list" where
  "holding s = (case in_hand s of None \<Rightarrow> [] | Some (k, i, p) \<Rightarrow> [(k, p)])"

lemma at_dest_close [simp]: "at_dest (sock_close j s) k i = at_dest s k i"
  by (cases "i = j") (simp_all add: at_dest_def sock_close_def cong: conj_cong)

lemma sock_close_frame [simp]:
  "readers (sock_close i s) = readers s" "in_hand (sock_close i s) = in_hand s"
  "relay (sock_close i s) = relay s" "run_err (sock_close i s) = run_err s"
  "length (socks (sock_close i s)) = length (socks s)"
  by (simp_all add: sock_close_def)

lemma at_dest_frame [simp]:
  "at_dest (s\<lparr>readers := rs\<rparr>) k i = at_dest s k i" "at_dest (s\<lparr>udp_conns := cs\<rparr>) k i = at_dest s k i"
  "at_dest (s\<lparr>in_hand := h\<rparr>) k i = at_dest s k i" "at_dest (s\<lparr>relay := c\<rparr>) k i = at_dest s k i"
  "at_dest (s\<lparr>run_err := e\<rparr>) k i = at_dest s k i"
  by (simp_all add: at_dest_def)

lemma set_update_distinct:
  "distinct (map fst xs) \<Longrightarrow> e \<in> set (AList.update k v xs) \<Longrightarrow> e = (k, v) \<or> e \<in> set xs"
  by (induction xs) (auto split: if_splits)

lemma table_ok_drop:
  assumes s: "table_ok s" and d: "\<And>k i. at_dest s k i \<Longrightarrow> at_dest t k i"
    and c: "udp_conns t = udp_conns s \<or> udp_conns t = AList.delete k0 (udp_conns s)"
    and r: "set (readers t) \<subseteq> set (readers s)" and h: "in_hand t = in_hand s"
  shows "table_ok t"
proof -
  have "set (udp_conns t) \<subseteq> set (udp_conns s)" and "distinct (map fst (udp_conns t))"
    using c s set_delete [of k0 "udp_conns s"] by (auto simp: table_ok_def distinct_delete)
  then show ?thesis using s r h unfolding table_ok_def by (auto intro!: d dest: subsetD)
qed

lemma table_ok_close_conn: "table_ok s \<Longrightarrow> table_ok (close_conn e s)"
  by (erule table_ok_drop [of _ _ "fst e"])
    (simp_all add: close_conn_def)

lemma table_ok_cleanup_conn: "table_ok s \<Longrightarrow> table_ok (cleanup_conn now e s)"
  using table_ok_close_conn [of s e] by (simp add: cleanup_conn_def close_conn_def)

lemma fold_frame:
  "readers (fold close_conn es s) = readers s \<and> in_hand (fold close_conn es s) = in_hand s"
  "readers (fold (cleanup_conn now) es s) = readers s \<and> in_hand (fold (cleanup_conn now) es s) = in_hand s"
  by (induction es arbitrary: s) (auto simp: close_conn_def cleanup_conn_def)

lemma table_ok_sweeps: "table_ok s \<Longrightarrow> table_ok (udp_cleanup now s) \<and> table_ok (udp_Close s)"
proof -
  assume s: "table_ok s"
  have "table_ok (fold (cleanup_conn now) es s)" "table_ok (fold close_conn es s)" for es
    using s by (induction es arbitrary: s) (auto simp: table_ok_cleanup_conn table_ok_close_conn)
  then show ?thesis by (simp add: udp_cleanup_def udp_Close_def)
qed

lemma table_ok_reader_fail: "table_ok s \<Longrightarrow> table_ok (reader_fail r s)"
  by (erule table_ok_drop [of _ _ "snd r"]) (auto simp: reader_fail_def end_reader_def)

lemma table_ok_reader_recv: "table_ok s \<Longrightarrow> table_ok (reader_recv r ip port data s)"
  by (erule table_ok_drop)
    (auto simp: reader_recv_def end_reader_def split: prod.splits option.splits)

lemma getOrCreate_ok:
  assumes "table_ok s" and "in_hand s = None" and "getOrCreate ok now d s = (oi, t)"
  shows "table_ok t \<and> in_hand t = None \<and> run_err t = run_err s \<and> (\<forall>i. oi = Some i \<longrightarrow> at_dest t d i)"
proof (cases "map_of (udp_conns s) d")
  case (Some uc)
  then have "(d, uc) \<in> set (udp_conns s)" by (rule map_of_SomeD)
  then show ?thesis using assms Some by (auto simp: getOrCreate_def table_ok_def)
next
  case None
  show ?thesis
  proof (cases ok)
    case True
    have t: "t = s\<lparr>socks := socks s @ [\<lparr>us_dest = d, us_open = True\<rparr>],
        udp_conns := AList.update d \<lparr>uc_conn = length (socks s), lastUsed = now\<rparr> (udp_conns s),
        readers := readers s @ [(length (socks s), d)]\<rparr>" and oi: "oi = Some (length (socks s))"
      using assms(3) None True by (simp_all add: getOrCreate_def Let_def)
    have grow: "at_dest s k i \<Longrightarrow> at_dest t k i" for k i
      by (auto simp: t at_dest_def nth_append)
    have new: "at_dest t d (length (socks s))" by (simp add: t at_dest_def)
    have "(k, uc) \<in> set (udp_conns t) \<Longrightarrow> at_dest t k (uc_conn uc)" for k uc
    proof -
      assume "(k, uc) \<in> set (udp_conns t)"
      then consider "k = d" "uc = \<lparr>uc_conn = length (socks s), lastUsed = now\<rparr>" | "(k, uc) \<in> set (udp_conns s)"
        using assms(1) set_update_distinct [of "udp_conns s" "(k, uc)" d] by (auto simp: t table_ok_def)
      then show ?thesis
      proof cases
        case 1
        then show ?thesis using new by simp
      next
        case 2
        then show ?thesis using assms(1) grow by (auto simp: table_ok_def)
      qed
    qed
    moreover have "(i, k) \<in> set (readers t) \<Longrightarrow> at_dest t k i" for i k
    proof -
      assume "(i, k) \<in> set (readers t)"
      then have "(i, k) = (length (socks s), d) \<or> (i, k) \<in> set (readers s)" by (auto simp: t)
      then show ?thesis using assms(1) grow [of k i] new by (auto simp: table_ok_def)
    qed
    moreover have "distinct (map fst (udp_conns t))" "in_hand t = None" "run_err t = run_err s"
      using assms(1,2) by (simp_all add: t table_ok_def distinct_update)
    ultimately show ?thesis using new oi by (auto simp: table_ok_def)
  next
    case False
    then show ?thesis using assms None by (auto simp: getOrCreate_def)
  qed
qed

lemma run_read_ok:
  assumes "table_ok s" and "in_hand s = None" and "run_read ok now s = (om, t)"
  shows "table_ok t \<and> (case om of None \<Rightarrow> in_hand t = None
    | Some m \<Rightarrow> in_hand t = None \<or> holding t = [(dest_of m, um_payload m)])"
proof (cases "ReadMessage (relay s)")
  case (Pair r c)
  have s': "table_ok (s\<lparr>relay := c\<rparr>)" using assms(1) by (rule table_ok_drop) simp_all
  show ?thesis
  proof (cases r)
    case (Inl e)
    have "table_ok (s\<lparr>relay := c, run_err := Some e\<rparr>)" using assms(1) by (rule table_ok_drop) simp_all
    with Inl Pair assms(2,3) show ?thesis by (auto simp: run_read_def)
  next
    case (Inr m)
    obtain oi s1 where g: "getOrCreate ok now (dest_of m) (s\<lparr>relay := c\<rparr>) = (oi, s1)"
      by (cases "getOrCreate ok now (dest_of m) (s\<lparr>relay := c\<rparr>)")
    note s1 = getOrCreate_ok [OF s' _ g]
    show ?thesis
    proof (cases oi)
      case None
      then show ?thesis using s1 Inr Pair g assms(2,3) by (auto simp: run_read_def)
    next
      case (Some i)
      then have t: "t = s1\<lparr>in_hand := Some (dest_of m, i, um_payload m)\<rparr>" "om = Some m"
        using Inr Pair g assms(3) by (auto simp: run_read_def)
      then show ?thesis using s1 Some assms(2) by (auto simp: table_ok_def holding_def)
    qed
  qed
qed

lemma run_write_ok:
  assumes "table_ok s" and "in_hand s = Some h" and "run_write ok now h s = (od, t)"
  shows "table_ok t \<and> holding t = [] \<and> (\<forall>d p. od = Some (d, p) \<longrightarrow> holding s = [(d, p)])"
proof -
  obtain key i p where h: "h = (key, i, p)" by (cases h)
  have d: "at_dest s key i" using assms(1,2) h by (auto simp: table_ok_def)
  have socks: "socks t = socks s" "readers t = readers s" "in_hand t = None"
    using assms(3) h by (auto simp: run_write_def split: if_splits)
  have od: "od = Some (d', p') \<Longrightarrow> (d', p') = (key, p)" for d' p'
    using assms(3) h d by (auto simp: run_write_def at_dest_def split: if_splits)
  have at: "at_dest t = at_dest s" by (simp add: fun_eq_iff at_dest_def socks)
  have up: "distinct (map fst (udp_conns t)) \<and>
      (\<forall>k uc. (k, uc) \<in> set (udp_conns t) \<longrightarrow> at_dest s k (uc_conn uc))"
  proof (cases "udp_conns t = udp_conns s")
    case True
    then show ?thesis using assms(1) by (simp add: table_ok_def)
  next
    case False
    then obtain uc where uc: "map_of (udp_conns s) key = Some uc"
      "udp_conns t = AList.update key (uc\<lparr>lastUsed := now\<rparr>) (udp_conns s)"
      using assms(3) h by (auto simp: run_write_def split: if_splits option.splits)
    have "at_dest s key (uc_conn uc)" using assms(1) map_of_SomeD [OF uc(1)] by (simp add: table_ok_def)
    then show ?thesis
      using assms(1) set_update_distinct [of "udp_conns s" _ key "uc\<lparr>lastUsed := now\<rparr>"] uc(2)
      by (fastforce simp: table_ok_def distinct_update)
  qed
  show ?thesis using assms(1,2) od up h socks(2,3) unfolding table_ok_def at holding_def by auto
qed

lemma event_lists [simp]:
  "wanted [] = []" "sent_by [] = []" "wanted (es @ es') = wanted es @ wanted es'"
  "sent_by (es @ es') = sent_by es @ sent_by es'" "wanted [Got m] = [(dest_of m, um_payload m)]"
  "wanted [Sent d p] = []" "sent_by [Got m] = []" "sent_by [Sent d p] = [(d, p)]"
  by (simp_all add: wanted_def sent_by_def)

lemma udp_step_inv:
  assumes "udp_step s es t" and "table_ok s"
  shows "table_ok t \<and> subseq (sent_by es @ holding t) (holding s @ wanted es)"
  using assms
proof cases
  case (read_ok m dial_ok now)
  then show ?thesis using run_read_ok [OF assms(2) read_ok(3,4)] by (auto simp: holding_def)
next
  case (read_end dial_ok now)
  then show ?thesis using run_read_ok [OF assms(2) read_end(3,4)] by (auto simp: holding_def)
next
  case (write_ok h now d p)
  then show ?thesis using run_write_ok [OF assms(2) write_ok(2,3)] by simp
next
  case (write_fail h ok now)
  then show ?thesis using run_write_ok [OF assms(2) write_fail(2,3)] by simp
next
  case (answer r ip port data)
  have "in_hand t = in_hand s"
    by (simp add: answer(2) reader_recv_def end_reader_def split: prod.splits option.splits)
  then show ?thesis using answer table_ok_reader_recv [OF assms(2)] by (simp add: holding_def)
next
  case (no_answer r)
  then show ?thesis using table_ok_reader_fail [OF assms(2), of r]
    by (simp add: holding_def reader_fail_def end_reader_def)
next
  case (tick now)
  then show ?thesis using table_ok_sweeps [OF assms(2)] fold_frame(2) by (simp add: holding_def udp_cleanup_def)
next
  case close
  then show ?thesis using table_ok_sweeps [OF assms(2)] fold_frame(1) by (simp add: holding_def udp_Close_def)
qed

lemma udp_runs_inv:
  "udp_runs s es t \<Longrightarrow> table_ok s \<Longrightarrow> holding s = [] \<Longrightarrow>
     table_ok t \<and> subseq (sent_by es @ holding t) (wanted es)"
proof (induction rule: udp_runs.induct)
  case (nothing s)
  then show ?case by simp
next
  case (then_step s es t es' u)
  then have t: "table_ok t" "subseq (sent_by es @ holding t) (wanted es)" by auto
  note st = udp_step_inv [OF then_step.hyps(2) t(1)]
  have "subseq (sent_by es @ sent_by es' @ holding u) (sent_by es @ holding t @ wanted es')"
    using st by (simp add: subseq_append')
  also have "subseq (sent_by es @ holding t @ wanted es') (wanted es @ wanted es')"
    using list_emb_append_mono [OF t(2), of "wanted es'" "wanted es'"] by simp
  finally show ?case using st by simp
qed

text \<open>
  C18. Datagrams reach their destination only. However the reading loop, the readers of the
  sockets, the sweep and the network interleave, the datagrams sent are, in order, some of
  those that came through the tunnel, each with its own payload and to the address of its
  own message; and every socket in the table is connected to the address it is filed under.
\<close>

theorem udp_sent_in_order:
  assumes "udp_runs (NewUDPRelayServer c) es t"
  shows "subseq (sent_by es) (wanted es) \<and>
    (\<forall>k uc. map_of (udp_conns t) k = Some uc \<longrightarrow> us_dest (socks t ! uc_conn uc) = k)"
proof -
  have "table_ok (NewUDPRelayServer c)" "holding (NewUDPRelayServer c) = []"
    by (simp_all add: table_ok_def NewUDPRelayServer_def holding_def)
  note inv = udp_runs_inv [OF assms this]
  moreover have "subseq (sent_by es) (sent_by es @ holding t)" by (rule subseq_rev_drop_many) simp
  ultimately have "subseq (sent_by es) (wanted es)" using subseq_order.order_trans by blast
  then show ?thesis using inv by (auto simp: table_ok_def at_dest_def dest!: map_of_SomeD)
qed

lemma run_read_new:
  assumes "msg_ok m" and "msg_view m = m" and "inb (relay s) = encode_msg m @ rest"
    and "map_of (udp_conns s) (dest_of m) = None"
  shows "run_read True now s =
    (Some m, s\<lparr>relay := (relay s)\<lparr>inb := rest\<rparr>, socks := socks s @ [\<lparr>us_dest = dest_of m, us_open = True\<rparr>],
       udp_conns := AList.update (dest_of m) \<lparr>uc_conn = length (socks s), lastUsed = now\<rparr> (udp_conns s),
       readers := readers s @ [(length (socks s), dest_of m)],
       in_hand := Some (dest_of m, length (socks s), um_payload m)\<rparr>)"
  using assms ReadMessage_encode [OF assms(1,3)] by (simp add: run_read_def getOrCreate_def Let_def)

definition demo_relay :: "nat \<Rightarrow> udp_relay_server" where
  "demo_relay n = NewUDPRelayServer \<lparr>inb = concat (replicate n (encode_msg dns_msg)), outb = [], wlim = None\<rparr>"

text \<open>The state after the first message has been sent on.\<close>

definition demo_sent :: "nat \<Rightarrow> udp_relay_server" where
  "demo_sent n = (demo_relay n)\<lparr>socks := [\<lparr>us_dest = dest_of dns_msg, us_open = True\<rparr>],
     udp_conns := [(dest_of dns_msg, \<lparr>uc_conn = 0, lastUsed = 0\<rparr>)], readers := [(0, dest_of dns_msg)]\<rparr>"

lemma demo_first:
  "udp_runs (demo_relay (Suc n)) [Got dns_msg, Sent (dest_of dns_msg) [1, 2]] (demo_sent n)"
proof -
  let ?d = "dest_of dns_msg" and ?s = "demo_relay (Suc n)"
  let ?s1 = "(demo_sent n)\<lparr>in_hand := Some (?d, 0, [1, 2])\<rparr>"
  have p: "um_payload dns_msg = [1, 2]" by (simp add: dns_msg_def)
  have r: "run_read True 0 ?s = (Some dns_msg, ?s1)"
    using run_read_new [OF dns_msg_ok, of ?s "concat (replicate n (encode_msg dns_msg))" 0]
    by (simp add: demo_sent_def demo_relay_def NewUDPRelayServer_def p)
  have "udp_step ?s [Got dns_msg] ?s1"
    by (rule read_ok [OF _ _ r]) (simp_all add: demo_relay_def NewUDPRelayServer_def)
  moreover have "udp_step ?s1 [Sent ?d [1, 2]] (demo_sent n)"
    by (rule write_ok [of _ "(?d, 0, [1, 2])" 0])
      (simp_all add: run_write_def demo_sent_def demo_relay_def NewUDPRelayServer_def)
  ultimately have "udp_runs ?s (([] @ [Got dns_msg]) @ [Sent ?d [1, 2]]) (demo_sent n)"
    by (blast intro: udp_runs.intros)
  then show ?thesis by simp
qed

theorem udp_sent_in_order_witness:
  "subseq (sent_by [Got dns_msg, Sent (dest_of dns_msg) [1, 2]]) (wanted [Got dns_msg, Sent (dest_of dns_msg) [1, 2]]) \<and>
    us_dest (socks (demo_sent 0) ! 0) = dest_of dns_msg"
  using udp_sent_in_order [OF demo_first [of 0, unfolded demo_relay_def]]
  by (simp add: demo_sent_def)

section \<open>The sweep\<close>

lemma cleanup_conn_socks:
  assumes "i < length (socks s)"
  shows "us_open (socks (cleanup_conn now e s) ! i) \<longleftrightarrow>
      us_open (socks s ! i) \<and> \<not> (idle now e \<and> uc_conn (snd e) = i)"
    and "length (socks (cleanup_conn now e s)) = length (socks s)"
  using assms by (cases "uc_conn (snd e) = i"; simp add: cleanup_conn_def sock_close_def)+

lemma cleanup_fold_socks:
  "i < length (socks s) \<Longrightarrow> us_open (socks (fold (cleanup_conn now) es s) ! i) \<longleftrightarrow>
     us_open (socks s ! i) \<and> \<not> (\<exists>e \<in> set es. idle now e \<and> uc_conn (snd e) = i)"
  by (induction es arbitrary: s) (auto simp: cleanup_conn_socks)

text \<open>
  The sweep of the sockets. A tick of \<open>cleanupLoop\<close> forgets exactly the destinations that
  were last written to more than 60 seconds before, closes the socket of each of them, and
  leaves every other socket of the table as it is.
\<close>

theorem udp_cleanup_exact:
  assumes "udp_runs (NewUDPRelayServer c) es s"
  shows "map_of (udp_conns (udp_cleanup now s)) k =
      (case map_of (udp_conns s) k of None \<Rightarrow> None
       | Some uc \<Rightarrow> if udpIdleTimeout < now - lastUsed uc then None else Some uc) \<and>
    (\<forall>uc. map_of (udp_conns s) k = Some uc \<longrightarrow>
      (us_open (socks (udp_cleanup now s) ! uc_conn uc) \<longleftrightarrow>
       us_open (socks s ! uc_conn uc) \<and> now - lastUsed uc \<le> udpIdleTimeout))"
proof -
  have ok: "table_ok s"
    using udp_runs_inv [OF assms] by (simp add: table_ok_def NewUDPRelayServer_def holding_def)
  then have d: "distinct (map fst (udp_conns s))" by (simp add: table_ok_def)
  have sweep: "udp_cleanup now s = idle_sweep.sweep now s"
    by (simp add: udp_cleanup_def idle_sweep.sweep_def)
  have "us_open (socks (udp_cleanup now s) ! uc_conn uc) \<longleftrightarrow>
      us_open (socks s ! uc_conn uc) \<and> now - lastUsed uc \<le> udpIdleTimeout"
    if m: "map_of (udp_conns s) k = Some uc" for uc
  proof -
    have at: "at_dest s k' (uc_conn uc')" if "map_of (udp_conns s) k' = Some uc'" for k' uc'
      using ok map_of_SomeD [OF that] by (simp add: table_ok_def)
    have same: "e = (k, uc)" if "e \<in> set (udp_conns s)" "uc_conn (snd e) = uc_conn uc" for e
    proof (cases e)
      case (Pair k' uc')
      then have "map_of (udp_conns s) k' = Some uc'" using that(1) d by simp
      then show ?thesis using at [OF m] at [of k' uc'] that(2) m Pair by (auto simp: at_dest_def)
    qed
    have ex: "(\<exists>e \<in> set (udp_conns s). idle now e \<and> uc_conn (snd e) = uc_conn uc) \<longleftrightarrow> idle now (k, uc)"
      using same map_of_SomeD [OF m] by (metis snd_conv)
    have "uc_conn uc < length (socks s)" using at [OF m] by (simp add: at_dest_def)
    from cleanup_fold_socks [OF this, of now "udp_conns s"] show ?thesis
      unfolding udp_cleanup_def ex by (simp add: idle_def not_less)
  qed
  moreover have "map_of (udp_conns (udp_cleanup now s)) k =
      (case map_of (udp_conns s) k of None \<Rightarrow> None
       | Some uc \<Rightarrow> if udpIdleTimeout < now - lastUsed uc then None else Some uc)"
    using idle_sweep.sweep_lookup [OF d, of now k] unfolding sweep
    by (simp add: idle_def split: option.splits)
  ultimately show ?thesis by blast
qed

theorem udp_cleanup_exact_witness:
  "map_of (udp_conns (udp_cleanup (61 * 1000000000) (demo_sent 0))) (dest_of dns_msg) = None \<and>
   \<not> us_open (socks (udp_cleanup (61 * 1000000000) (demo_sent 0)) ! 0)"
  using udp_cleanup_exact [OF demo_first [of 0, unfolded demo_relay_def], of "61 * 1000000000" "dest_of dns_msg"]
  by (simp add: demo_sent_def udpIdleTimeout_def)

section \<open>A reader that outlives its entry\<close>

text \<open>
  A reader deletes the entry of its key, whatever the entry now holds. When the sweep has
  closed its socket and \<open>Run\<close> has opened a new one for the same destination before the reader
  sees the error, the entry of the new socket is gone and \<open>Close\<close> leaves the socket open.
\<close>

definition stale_end :: udp_relay_server where
  "stale_end = \<lparr>relay = \<lparr>inb = [], outb = [], wlim = None\<rparr>, udp_conns = [],
     socks = [\<lparr>us_dest = dest_of dns_msg, us_open = False\<rparr>, \<lparr>us_dest = dest_of dns_msg, us_open = True\<rparr>],
     readers = [(1, dest_of dns_msg)], in_hand = None, run_err = Some (ReadUdpHeader EOF)\<rparr>"

lemma stale_reader_leaks_socket:
  "\<exists>es. udp_runs (demo_relay 2) es stale_end \<and> udp_step stale_end [] (udp_Close stale_end) \<and>
     us_open (socks (udp_Close stale_end) ! 1)"
proof -
  let ?d = "dest_of dns_msg" and ?now = "61 * 1000000000 :: int"
  let ?dead = "\<lparr>us_dest = ?d, us_open = False\<rparr>" and ?new = "\<lparr>us_dest = ?d, us_open = True\<rparr>"
  let ?s2 = "(demo_sent 1)\<lparr>socks := [?dead], udp_conns := []\<rparr>"
  let ?s3 = "(demo_sent 0)\<lparr>socks := [?dead, ?new], udp_conns := [(?d, \<lparr>uc_conn = 1, lastUsed = ?now\<rparr>)],
      readers := [(0, ?d), (1, ?d)], in_hand := Some (?d, 1, [1, 2])\<rparr>"
  let ?s4 = "?s3\<lparr>in_hand := None\<rparr>"
  let ?s5 = "?s4\<lparr>udp_conns := [], readers := [(1, ?d)]\<rparr>"
  have p: "um_payload dns_msg = [1, 2]" by (simp add: dns_msg_def)
  have "udp_step (demo_sent 1) [] (udp_cleanup ?now (demo_sent 1))" by (rule tick)
  moreover have "udp_cleanup ?now (demo_sent 1) = ?s2"
    by (simp add: udp_cleanup_def cleanup_conn_def idle_def udpIdleTimeout_def sock_close_def demo_sent_def
        demo_relay_def NewUDPRelayServer_def)
  ultimately have t1: "udp_step (demo_sent 1) [] ?s2" by simp
  have "run_read True ?now ?s2 = (Some dns_msg, ?s3)"
    using run_read_new [OF dns_msg_ok, of ?s2 "[]" ?now]
    by (simp add: demo_sent_def demo_relay_def NewUDPRelayServer_def p)
  then have t2: "udp_step ?s2 [Got dns_msg] ?s3"
    by (rule read_ok [rotated 2]) (simp_all add: demo_sent_def demo_relay_def NewUDPRelayServer_def)
  have t3: "udp_step ?s3 [Sent ?d [1, 2]] ?s4"
    by (rule write_ok [of _ "(?d, 1, [1, 2])" ?now])
      (simp_all add: run_write_def demo_sent_def demo_relay_def NewUDPRelayServer_def)
  have "udp_step ?s4 [] (reader_fail (0, ?d) ?s4)" by (rule no_answer) simp
  then have t4: "udp_step ?s4 [] ?s5"
    by (simp add: reader_fail_def end_reader_def sock_close_def demo_sent_def demo_relay_def NewUDPRelayServer_def)
  have "run_read True ?now ?s5 = (None, stale_end)"
    by (simp add: run_read_def ReadMessage_def conn_read_full_def read_full_def demo_sent_def demo_relay_def
        NewUDPRelayServer_def stale_end_def)
  then have t5: "udp_step ?s5 [] stale_end"
    by (rule read_end [rotated 2]) (simp_all add: demo_sent_def demo_relay_def NewUDPRelayServer_def)
  have "\<exists>es. udp_runs (demo_relay 2) es stale_end"
    using demo_first [of 1] t1 t2 t3 t4 t5 unfolding numeral_2_eq_2 One_nat_def
    by (blast intro: udp_runs.then_step)
  moreover have "udp_step stale_end [] (udp_Close stale_end)" by (rule close) (simp add: stale_end_def)
  moreover have "us_open (socks (udp_Close stale_end) ! 1)" by (simp add: udp_Close_def stale_end_def)
  ultimately show ?thesis by blast
qed

section \<open>The client\<close>

definition splitHostPort :: "string \<Rightarrow> string \<times> u16" where
  "splitHostPort addr =
     (case SplitHostPort addr of None \<Rightarrow> (addr, 0)
      | Some (host, portStr) \<Rightarrow>
          (host, (case scan_uint 65536 portStr of Some (n, _) \<Rightarrow> word_of_nat n | None \<Rightarrow> 0)))"

record udp_relay_client =
  c_relay :: conn
  target :: string
  udp_clients :: "(string \<times> string) list"

definition NewUDPRelayClient :: "conn \<Rightarrow> string \<Rightarrow> udp_relay_client" where
  "NewUDPRelayClient c t = \<lparr>c_relay = c, target = t, udp_clients = []\<rparr>"

text \<open>A datagram of a local program at the address \<open>addr\<close>: an iteration of \<open>RunRead\<close>.\<close>

definition client_read :: "string \<Rightarrow> bytes \<Rightarrow> udp_relay_client \<Rightarrow> udp_err option \<times> udp_relay_client" where
  "client_read addr data c =
     (case splitHostPort (target c) of (host, port) \<Rightarrow>
        case WriteMessage \<lparr>um_host = host, um_port = port, um_payload = take udpBufSize data\<rparr> (c_relay c) of
          (e, conn) \<Rightarrow> (e, c\<lparr>udp_clients := AList.update addr addr (udp_clients c), c_relay := conn\<rparr>))"

text \<open>
  An iteration of \<open>RunWrite\<close>. The loop takes the first entry that ranging over the map gives,
  which may be any: \<open>pick\<close> is that choice.
\<close>

definition client_write :: "(string list \<Rightarrow> string option) \<Rightarrow> udp_relay_client
    \<Rightarrow> (udp_err + (string \<times> bytes) option) \<times> udp_relay_client" where
  "client_write pick c =
     (case ReadMessage (c_relay c) of
        (Inl e, conn) \<Rightarrow> (Inl e, c\<lparr>c_relay := conn\<rparr>)
      | (Inr m, conn) \<Rightarrow>
          (Inr (map_option (\<lambda>a. (a, um_payload m)) (pick (map snd (udp_clients c)))), c\<lparr>c_relay := conn\<rparr>))"

definition picks_one :: "(string list \<Rightarrow> string option) \<Rightarrow> bool" where
  "picks_one pick \<longleftrightarrow> (\<forall>xs. case pick xs of None \<Rightarrow> xs = [] | Some a \<Rightarrow> a \<in> set xs)"

lemma splitHostPort_join:
  assumes "no_bracket h" and "p < 65536"
  shows "splitHostPort (JoinHostPort h (show_nat p)) = (h, word_of_nat p)"
proof -
  have "list_all is_digit (show_nat p)" by (rule show_nat_digits)
  then have "SplitHostPort (JoinHostPort h (show_nat p)) = Some (h, show_nat p)"
    using digits_plain assms(1) by (simp add: split_join)
  moreover have "scan_uint 65536 (show_nat p) = Some (p, [])"
    using scan_uint_show_nat [of p 65536 "[]"] assms(2) by simp
  ultimately show ?thesis by (simp add: splitHostPort_def)
qed

lemma msg_ok_short:
  assumes "msg_ok \<lparr>um_host = h, um_port = p, um_payload = data\<rparr>"
  shows "take udpBufSize data = data"
  using assms encodeAddr_min [of h p] by (simp add: msg_ok_def udpBufSize_def)

lemma value_update: "v \<in> set (map snd (AList.update k v xs))"
  by (induction xs) auto


definition idle_conn :: "bytes \<Rightarrow> conn" where
  "idle_conn b = \<lparr>inb = b, outb = [], wlim = None\<rparr>"


end
