(* ===== verification/Api.thy ===== *)
theory Api
  imports Http
begin

text \<open>
  Model of \<open>internal/api\<close>, the management API: the server with its secret and its status, the
  action handlers, which are package variables, the authentication wrapper and the four routes
  behind \<open>http.ServeMux\<close>. What an action does to the tunnel is a function on a state \<open>'w\<close>
  with an error text on failure; the JSON text of a status is not modelled, only which status
  is encoded. \<open>url_path\<close> is the escaped path of the request.
\<close>

section \<open>api.go: the status\<close>

record api_status =
  Connected :: bool
  ServerAddr :: string
  TransportName :: string
  Uptime :: int
  BytesSent :: int
  BytesRecv :: int
  ActiveConns :: int
  Throttled :: bool
  CurrentMode :: string
  ParallelConnCount :: int

definition no_status :: api_status where
  "no_status = \<lparr>Connected = False, ServerAddr = '''', TransportName = '''', Uptime = 0, BytesSent = 0,
     BytesRecv = 0, ActiveConns = 0, Throttled = False, CurrentMode = '''', ParallelConnCount = 0\<rparr>"

section \<open>The routes of net/http\<close>

text \<open>\<open>strings.Split(p, "/")\<close>, and \<open>cleanPath\<close> over \<open>path.Clean\<close>.\<close>

fun split_slash :: "string \<Rightarrow> string list" where
  "split_slash [] = ['''']"
| "split_slash (c # s) =
     (if c = CHR ''/'' then '''' # split_slash s
      else case split_slash s of [] \<Rightarrow> [[c]] | w # ws \<Rightarrow> (c # w) # ws)"

definition clean_step :: "string list \<Rightarrow> string \<Rightarrow> string list" where
  "clean_step acc w =
     (if w = '''' \<or> w = ''.'' then acc else if w = ''..'' then butlast acc else acc @ [w])"

definition cleanPath :: "string \<Rightarrow> string" where
  "cleanPath p =
     (if p = '''' then ''/''
      else let q = (if hd p = CHR ''/'' then p else CHR ''/'' # p);
               ws = foldl clean_step [] (split_slash q);
               np = (if ws = [] then ''/'' else concat (map (\<lambda>w. CHR ''/'' # w) ws))
        in if last q = CHR ''/'' \<and> np \<noteq> ''/'' then np @ ''/'' else np)"

datatype route = StatusRoute | ConnectRoute | DisconnectRoute | ReconnectRoute

datatype 'a mux_match = Matched 'a | Redirect string | MethodNotAllowed | NotFound

definition api_routes :: "(string \<times> string \<times> route) list" where
  "api_routes = [(''GET'', ''/api/status'', StatusRoute), (''POST'', ''/api/connect'', ConnectRoute),
     (''POST'', ''/api/disconnect'', DisconnectRoute), (''POST'', ''/api/reconnect'', ReconnectRoute)]"

text \<open>A pattern for \<open>GET\<close> matches \<open>HEAD\<close> requests as well.\<close>

definition method_matches :: "string \<Rightarrow> string \<Rightarrow> bool" where
  "method_matches pat m \<longleftrightarrow> m = pat \<or> pat = ''GET'' \<and> m = ''HEAD''"

definition mux_find :: "(string \<times> string \<times> 'a) list \<Rightarrow> http_request \<Rightarrow> 'a mux_match" where
  "mux_find rs r =
     (let path = (if http_method r = ''CONNECT'' then url_path r else cleanPath (url_path r)) in
      if path \<noteq> url_path r then Redirect path
      else case find (\<lambda>(m, p, _). p = path \<and> method_matches m (http_method r)) rs of
          Some (_, _, a) \<Rightarrow> Matched a
        | None \<Rightarrow> if \<exists>(m, p, _) \<in> set rs. p = path then MethodNotAllowed else NotFound)"

section \<open>server.go\<close>

record http_server =
  api_secret :: string
  api_current :: "api_status option"

record 'w action_handlers =
  connectHandler :: "('w \<Rightarrow> string option \<times> 'w) option"
  disconnectHandler :: "('w \<Rightarrow> string option \<times> 'w) option"
  reconnectHandler :: "('w \<Rightarrow> string option \<times> 'w) option"

definition no_handlers :: "'w action_handlers" where
  "no_handlers = \<lparr>connectHandler = None, disconnectHandler = None, reconnectHandler = None\<rparr>"

definition NewHTTPServer :: "string \<Rightarrow> http_server" where
  "NewHTTPServer secret = \<lparr>api_secret = secret, api_current = Some no_status\<rparr>"

definition UpdateStatus :: "api_status option \<Rightarrow> http_server \<Rightarrow> http_server" where
  "UpdateStatus st s = s\<lparr>api_current := st\<rparr>"

text \<open>\<open>SetHandlers\<close> is a method, but what it sets are variables of the package.\<close>

definition SetHandlers :: "http_server \<Rightarrow> ('w \<Rightarrow> string option \<times> 'w) option
    \<Rightarrow> ('w \<Rightarrow> string option \<times> 'w) option \<Rightarrow> ('w \<Rightarrow> string option \<times> 'w) option
    \<Rightarrow> 'w action_handlers \<Rightarrow> 'w action_handlers" where
  "SetHandlers s c d r g = g\<lparr>connectHandler := c, disconnectHandler := d, reconnectHandler := r\<rparr>"

datatype api_answer =
    Json "api_status option"
  | Ok
  | Failed nat string
  | Moved string

definition authMiddleware :: "http_server \<Rightarrow> (http_request \<Rightarrow> 'w \<Rightarrow> api_answer \<times> 'w)
    \<Rightarrow> http_request \<Rightarrow> 'w \<Rightarrow> api_answer \<times> 'w" where
  "authMiddleware s nxt r w =
     (if api_secret s \<noteq> '''' \<and> header_get r ''Authorization'' \<noteq> ''Bearer '' @ api_secret s
      then (Failed 401 ''unauthorized'', w)
      else nxt r w)"

definition handleStatus :: "http_server \<Rightarrow> http_request \<Rightarrow> 'w \<Rightarrow> api_answer \<times> 'w" where
  "handleStatus s r w = (Json (api_current s), w)"

definition run_action :: "('w \<Rightarrow> string option \<times> 'w) option \<Rightarrow> 'w \<Rightarrow> api_answer \<times> 'w" where
  "run_action h w =
     (case h of None \<Rightarrow> (Failed 501 ''not implemented'', w)
      | Some f \<Rightarrow> (case f w of (Some e, w') \<Rightarrow> (Failed 500 e, w') | (None, w') \<Rightarrow> (Ok, w')))"

definition handleConnect :: "'w action_handlers \<Rightarrow> http_request \<Rightarrow> 'w \<Rightarrow> api_answer \<times> 'w" where
  "handleConnect g r w = run_action (connectHandler g) w"

definition handleDisconnect :: "'w action_handlers \<Rightarrow> http_request \<Rightarrow> 'w \<Rightarrow> api_answer \<times> 'w" where
  "handleDisconnect g r w = run_action (disconnectHandler g) w"

definition handleReconnect :: "'w action_handlers \<Rightarrow> http_request \<Rightarrow> 'w \<Rightarrow> api_answer \<times> 'w" where
  "handleReconnect g r w = run_action (reconnectHandler g) w"

definition route_handler :: "http_server \<Rightarrow> 'w action_handlers \<Rightarrow> route \<Rightarrow> http_request \<Rightarrow> 'w
    \<Rightarrow> api_answer \<times> 'w" where
  "route_handler s g rt =
     (case rt of StatusRoute \<Rightarrow> authMiddleware s (handleStatus s)
      | ConnectRoute \<Rightarrow> authMiddleware s (handleConnect g)
      | DisconnectRoute \<Rightarrow> authMiddleware s (handleDisconnect g)
      | ReconnectRoute \<Rightarrow> authMiddleware s (handleReconnect g))"

definition api_serve :: "http_server \<Rightarrow> 'w action_handlers \<Rightarrow> http_request \<Rightarrow> 'w \<Rightarrow> api_answer \<times> 'w" where
  "api_serve s g r w =
     (case mux_find api_routes r of
        Matched rt \<Rightarrow> route_handler s g rt r w
      | Redirect p \<Rightarrow> (Moved p, w)
      | MethodNotAllowed \<Rightarrow> (Failed 405 ''Method Not Allowed'', w)
      | NotFound \<Rightarrow> (Failed 404 ''404 page not found'', w))"

section \<open>Authorisation\<close>

definition authorized :: "http_server \<Rightarrow> http_request \<Rightarrow> bool" where
  "authorized s r \<longleftrightarrow> api_secret s = '''' \<or> header_get r ''Authorization'' = ''Bearer '' @ api_secret s"

text \<open>
  The management API is closed. Without the secret of the server a request runs no action,
  whatever actions are installed, and gets no status: its answer does not depend on the
  state of the tunnel or on the current status, and is 401 on every route.
\<close>

theorem api_unauthorized:
  assumes "\<not> authorized s r"
  shows "snd (api_serve s g r w) = w \<and>
    fst (api_serve s g r w) = fst (api_serve (UpdateStatus st s) g' r w') \<and>
    (\<forall>j. fst (api_serve s g r w) \<noteq> Json j) \<and> fst (api_serve s g r w) \<noteq> Ok \<and>
    (\<forall>rt. mux_find api_routes r = Matched rt \<longrightarrow> fst (api_serve s g r w) = Failed 401 ''unauthorized'')"
  using assms
  by (auto simp: api_serve_def route_handler_def authMiddleware_def authorized_def UpdateStatus_def
      split: mux_match.splits route.splits)

definition api_get :: "string \<Rightarrow> string \<Rightarrow> (string \<times> string) list \<Rightarrow> http_request" where
  "api_get m p hs = \<lparr>http_method = m, url_path = p, query = [], headers = hs, cookies = [],
     req_body = [], body_fails = False, remote_addr = ''127.0.0.1:5000''\<rparr>"

theorem api_unauthorized_witness:
  "api_serve (NewHTTPServer ''s3'') (SetHandlers (NewHTTPServer ''s3'') (Some (\<lambda>n. (None, n + 1))) None None no_handlers)
     (api_get ''POST'' ''/api/connect'' [(''authorization'', ''Bearer s4'')]) (0 :: nat) =
     (Failed 401 ''unauthorized'', 0)"
proof -
  let ?s = "NewHTTPServer ''s3''" and ?r = "api_get ''POST'' ''/api/connect'' [(''authorization'', ''Bearer s4'')]"
  have "header_get ?r ''Authorization'' = ''Bearer s4''"
    by code_simp
  then have "\<not> authorized ?s ?r" by (simp add: authorized_def NewHTTPServer_def)
  moreover have "cleanPath ''/api/connect'' = ''/api/connect''" by code_simp
  then have "mux_find api_routes ?r = Matched ConnectRoute"
    by (simp add: mux_find_def api_get_def api_routes_def method_matches_def)
  ultimately show ?thesis
    using api_unauthorized [of ?s ?r "SetHandlers ?s (Some (\<lambda>n. (None, n + 1))) None None no_handlers" "0 :: nat"]
    by (metis prod.collapse)
qed

text \<open>
  What an authorised request does: the status route answers the last status set, and an
  action route runs the installed action once and reports its error, or its absence.
\<close>

theorem api_actions_exact:
  assumes "authorized s r" and "mux_find api_routes r = Matched rt"
  shows "api_serve s g r w =
    (case rt of StatusRoute \<Rightarrow> (Json (api_current s), w)
     | ConnectRoute \<Rightarrow> run_action (connectHandler g) w
     | DisconnectRoute \<Rightarrow> run_action (disconnectHandler g) w
     | ReconnectRoute \<Rightarrow> run_action (reconnectHandler g) w)"
  using assms
  by (auto simp: api_serve_def route_handler_def authMiddleware_def authorized_def handleStatus_def
      handleConnect_def handleDisconnect_def handleReconnect_def split: route.splits)

theorem api_actions_exact_witness:
  "api_serve (NewHTTPServer '''') (SetHandlers (NewHTTPServer '''') None None (Some (\<lambda>n. (Some ''no edge'', n + 1))) no_handlers)
     (api_get ''POST'' ''/api/reconnect'' []) (4 :: nat) = (Failed 500 ''no edge'', 5)"
proof -
  let ?s = "NewHTTPServer ''''" and ?r = "api_get ''POST'' ''/api/reconnect'' []"
  have "cleanPath ''/api/reconnect'' = ''/api/reconnect''" by code_simp
  then have "mux_find api_routes ?r = Matched ReconnectRoute"
    by (simp add: mux_find_def api_get_def api_routes_def method_matches_def)
  moreover have "authorized ?s ?r" by (simp add: authorized_def NewHTTPServer_def)
  ultimately show ?thesis
    by (simp add: api_actions_exact [of ?s ?r ReconnectRoute] SetHandlers_def run_action_def)
qed

text \<open>The handlers are shared: a second server's actions replace those of the first.\<close>

lemma api_handlers_shared:
  "SetHandlers s2 c2 d2 r2 (SetHandlers s1 c1 d1 r1 g) = SetHandlers s1 c2 d2 r2 g"
  by (simp add: SetHandlers_def)

end
