(* ===== verification/Spec2Isabelle.thy ===== *)
theory Spec2Isabelle
  imports Session Handshake Netip Udp Auth Xhttp_Limits Download_Runs Tunnel Middlewares Serve Backends Singbox Quictun Udprelay Api
begin

text \<open>
  Nightveil: a verification development.

  Nightveil (a Go program) is a tunnel that looks like a web site. A SOCKS5 client on the user's
  machine talks to \<open>nv connect\<close>, which carries each connection inside HTTP requests (XHTTP) to
  \<open>nv server\<close>; the server authenticates every request by a token, serves an ordinary site to
  everybody else, and relays the tunnelled connection to its target. Around this core are the
  management of keys and users on the command line, the detection of throttling with the
  rotation of all visible parameters, alternative transports, traffic-shaping middlewares, a
  REALITY listener and a management API. All definitions are translated from the Go sources
  under \<open>src/\<close>, and keep their names where Isabelle allows it.

  How the program is modelled

  A struct is a record, an enumeration a datatype, a byte an 8-bit word, a string a list of
  characters. An integer whose overflow can be reached is kept at its width: \<open>int\<close> with
  \<open>wrap64\<close>, or a word. An operation is a function from the old state to the result and the new
  state; an error is a value of a sum or option type. An outer \<open>None\<close> stands for a panic (index
  out of range, send on a closed channel, store into a nil map) wherever the code could have
  one, so that its absence is a theorem. A call that blocks has a result that says so.
  Goroutines become step relations: every interleaving of their steps is a run. Randomness, the
  clock, the network, the YAML reader, the cryptographic primitives and floating-point numbers are
  arguments of the definitions; what the proofs need of them is a named hypothesis
  (\<open>crypto_ok\<close>: X25519 commutes, sealing and opening are inverse; \<open>draws_ok\<close>: a random source
  stays in the range asked for), and every property that has one has a witness with a concrete
  instance.

  The theories

  \<open>Prelude\<close> has the generic lemmas on words, lists and association lists, and the collection of
  step rules. \<open>Interfaces\<close> has the locales between components: a replay buffer, the reassembly of
  numbered chunks, a wire codec, a byte source, a swept table, a random choice in a range; each
  is interpreted on the code's own definitions in the theory that provides them, and the
  clients' lemmas are proved inside the locales (\<open>Transport\<close> has one more, for transports that a
  dial does not change). \<open>Strconv\<close>, \<open>Base64\<close>, \<open>Http\<close>, \<open>Neturl\<close>, \<open>Netip\<close> and \<open>Hostport\<close> model what
  the program uses of Go's standard library.

  \<^item> \<open>Download_Buffer\<close>, \<open>Session\<close> (\<open>internal/session\<close>): the replay buffer, the reordering of
    uploads, the session and its table with the periodic sweep.
  \<^item> \<open>Framing\<close>, \<open>Handshake\<close>, \<open>Udp\<close> (\<open>internal/protocol\<close>): frames, the CONNECT payload, both sides
    of the handshake, the UDP messages.
  \<^item> \<open>Auth\<close> (\<open>internal/crypto/auth\<close>): tokens and keys.
  \<^item> \<open>Xhttp_Server\<close>, \<open>Server_Runs\<close>, \<open>Xhttp_Client\<close>, \<open>Xhttp_Limits\<close> (\<open>internal/transport/xhttp\<close>):
    handlers, connections and the states the server can reach; the client's dial, writes,
    reads and resumption; the rate limiter and the multiplexed writer. \<open>Download_Runs\<close> runs the
    client's \<open>Read\<close>, the GET handlers and the relay's writes beside each other.
  \<^item> \<open>Tunnel\<close> (\<open>internal/proxy\<close>, the connection handlers of \<open>cmd_server.go\<close> and \<open>cmd_connect.go\<close>):
    SOCKS5, the relay with its counters; \<open>Udprelay\<close>: the UDP relay over a store of sockets.
  \<^item> \<open>Padding\<close>, \<open>Middlewares\<close> (\<open>internal/middleware\<close>): padding, jitter, shaping, cover traffic, the
    chain.
  \<^item> \<open>Throttle\<close>, \<open>Rotator\<close> (\<open>internal/throttle\<close>): detector, controller, canary, rotation.
  \<^item> \<open>Transport\<close>, \<open>Quictun\<close>, \<open>Backends\<close> (\<open>internal/transport\<close>): failover, pool, reconnection;
    obfuscation and port hopping; the QUIC and the raw transport, client and server.
  \<^item> \<open>Reality\<close>, \<open>Utls\<close> (\<open>internal/security\<close>): peeking, forwarding, server name extraction; the
    client's TLS dial and its fingerprint.
  \<^item> \<open>Config\<close>, \<open>Cmd\<close>, \<open>Setup\<close>, \<open>Enrolment\<close> (\<open>internal/config\<close>, \<open>internal/fallback\<close>, \<open>cmd/nv\<close>):
    import links, keys, the configuration files that are written, and the users in them; \<open>Cli\<close>
    (\<open>cmd_setup.go\<close>, \<open>cmd_init.go\<close>, \<open>cmd_adduser.go\<close>, \<open>cmd_users.go\<close>, \<open>cmd_link.go\<close>, \<open>config.Load\<close>): the
    commands over a file system.
  \<^item> \<open>Connect\<close> (\<open>cmd_connect.go\<close>): the whole client process; \<open>Serve\<close> (\<open>cmd_server.go\<close>,
    \<open>cmd_connect.go\<close>, \<open>internal/security/tls.go\<close>): both programs from their command line to the
    running state; \<open>Singbox\<close> (\<open>adapter/singbox\<close>); \<open>Api\<close> (\<open>internal/api\<close>).
  \<^item> this theory: the properties that span client, authentication and server.

  What the lemmas show

  The first group follows the bytes of a user. What the client writes arrives at the relay
  exactly, in packet mode for every order and repetition of the requests
  (\<open>registered_upload_end_to_end\<close>, \<open>upload_in_order\<close>, \<open>upload_complete\<close>), and in stream mode through
  the pipe (\<open>stream_upload_lossless\<close>); the other direction survives broken downloads, for the
  server keeps a window of what it has sent (\<open>registered_download_end_to_end\<close>,
  \<open>download_delivers_all\<close>, \<open>replay_guarantee\<close>, \<open>resume_offset_exact\<close>). The proxy protocol on top connects to exactly the address that the SOCKS5
  client has asked for (\<open>handshake_agreement\<close>, \<open>socks_to_target\<close>, \<open>udp_relay_end_to_end\<close>).

  The second group is about who gets in: tokens of registered users only (\<open>auth_sound\<close>,
  \<open>auth_complete\<close>), sessions that do not touch each other (\<open>request_isolation\<close>,
  \<open>emitted_at_most_once\<close>), handlers that never panic, probes that see a real site; and about
  enrolment: the links and entries that \<open>setup\<close>, \<open>keygen\<close> and \<open>adduser\<close> produce make a client that
  the server admits, and the listings show exactly these (\<open>everyone_listed\<close>).

  The third group is about the machinery that runs beside: the detector and the canary report
  what their samples say, rotation stays in its ranges, and whatever these do the client holds
  a transport that opens a tunnel (\<open>rotation_keeps_transport\<close>, \<open>running_client_opens_tunnel\<close>);
  \<open>setup_to_tunnel\<close> joins this to the commands that set up and start both programs.
  Codecs have round trips, parsers of foreign bytes are total, loops end
  (\<open>sni_extract_total\<close>, \<open>reconnect_terminates\<close>), pools and tables conserve what they hold.

  Theorems that are named for a defect (\<open>stale_token_accepted\<close>, \<open>expired_token_loses_data\<close>,
  \<open>earlier_get_takes_notification\<close>, \<open>full_channel_strands_session\<close>,
  \<open>rotation_installs_or_races\<close>, \<open>ipv4_prefix_hijacks_domain\<close> and others) show what the code does where
  this is not what it means to do.

  Bounds

  There is no fuel in the model: recursive functions end by structure or by a measure that is
  proved (\<open>chunk_loop\<close>, \<open>sni_walk\<close>, \<open>trim_left_space\<close>), and the reconnection loop, which may run
  for ever, is a partial function whose return is characterised exactly. Where a hypothesis
  limits a length to \<open>2 ^ 62\<close> or \<open>2 ^ 63\<close>, this is the 64-bit counter of the code, beyond any
  amount of data that can be sent.

  Not modelled

  Printing and signals; the integer flags of \<open>init\<close>, whose values are arguments; the generation
  of certificates and private keys, whose texts are arguments; permissions of files, and paths
  that have several names; YAML and JSON texts as such; TLS, uTLS, HTTP/2 and QUIC themselves, of
  which \<open>Utls\<close> and \<open>Backends\<close> have the calls and the limits that the program sets; deadlines and sleeping,
  which appear as returned delays; the type aliases under \<open>pkg/\<close>.
  A sequence of requests is modelled as handled one after the other: the handlers of a session
  take the session's locks, and their critical sections are the steps of the model.
\<close>

section \<open>A registered client at the server\<close>

text \<open>
  The authenticator of the running server (\<open>runServer\<close> gives \<open>ServerX25519\<close> to \<open>NewServer\<close>):
  \<open>Validate\<close> with the clock in seconds. \<open>Validate\<close> never panics (\<open>parse_token_no_panic\<close>), so
  the branch for a panic is never taken.
\<close>

definition server_validate :: "crypto \<Rightarrow> server_x25519 \<Rightarrow> int \<Rightarrow> http_request \<Rightarrow> auth_err + bytes" where
  "server_validate c srv now r =
     (case Validate c srv (now div 1000000000) r of Some x \<Rightarrow> x | None \<Rightarrow> Inl ErrAuthFailed)"

text \<open>The clocks agree: the server's time at a request is within the limit of the token's.\<close>

definition in_time :: "server_x25519 \<Rightarrow> int \<Rightarrow> int \<Rightarrow> bool" where
  "in_time srv ts now \<longleftrightarrow> 0 \<le> now \<and> now < 2 ^ 63 \<and> \<bar>now div 1000000000 - ts\<bar> \<le> MaxTimeDiff srv"

lemma conn_token:
  assumes "tokenB64 conn \<noteq> ''''"
  shows "extractToken (post_request conn pad addr d sq) ''nv_token'' = tokenB64 conn"
    and "extractToken (get_request conn pad addr) ''nv_token'' = tokenB64 conn"
    and "extractToken (stream_request conn pad addr body) ''nv_token'' = tokenB64 conn"
  using assms
  by (simp_all add: extractToken_def get_cookie_def post_request_def get_request_def stream_request_def addAuth_def)

lemma client_validates:
  assumes "crypto_ok c" and "registered c cl srv" and "TokenHeader srv = DefaultTokenHeader"
    and "length sid = 16" and "length nonce = 12" and "0 \<le> ts" and "ts < 2 ^ 63" and "in_time srv ts now"
    and "GenerateToken c cl (Some ephPriv) (Some nonce) ts sid = Some token"
    and "extractToken r ''nv_token'' = b64_encode True token"
  shows "server_validate c srv now r = Inr sid"
proof -
  have "0 \<le> now div 1000000000" "now div 1000000000 < 2 ^ 63" using assms(8) unfolding in_time_def by linarith+
  then have "Validate c srv (now div 1000000000) r = Some (Inr sid)"
    using registered_admits [OF assms(1,2)] assms(3-10) unfolding admits_def in_time_def DefaultTokenHeader_def by metis
  then show ?thesis by (simp add: server_validate_def)
qed

lemma token_nonempty:
  assumes "GenerateToken c cl e n ts sid = Some token"
  shows "b64_encode True token \<noteq> ''''"
  using assms by (auto simp: GenerateToken_def Let_def split: bind_splits)

lemma Dial_conn:
  assumes "Dial hc (Some token) sid reply = Inr conn"
  shows "tokenB64 conn = b64_encode True token" and "cc_client conn = hc" and "uploadSeq conn = 0"
    and "brokenErr conn = None" and "downloadOffset conn = 0"
    and "uploadMode conn = resolveUploadMode (UploadMode (ClientConfig hc)) (HTTPTransport hc)" and "downloadBody conn"
  using assms
  by (auto simp: Dial_def Let_def startDownload_def startStreamUpload_def reply_err_def split: option.splits if_splits reply.splits)

text \<open>The first GET of a session that the server does not know yet.\<close>

lemma first_get:
  assumes inv: "manager_inv (mgr sv)" and op: "\<not> accept_closed sv" and new: "Get i (mgr sv) = None"
    and v: "v (get_request conn pad addr) = Inr i"
  shows "\<exists>r sv1. ServeHTTP v now (get_request conn pad addr) sv =
      Some (DownloadLoop r (download_offset_of (get_request conn pad addr)), sv1) \<and> conf sv1 = conf sv \<and>
    fresh_upload sv1 i r \<and> lookup_upload (sess_at sv1 r) = Map.empty \<and> stream_pipe (sess_at sv1 r) = None \<and>
    represents (download_buf (sess_at sv1 r)) [] \<and> \<not> is_done (download_buf (sess_at sv1 r)) \<and>
    (length (accept_ch sv) < 64 \<longrightarrow> accept_ch sv1 = accept_ch sv @ [newSplitConn r addr])"
proof -
  let ?q = "get_request conn pad addr" and ?m = "mgr sv"
  define ref where "ref = length (heap ?m)"
  define m1 where "m1 = snd (GetOrCreate now i ?m)"
  define s0 where "s0 = NewSessionWithDownloadBuf i (DownloadBufferBytes ?m) now"
  define sv1 where "sv1 = upd_sess ref (\<lambda>s. MarkConnected (s\<lparr>has_download := True\<rparr>)) (sv\<lparr>mgr := m1\<rparr>)"
  have g: "GetOrCreate now i ?m = (ref, m1)" and m1: "map_of (sessions m1) i = Some ref" "heap m1 = heap ?m @ [s0]"
    using new by (simp_all add: GetOrCreate_def Get_def Let_def m1_def ref_def s0_def update_conv')
  have inv1: "manager_inv m1" unfolding m1_def by (rule GetOrCreate_inv [OF inv])
  have at1: "sess_at sv1 ref = MarkConnected (s0\<lparr>has_download := True\<rparr>)"
    by (simp add: sv1_def sess_at_upd m1 ref_def)
  have len: "length (heap (mgr sv1)) = Suc ref" by (simp add: sv1_def m1 ref_def)
  have connected: "session_inv (MarkConnected (s0\<lparr>has_download := True\<rparr>))" "sess_id (MarkConnected (s0\<lparr>has_download := True\<rparr>)) = sess_id s0"
    using session_inv_new [of i "DownloadBufferBytes ?m" now]
    by (simp_all add: s0_def [symmetric] MarkConnected_def)
  have inv2: "manager_inv (mgr sv1)"
    unfolding sv1_def using inv1 connected
    by (intro upd_sess_inv) (simp_all add: m1 ref_def)
  obtain sv2 where t: "tryEmit ref addr sv1 = Some sv2"
    using tryEmit_total [of sv1] op by (auto simp: sv1_def)
  note T = tryEmit_session [OF t]
  then obtain a where a: "sess_at sv2 ref = MarkConnected (s0\<lparr>has_download := True\<rparr>)\<lparr>accepted := a\<rparr>" using at1 by auto
  have "http_method ?q = ''GET''" "remote_addr ?q = addr" by (simp_all add: get_request_def addAuth_def)
  then have serve: "ServeHTTP v now ?q sv = Some (DownloadLoop ref (download_offset_of ?q), sv2)"
    using v g t by (simp add: ServeHTTP_def handleDownload_def sv1_def)
  have same: "lookup_upload (sess_at sv2 ref) = lookup_upload s0"
    by (simp add: a MarkConnected_def lookup_upload_def fun_eq_iff)
  have nopipe: "stream_pipe (sess_at sv2 ref) = None"
    by (simp add: a MarkConnected_def s0_def NewSessionWithDownloadBuf_def)
  have live: "packet_live (sess_at sv2 ref)" "next_seq (sess_at sv2 ref) = 0" "lookup_upload (sess_at sv2 ref) = Map.empty"
    using packet_live_new [of i "DownloadBufferBytes ?m" now] new_queue [of i "DownloadBufferBytes ?m" now]
    unfolding same by (simp_all add: a s0_def [symmetric] packet_live_def MarkConnected_def)
  then have "fresh_upload sv2 i ref"
    using T inv2 len op by (simp add: fresh_upload_def Get_def sv1_def m1)
  moreover have "accept_ch sv2 = accept_ch sv @ [newSplitConn ref addr]" if "length (accept_ch sv) < 64"
    using t that op at1 by (simp add: tryEmit_def s0_def MarkConnected_def NewSessionWithDownloadBuf_def Let_def)
      (auto simp: sv1_def)
  moreover have "represents (download_buf (sess_at sv2 ref)) []" "\<not> is_done (download_buf (sess_at sv2 ref))"
    by (simp_all add: a MarkConnected_def s0_def NewSessionWithDownloadBuf_def New_represents)
      (simp add: NewDownloadBufferSized_def)
  ultimately show ?thesis using serve live(3) nopipe T by (auto simp: sv1_def)
qed

text \<open>The POST that opens the upload stream of a session that has only had its GET.\<close>

lemma stream_post:
  assumes fr: "fresh_upload sv i r" and np: "stream_pipe (sess_at sv r) = None" and v: "v (stream_request conn pad addr body) = Inr i"
  shows "\<exists>sv'. ServeHTTP v now (stream_request conn pad addr body) sv = Some (UploadPump r body, sv') \<and>
    upload_stream r body body sv' []"
proof -
  let ?q = "stream_request conn pad addr body"
  have m: "manager_inv (mgr sv)" "map_of (sessions (mgr sv)) i = Some r" and op: "\<not> accept_closed sv"
    using fr by (auto simp: fresh_upload_def Get_def)
  then have rl: "r < length (heap (mgr sv))" using manager_inv_lookup by blast
  have g: "GetOrCreate now i (mgr sv) = (r, mgr sv)" using m(2) by (simp add: GetOrCreate_def)
  define sv1 where "sv1 = upd_sess r (\<lambda>s. s\<lparr>has_upload := True\<rparr>) sv"
  obtain sv2 where t: "tryEmit r addr sv1 = Some sv2" using tryEmit_total [of sv1] op by (auto simp: sv1_def)
  note T = tryEmit_session [OF t]
  then obtain a where a: "sess_at sv2 r = (sess_at sv1 r)\<lparr>accepted := a\<rparr>" by auto
  have len: "r < length (heap (mgr sv2))" using T rl by (simp add: sv1_def)
  have "stream_pipe (sess_at sv2 r) = None" using np rl by (simp add: a sv1_def sess_at_upd)
  then have "upload_stream r body body (upd_sess r (\<lambda>s. snd (StreamUploadWriter s)) sv2) []"
    using len by (intro upload_stream.opened)
      (simp_all add: sess_at_upd StreamUploadWriter_def ensureStreamPipe_def Let_def)
  moreover have "http_method ?q = ''POST''" "header_get ?q ''X-NV-Mode'' = ''stream''" "remote_addr ?q = addr" "req_body ?q = body"
    by (simp_all add: stream_request_def addAuth_def header_get_def assoc_get_def lower_def lower_char_def)
  ultimately show ?thesis
    using v g t by (simp add: ServeHTTP_def handleUpload_def handleUploadStream_def sv1_def)
qed

text \<open>
  C1. A registered client's upload, from the dial to the relay. A client whose keys are registered
  dials with a fresh session id; its first GET is authenticated by the server, creates the
  session and, while the accept channel has room, puts the connection of exactly this session
  there. Whatever the client then writes reaches the server as authenticated POSTs, in any order
  and repeatedly, as long as the clocks agree; each is answered with 200, and the relay reads
  exactly the bytes written.
\<close>

theorem registered_upload_end_to_end:
  assumes crypto: "crypto_ok c" and reg: "registered c cl srv" "TokenHeader srv = DefaultTokenHeader"
    and token: "GenerateToken c cl (Some ephPriv) (Some nonce) ts sid = Some token"
      "length sid = 16" "length nonce = 12" "0 \<le> ts" "ts < 2 ^ 63"
    and dial: "Dial hc (Some token) sid reply = Inr conn" "uploadMode conn = uploadModePacket"
    and times: "\<forall>now \<in> insert tget (fst ` set env). in_time srv ts now"
    and server: "reach (server_validate c srv) cfg sv out" "Get sid (mgr sv) = None"
    and name: "SessionKeyName (ClientConfig hc) \<noteq> ''off''"
    and sizes: "0 < MaxChunkSize (ClientConfig hc)" "MaxChunkSize (ClientConfig hc) \<le> MaxChunkSize (conf sv)"
      "MaxChunkSize (conf sv) < 2 ^ 62"
    and written: "client_writes ws conn = (Some posts, conn')" "length (concat (map fst ws)) + length ws < 2 ^ 62"
    and arrive: "set arrivals = set posts" "length env = length arrivals"
    and reads: "\<forall>n \<in> set ns. 0 < n" "length (concat (map fst ws)) + length posts \<le> length ns"
  shows "\<exists>r h sv1 sv2. ServeHTTP (server_validate c srv tget) tget (get_request conn pad addr) sv = Some (h, sv1) \<and>
    h = DownloadLoop r 0 \<and>
    (length (accept_ch sv) < 64 \<longrightarrow> accept_ch sv1 = accept_ch sv @ [newSplitConn r addr]) \<and>
    serve_posts (server_validate c srv) conn env arrivals sv1 = Some sv2 \<and>
    fst (sc.reads ns (newSplitConn r addr, sess_at sv2 r)) = concat (map fst ws)"
proof -
  note D = Dial_conn [OF dial(1)]
  have valid: "server_validate c srv now q = Inr sid"
    if "now \<in> insert tget (fst ` set env)" "extractToken q ''nv_token'' = b64_encode True token" for now q
    using client_validates [OF crypto reg token(2-5) _ token(1)] times that by blast
  have tok: "tokenB64 conn \<noteq> ''''" unfolding D(1) by (rule token_nonempty [OF token(1)])
  note carry = conn_token [OF tok, unfolded D(1)]
  have sv: "manager_inv (mgr sv)" "\<not> accept_closed sv"
    using reach_inv [OF server(1)] by (simp_all add: emit_inv_def)
  have get: "server_validate c srv tget (get_request conn pad addr) = Inr sid" using valid carry(2) by blast
  obtain r sv1 where get: "ServeHTTP (server_validate c srv tget) tget (get_request conn pad addr) sv =
      Some (DownloadLoop r (download_offset_of (get_request conn pad addr)), sv1)" "conf sv1 = conf sv"
    and up: "fresh_upload sv1 sid r" "lookup_upload (sess_at sv1 r) = Map.empty"
    and emit: "length (accept_ch sv) < 64 \<longrightarrow> accept_ch sv1 = accept_ch sv @ [newSplitConn r addr]"
    using first_get [of sv sid "server_validate c srv tget" conn pad addr tget, OF sv server(2) get] by blast
  have off: "download_offset_of (get_request conn pad addr) = 0"
    using download_offset_FormatInt [of "get_request conn pad addr" 0] name [symmetric]
    by (simp add: get_request_def addAuth_def query_get_def assoc_get_def D(2,5))
  obtain sv2 where "serve_posts (server_validate c srv) conn env arrivals sv1 = Some sv2"
    "fst (sc.reads ns (newSplitConn r addr, sess_at sv2 r)) = concat (map fst ws)"
    using upload_composed [OF written(1) dial(2) D(3) written(2) _ _ _ up _ arrive reads, of "server_validate c srv" addr]
      valid carry(1) sizes get(2) D(2) by auto
  with get(1) off emit show ?thesis by blast
qed

definition demo_hc :: client where
  "demo_hc = NewClient ''https://example.org'' (demo_config\<lparr>MaxChunkSize := 2\<rparr>) None"

definition demo_dialled :: client_conn where
  "demo_dialled = demo_conn\<lparr>tokenB64 := b64_encode True (demo_token 990 (replicate 16 4)),
     sessionB64 := b64_encode True (replicate 16 4)\<rparr>"

lemma demo_dial: "Dial demo_hc (Some (demo_token 990 (replicate 16 4))) (replicate 16 4) (Reply 200) = Inr demo_dialled"
  by (simp add: Dial_def demo_dialled_def demo_conn_def demo_hc_def startDownload_def reply_err_def
      resolveUploadMode_def isHTTP2Transport_def NewClient_def defaults_def demo_config_def
      uploadModeStream_def uploadModePacket_def Let_def)

theorem registered_upload_end_to_end_witness:
  "\<exists>r h sv1 sv2. ServeHTTP (server_validate demo_crypto (demo_server\<lparr>TokenHeader := ''nv_token''\<rparr>) 1000000000000) 1000000000000
      (get_request demo_dialled [] '''') (NewServer demo_config) = Some (h, sv1) \<and> h = DownloadLoop r 0 \<and>
    accept_ch sv1 = [newSplitConn r ''''] \<and>
    serve_posts (server_validate demo_crypto (demo_server\<lparr>TokenHeader := ''nv_token''\<rparr>)) demo_dialled
      [(1001000000000, [], ''a''), (1001000000000, [], ''b''), (1002000000000, [], ''a''), (1002000000000, [], ''a'')]
      [(2, [4]), (0, [1, 2]), (1, [3]), (0, [1, 2])] sv1 = Some sv2 \<and>
    fst (sc.reads [1, 1, 1, 1, 5, 5, 5] (newSplitConn r '''', sess_at sv2 r)) = [1, 2, 3, 4]"
proof -
  let ?srv = "demo_server\<lparr>TokenHeader := ''nv_token''\<rparr>"
  have c: "MaxChunkSize (ClientConfig demo_hc) = 2" "cc_client demo_dialled = demo_hc" "uploadMode demo_dialled = ''packet''"
    "brokenErr demo_dialled = None" "uploadSeq demo_dialled = 0" "SessionKeyName (ClientConfig demo_hc) = ''sid''"
    "MaxChunkSize (conf (NewServer demo_config)) = 14336"
    by (simp_all add: demo_dialled_def demo_hc_def demo_conn_def NewClient_def NewServer_def defaults_def demo_config_def Let_def)
  obtain c' where w: "client_writes demo_ws demo_dialled = (Some [(0, [1, 2]), (1, [3]), (2, [4])], c')"
    using demo_writes [of demo_dialled] c by auto
  have reg: "registered demo_crypto demo_client ?srv" using demo_registered by (simp add: registered_def)
  have d: "concat (map fst demo_ws) = [1, 2, 3, 4]" "length demo_ws = 2" by (simp_all add: demo_ws_def)
  have new: "Get (replicate 16 4) (mgr (NewServer demo_config)) = None" "accept_ch (NewServer demo_config) = []"
    by (simp_all add: NewServer_def NewManager_def Get_def Let_def)
  have "\<exists>r h sv1 sv2. ServeHTTP (server_validate demo_crypto (demo_server\<lparr>TokenHeader := ''nv_token''\<rparr>) 1000000000000) 1000000000000
        (get_request demo_dialled [] '''') (NewServer demo_config) = Some (h, sv1) \<and> h = DownloadLoop r 0 \<and>
      (length (accept_ch (NewServer demo_config)) < 64 \<longrightarrow>
         accept_ch sv1 = accept_ch (NewServer demo_config) @ [newSplitConn r '''']) \<and>
      serve_posts (server_validate demo_crypto (demo_server\<lparr>TokenHeader := ''nv_token''\<rparr>)) demo_dialled
        [(1001000000000, [], ''a''), (1001000000000, [], ''b''), (1002000000000, [], ''a''), (1002000000000, [], ''a'')]
        [(2, [4]), (0, [1, 2]), (1, [3]), (0, [1, 2])] sv1 = Some sv2 \<and>
      fst (sc.reads [1, 1, 1, 1, 5, 5, 5] (newSplitConn r '''', sess_at sv2 r)) = concat (map fst demo_ws)"
    by (rule registered_upload_end_to_end [OF demo_crypto_ok reg _ demo_token _ _ _ _ demo_dial _ _ reach.started new(1) _ _ _ _ w])
      (simp_all add: c d insert_commute DefaultTokenHeader_def in_time_def uploadModePacket_def demo_server_def)
  then show ?thesis by (simp only: new d list.size append_Nil) simp
qed

section \<open>The download of a registered client\<close>

text \<open>After the first GET of a dial, the download is at its start, and it stays in its invariant.\<close>

lemma download_opened:
  assumes crypto: "crypto_ok c" and reg: "registered c cl srv" "TokenHeader srv = DefaultTokenHeader"
    and token: "GenerateToken c cl (Some ephPriv) (Some nonce) ts sid = Some token"
      "length sid = 16" "length nonce = 12" "0 \<le> ts" "ts < 2 ^ 63"
    and dial: "Dial hc (Some token) sid reply = Inr conn" "SessionKeyName (ClientConfig hc) \<noteq> ''off''"
    and times: "in_time srv ts tget"
    and server: "reach (server_validate c srv) cfg sv out" "Get sid (mgr sv) = None"
    and get: "ServeHTTP (server_validate c srv tget) tget (get_request conn pad addr) sv = Some (DownloadLoop r off, sv1)"
  shows "off = 0 \<and> dl_inv sid r conn (dl_start sv1 conn r)"
proof -
  note D = Dial_conn [OF dial(1)]
  have tok: "tokenB64 conn \<noteq> ''''" unfolding D(1) by (rule token_nonempty [OF token(1)])
  have valid: "server_validate c srv tget (get_request conn pad addr) = Inr sid"
    using client_validates [OF crypto reg token(2-5) times token(1) conn_token(2) [OF tok, unfolded D(1)]] .
  have inv: "manager_inv (mgr sv)" "\<not> accept_closed sv"
    using reach_inv [OF server(1)] by (simp_all add: emit_inv_def)
  have fr: "fresh_upload sv1 sid r" "represents (download_buf (sess_at sv1 r)) []" "off = download_offset_of (get_request conn pad addr)"
    using first_get [of sv sid "server_validate c srv tget" conn pad addr tget, OF inv server(2) valid] get by auto
  then have "Get sid (mgr sv1) = Some r" "r < length (heap (mgr sv1))"
    using manager_inv_lookup [of "mgr sv1" sid r] by (auto simp: fresh_upload_def Get_def)
  with fr D(5,7) dl_start_inv have "dl_inv sid r conn (dl_start sv1 conn r)" by blast
  moreover have "off = 0" using get_request_offset [of conn pad addr] fr(3) dial(2) by (simp add: D(2,5))
  ultimately show ?thesis by blast
qed

lemma download_reached:
  assumes crypto: "crypto_ok c" and reg: "registered c cl srv" "TokenHeader srv = DefaultTokenHeader"
    and token: "GenerateToken c cl (Some ephPriv) (Some nonce) ts sid = Some token"
      "length sid = 16" "length nonce = 12" "0 \<le> ts" "ts < 2 ^ 63"
    and dial: "Dial hc (Some token) sid reply = Inr conn" "SessionKeyName (ClientConfig hc) \<noteq> ''off''"
    and times: "\<forall>now \<in> insert tget tm. in_time srv ts now"
    and server: "reach (server_validate c srv) cfg sv out" "Get sid (mgr sv) = None"
    and get: "ServeHTTP (server_validate c srv tget) tget (get_request conn pad addr) sv = Some (DownloadLoop r off, sv1)"
    and run: "(dl_step (server_validate c srv) tm site sid r)\<^sup>*\<^sup>* (dl_start sv1 conn r) t"
    and small: "int (length (dl_written t)) < 2 ^ 63"
  shows "off = 0 \<and> dl_inv sid r conn t"
proof -
  note D = Dial_conn [OF dial(1)]
  have tok: "tokenB64 conn \<noteq> ''''" unfolding D(1) by (rule token_nonempty [OF token(1)])
  have start: "off = 0" "dl_inv sid r conn (dl_start sv1 conn r)"
    using download_opened [OF crypto reg token dial _ server get] times by auto
  have valid: "server_validate c srv now (get_request c2 p a) = Inr sid" if "now \<in> tm" "tokenB64 c2 = tokenB64 conn" for now c2 p a
    using client_validates [OF crypto reg token(2-5) _ token(1) conn_token(2) [of c2 p a, unfolded that(2), OF tok, unfolded D(1)]] times that(1)
    by blast
  from dl_steps_inv [OF run start(2) valid _ small] dial(2) start(1) show ?thesis by (simp add: D(2))
qed

text \<open>
  C2. A registered client's download, from the dial to \<open>Read\<close>. The client has dialled and its
  first GET has been served. Then the relay writes, handlers look, send and wait, downloads break
  and come back with a new GET while earlier handlers are still at work, answers get lost, the
  client writes, and other sessions go on, in any order. What \<open>Read\<close> has returned is always
  exactly the first bytes of what the relay has written, and the next GET asks for the byte that
  follows, as long as the GETs arrive while the client's token is valid.
\<close>

theorem registered_download_end_to_end:
  assumes crypto: "crypto_ok c" and reg: "registered c cl srv" "TokenHeader srv = DefaultTokenHeader"
    and token: "GenerateToken c cl (Some ephPriv) (Some nonce) ts sid = Some token"
      "length sid = 16" "length nonce = 12" "0 \<le> ts" "ts < 2 ^ 63"
    and dial: "Dial hc (Some token) sid reply = Inr conn" "SessionKeyName (ClientConfig hc) \<noteq> ''off''"
    and times: "\<forall>now \<in> insert tget tm. in_time srv ts now"
    and server: "reach (server_validate c srv) cfg sv out" "Get sid (mgr sv) = None"
    and get: "ServeHTTP (server_validate c srv tget) tget (get_request conn pad addr) sv = Some (DownloadLoop r off, sv1)"
    and run: "(dl_step (server_validate c srv) tm site sid r)\<^sup>*\<^sup>* (dl_start sv1 conn r) t"
    and small: "int (length (dl_written t)) < 2 ^ 63"
  shows "off = 0 \<and> (\<exists>rest. dl_written t = dl_got t @ rest) \<and>
    downloadOffset (dl_conn t) = int (length (dl_got t)) \<and>
    download_offset_of (get_request (dl_conn t) pad2 addr2) = int (length (dl_got t))"
proof -
  have I: "off = 0" "dl_inv sid r conn t"
    using download_reached [OF crypto reg token dial times server get run small] by auto
  then have "\<exists>rest. dl_written t = dl_got t @ rest" "downloadOffset (dl_conn t) = int (length (dl_got t))"
      "cc_client (dl_conn t) = hc"
    using Dial_conn(2) [OF dial(1)] by (auto simp: dl_inv_def dl_stream_def dl_client_def)
  moreover have "length (dl_got t) \<le> length (dl_written t)" using dl_inv_got [OF I(2)] by blast
  ultimately show ?thesis using I(1) small dial(2) get_request_offset [of "dl_conn t" pad2 addr2] by simp
qed

text \<open>A small instance: the demonstration client at a fresh server, whose relay has written two bytes.\<close>

lemma demo_premises:
  defines "srv \<equiv> demo_server\<lparr>TokenHeader := ''nv_token''\<rparr>"
  shows "registered demo_crypto demo_client srv" and "TokenHeader srv = DefaultTokenHeader"
    and "length (replicate 16 4 :: bytes) = 16" and "length (replicate 12 2 :: bytes) = 12" and "(0 :: int) \<le> 990" and "(990 :: int) < 2 ^ 63"
    and "SessionKeyName (ClientConfig demo_hc) \<noteq> ''off''"
    and "\<forall>now \<in> insert 1000000000000 {1001000000000}. in_time srv 990 now"
    and "Get (replicate 16 4) (mgr (NewServer demo_config)) = None"
    and "in_time srv 990 1000000000000"
  using demo_registered
  by (simp_all add: srv_def registered_def DefaultTokenHeader_def in_time_def demo_server_def demo_hc_def NewClient_def
      defaults_def demo_config_def NewServer_def NewManager_def Get_def Let_def)

lemma demo_download:
  "\<exists>r off sv1 t h. ServeHTTP (server_validate demo_crypto (demo_server\<lparr>TokenHeader := ''nv_token''\<rparr>) 1000000000000) 1000000000000
      (get_request demo_dialled [] '''') (NewServer demo_config) = Some (DownloadLoop r off, sv1) \<and>
    (dl_step (server_validate demo_crypto (demo_server\<lparr>TokenHeader := ''nv_token''\<rparr>)) {1001000000000} site (replicate 16 4) r)\<^sup>*\<^sup>*
      (dl_start sv1 demo_dialled r) t \<and> dl_written t = [5, 6] \<and> dl_cur t = Some h \<and> \<not> dl_stolen t \<and>
    in_window r (h_offset h) (dl_srv t)"
proof -
  let ?srv = "demo_server\<lparr>TokenHeader := ''nv_token''\<rparr>" and ?sid = "replicate 16 (4 :: byte)"
  let ?v = "server_validate demo_crypto ?srv"
  note P = demo_premises
  have inv: "manager_inv (mgr (NewServer demo_config))" "\<not> accept_closed (NewServer demo_config)"
    using reach_inv [OF reach.started [of ?v demo_config]] by (simp_all add: emit_inv_def)
  note D = Dial_conn [OF demo_dial]
  have "tokenB64 demo_dialled \<noteq> ''''" unfolding D(1) by (rule token_nonempty [OF demo_token])
  from conn_token(2) [OF this, unfolded D(1)]
  have valid: "?v 1000000000000 (get_request demo_dialled [] '''') = Inr ?sid"
    by (rule client_validates [OF demo_crypto_ok P(1-6) P(10) demo_token])
  from first_get [where v = "?v 1000000000000" and conn = demo_dialled and pad = "[]" and addr = "''''", OF inv P(9) valid]
  obtain r sv1 off where get: "ServeHTTP (?v 1000000000000) 1000000000000 (get_request demo_dialled [] '''') (NewServer demo_config) =
      Some (DownloadLoop r off, sv1)" and live: "\<not> is_done (download_buf (sess_at sv1 r))"
    by blast
  have "dl_inv ?sid r demo_dialled (dl_start sv1 demo_dialled r)"
    using download_opened [OF demo_crypto_ok P(1,2) demo_token P(3-6) demo_dial P(7,10) reach.started P(9) get] by blast
  from first_write [OF this live] get show ?thesis by blast
qed

theorem registered_download_end_to_end_witness:
  "\<exists>r sv1 t. (dl_step (server_validate demo_crypto (demo_server\<lparr>TokenHeader := ''nv_token''\<rparr>)) {1001000000000} (\<lambda>_. (404, [])) (replicate 16 4) r)\<^sup>*\<^sup>*
      (dl_start sv1 demo_dialled r) t \<and> dl_got t = [5, 6] \<and> download_offset_of (get_request (dl_conn t) [] '''') = 2"
proof -
  note P = demo_premises
  obtain r off sv1 t h where get: "ServeHTTP (server_validate demo_crypto (demo_server\<lparr>TokenHeader := ''nv_token''\<rparr>) 1000000000000) 1000000000000
      (get_request demo_dialled [] '''') (NewServer demo_config) = Some (DownloadLoop r off, sv1)"
    and run: "(dl_step (server_validate demo_crypto (demo_server\<lparr>TokenHeader := ''nv_token''\<rparr>)) {1001000000000} (\<lambda>_. (404, [])) (replicate 16 4) r)\<^sup>*\<^sup>*
      (dl_start sv1 demo_dialled r) t" and w: "dl_written t = [5, 6]"
    and h: "dl_cur t = Some h" "\<not> dl_stolen t" "in_window r (h_offset h) (dl_srv t)"
    using demo_download [of "\<lambda>_. (404, [])"] by blast
  have I: "dl_inv (replicate 16 4) r demo_dialled t"
    using download_reached [OF demo_crypto_ok P(1,2) demo_token P(3-6) demo_dial P(7,8) reach.started P(9) get run] w by simp
  obtain t' where t': "(dl_step (server_validate demo_crypto (demo_server\<lparr>TokenHeader := ''nv_token''\<rparr>)) {1001000000000} (\<lambda>_. (404, [])) (replicate 16 4) r)\<^sup>*\<^sup>*
      t t'" "dl_written t' = [5, 6]" "dl_got t' = [5, 6]"
    using rest_arrives [OF I h, unfolded w, of "server_validate demo_crypto (demo_server\<lparr>TokenHeader := ''nv_token''\<rparr>)" "{1001000000000}" "\<lambda>_. (404, [])"]
    by (elim exE conjE) simp
  have "download_offset_of (get_request (dl_conn t') [] '''') = int (length (dl_got t'))"
    using registered_download_end_to_end [OF demo_crypto_ok P(1,2) demo_token P(3-6) demo_dial P(7,8) reach.started P(9) get
      rtranclp_trans [OF run t'(1)]] t'(2) by simp
  with t' rtranclp_trans [OF run t'(1)] show ?thesis by auto
qed



text \<open>
  C8. A token lasts no longer than the server's time limit, and a connection has one token for
  its life. Once the limit has passed, every POST and every new GET of the connection is answered
  by the fallback site, and with the built-in page, which answers 200, nobody notices: \<open>Write\<close>
  reports that everything is written while the server has done nothing, and \<open>Read\<close> returns
  the text of the page as if the target had sent it.
\<close>

theorem expired_token_loses_data:
  assumes crypto: "crypto_ok c" and reg: "registered c cl srv" "TokenHeader srv = DefaultTokenHeader"
    and token: "GenerateToken c cl (Some ephPriv) (Some nonce) ts sid = Some token"
      "length sid = 16" "length nonce = 12" "0 \<le> ts" "ts < 2 ^ 63"
    and late: "0 \<le> now" "now < 2 ^ 63" "MaxTimeDiff srv < \<bar>now div 1000000000 - ts\<bar>"
    and conn: "tokenB64 conn = b64_encode True token" "brokenErr conn = None" "uploadMode conn = uploadModePacket"
      "\<not> downloadBody conn" "int (length p) \<le> MaxChunkSize (ClientConfig (cc_client conn))" "0 < MaxChunkSize (ClientConfig (cc_client conn))"
    and site: "fallback_ServeHTTP proxy files (\<lambda>st html. (st, map of_char html)) DefaultSite = (st, page)"
  shows "ServeHTTP (server_validate c srv now) now (post_request conn pad addr p sq) sv = Some (Done Fallback, sv) \<and>
    fst (Xhttp_Client.client_write p [Reply st] conn) = WOk (int (length p)) \<and>
    ServeHTTP (server_validate c srv now) now (get_request conn pad addr) sv = Some (Done Fallback, sv) \<and>
    fst (Xhttp_Client.client_read (\<lambda>_. Reply st) (\<lambda>_. BData page) conn) = Inr page"
proof -
  have "0 \<le> now div 1000000000" "now div 1000000000 < 2 ^ 63" using late(1,2) by linarith+
  then have out: "\<not> timestamp_ok (MaxTimeDiff srv) (now div 1000000000) (be64 (word_of_int ts))"
    using late(3) token(4,5) by (simp add: timestamp_ok_window)
  have rejected: "server_validate c srv now q = Inl ErrAuthFailed" if "extractToken q ''nv_token'' = b64_encode True token" for q
    using late_token_rejected [OF crypto reg(1) out token(2,3,1)] that reg(2) by (simp add: server_validate_def DefaultTokenHeader_def)
  have "tokenB64 conn \<noteq> ''''" unfolding conn(1) by (rule token_nonempty [OF token(1)])
  note carry = conn_token [OF this, unfolded conn(1)]
  have ok: "st = 200" "page \<noteq> []" using site by (auto simp: fallback_ServeHTTP_def)
  have "fst (Xhttp_Client.client_write p [Reply st] conn) = WOk (int (length p))"
    using conn(2,3,5,6) ok(1)
    by (simp add: Xhttp_Client.client_write_def isBroken_def uploadModePacket_def uploadModeStream_def reply_err_def split: prod.split)
  moreover have "fst (Xhttp_Client.client_read (\<lambda>_. Reply st) (\<lambda>_. BData page) conn) = Inr page"
    using conn(2,4) ok by (simp add: Xhttp_Client.client_read_def isBroken_def startDownload_def reply_err_def numeral_3_eq_3)
  ultimately show ?thesis by (simp add: ServeHTTP_def rejected carry)
qed

theorem expired_token_loses_data_witness:
  "fst (Xhttp_Client.client_write [1, 2] [Reply 200] (demo_dialled\<lparr>downloadBody := False\<rparr>)) = WOk 2 \<and>
   ServeHTTP (server_validate demo_crypto (demo_server\<lparr>TokenHeader := ''nv_token''\<rparr>) 1111000000000) 1111000000000
     (post_request (demo_dialled\<lparr>downloadBody := False\<rparr>) [] '''' [1, 2] 0) (NewServer demo_config) = Some (Done Fallback, NewServer demo_config)"
proof -
  note P = demo_premises
  let ?conn = "demo_dialled\<lparr>downloadBody := False\<rparr>" and ?srv = "demo_server\<lparr>TokenHeader := ''nv_token''\<rparr>"
  obtain page where page: "fallback_ServeHTTP (\<lambda>_. (0, [])) (\<lambda>_. (0, [])) (\<lambda>st html. (st, map of_char html :: bytes)) DefaultSite = (200, page)"
    by (simp add: fallback_ServeHTTP_def)
  have late: "(0 :: int) \<le> 1111000000000" "(1111000000000 :: int) < 2 ^ 63" "MaxTimeDiff ?srv < \<bar>1111000000000 div 1000000000 - 990\<bar>"
    by (simp_all add: demo_server_def)
  have conn: "tokenB64 ?conn = b64_encode True (demo_token 990 (replicate 16 4))" "brokenErr ?conn = None"
      "uploadMode ?conn = uploadModePacket" "\<not> downloadBody ?conn" "int (length [1, 2 :: byte]) \<le> MaxChunkSize (ClientConfig (cc_client ?conn))"
      "0 < MaxChunkSize (ClientConfig (cc_client ?conn))"
    by (simp_all add: demo_dialled_def demo_conn_def uploadModePacket_def NewClient_def defaults_def demo_config_def)
  show ?thesis
    using expired_token_loses_data [OF demo_crypto_ok P(1,2) demo_token P(3-6) late conn page, of "[]" "''''" 0 "NewServer demo_config"]
    by simp
qed

section \<open>The running client at the server\<close>

text \<open>
  What a tunnel needs: with the client's token, the first GET of a dial by \<open>hc\<close> opens the session
  and hands its connection to the relay, and the streaming POST opens the upload stream of this
  session, at any reachable state of the server that does not know the session id yet.
\<close>

definition opens_tunnel :: "crypto \<Rightarrow> server_x25519 \<Rightarrow> config \<Rightarrow> client_x25519 \<Rightarrow> client \<Rightarrow> bool" where
  "opens_tunnel c srv cfg cl hc \<longleftrightarrow> (\<forall>ephPriv nonce ts sid token reply conn tget tpost sv out pad addr pad2 addr2 body.
     GenerateToken c cl (Some ephPriv) (Some nonce) ts sid = Some token \<and> length sid = 16 \<and> length nonce = 12 \<and>
     0 \<le> ts \<and> ts < 2 ^ 63 \<and> Dial hc (Some token) sid reply = Inr conn \<and> in_time srv ts tget \<and> in_time srv ts tpost \<and>
     reach (server_validate c srv) cfg sv out \<and> Get sid (mgr sv) = None \<longrightarrow>
     uploadMode conn = uploadModeStream \<and>
     (\<exists>r sv1 sv2. ServeHTTP (server_validate c srv tget) tget (get_request conn pad addr) sv = Some (DownloadLoop r 0, sv1) \<and>
       (length (accept_ch sv) < 64 \<longrightarrow> accept_ch sv1 = accept_ch sv @ [newSplitConn r addr]) \<and>
       ServeHTTP (server_validate c srv tpost) tpost (stream_request conn pad2 addr2 body) sv1 = Some (UploadPump r body, sv2) \<and>
       upload_stream r body body sv2 []))"

lemma client_opens_tunnel:
  assumes crypto: "crypto_ok c" and reg: "registered c cl srv" "TokenHeader srv = DefaultTokenHeader"
    and hc: "isHTTP2Transport (HTTPTransport hc)" "SessionKeyName (ClientConfig hc) \<noteq> ''off''" "UploadMode (ClientConfig hc) = ''auto''"
  shows "opens_tunnel c srv cfg cl hc"
  unfolding opens_tunnel_def
proof (intro allI impI, elim conjE)
  fix ephPriv nonce ts sid token reply conn tget tpost sv out pad addr pad2 addr2 body
  assume token: "GenerateToken c cl (Some ephPriv) (Some nonce) ts sid = Some token"
      "length sid = 16" "length nonce = 12" "0 \<le> ts" "ts < 2 ^ 63"
    and dialled: "Dial hc (Some token) sid reply = Inr conn"
    and times: "in_time srv ts tget" "in_time srv ts tpost"
    and server: "reach (server_validate c srv) cfg sv out" "Get sid (mgr sv) = None"
  note D = Dial_conn [OF dialled]
  have mode: "uploadMode conn = uploadModeStream"
    using hc(1) by (simp add: D(6) hc(3) resolveUploadMode_def uploadModeStream_def uploadModePacket_def)
  have valid: "server_validate c srv now q = Inr sid"
    if "in_time srv ts now" "extractToken q ''nv_token'' = b64_encode True token" for now q
    using client_validates [OF crypto reg token(2-5) _ token(1)] that by blast
  have tok: "tokenB64 conn \<noteq> ''''" unfolding D(1) by (rule token_nonempty [OF token(1)])
  note carry = conn_token [OF tok, unfolded D(1)]
  have sv: "manager_inv (mgr sv)" "\<not> accept_closed sv"
    using reach_inv [OF server(1)] by (simp_all add: emit_inv_def)
  obtain r sv1 where get: "ServeHTTP (server_validate c srv tget) tget (get_request conn pad addr) sv =
      Some (DownloadLoop r (download_offset_of (get_request conn pad addr)), sv1)"
    and up: "fresh_upload sv1 sid r" "stream_pipe (sess_at sv1 r) = None"
    and emit: "length (accept_ch sv) < 64 \<longrightarrow> accept_ch sv1 = accept_ch sv @ [newSplitConn r addr]"
    using first_get [of sv sid "server_validate c srv tget" conn pad addr tget, OF sv server(2) valid [OF times(1) carry(2)]]
    by blast
  have off: "download_offset_of (get_request conn pad addr) = 0"
    using download_offset_FormatInt [of "get_request conn pad addr" 0] hc(2) [symmetric]
    by (simp add: get_request_def addAuth_def query_get_def assoc_get_def D(2,5))
  obtain sv2 where "ServeHTTP (server_validate c srv tpost) tpost (stream_request conn pad2 addr2 body) sv1 = Some (UploadPump r body, sv2)"
    "upload_stream r body body sv2 []"
    using stream_post [of sv1 sid r "server_validate c srv tpost", OF up valid [OF times(2) carry(3)]] by blast
  with get off emit mode show "uploadMode conn = uploadModeStream \<and>
     (\<exists>r sv1 sv2. ServeHTTP (server_validate c srv tget) tget (get_request conn pad addr) sv = Some (DownloadLoop r 0, sv1) \<and>
       (length (accept_ch sv) < 64 \<longrightarrow> accept_ch sv1 = accept_ch sv @ [newSplitConn r addr]) \<and>
       ServeHTTP (server_validate c srv tpost) tpost (stream_request conn pad2 addr2 body) sv1 = Some (UploadPump r body, sv2) \<and>
       upload_stream r body body sv2 [])"
    by (intro conjI exI [of _ r] exI [of _ sv1] exI [of _ sv2]) simp_all
qed

lemma running_opens_tunnel:
  assumes "crypto_ok c" and "registered c cl srv" "TokenHeader srv = DefaultTokenHeader"
    and "draws_ok DefaultRanges d" "tc_SessionKeyName (cs_Transport s) \<noteq> ''off''" "ct_Fingerprint (cs_TLS s) \<noteq> ''''"
      "\<And>sid t. snd (dial sid t) = t" "(nv_step F dial)\<^sup>*\<^sup>* (start_client F d cl s) t"
    and "transports (app_mgr (nc_app t)) = [(name, hc)]"
  shows "nc_auth t = cl \<and> opens_tunnel c srv cfg cl hc"
proof -
  have hc: "nc_auth t = cl" "HTTPTransport hc = connect_http s" "SessionKeyName (ClientConfig hc) \<noteq> ''off''"
    "UploadMode (ClientConfig hc) = ''auto''"
    using running_transport [OF assms(4,5,7,8)] assms(9) by (auto simp: client_ok_def)
  have "isHTTP2Transport (HTTPTransport hc)"
    using assms(6) by (simp add: hc(2) connect_http_def isHTTP2Transport_def)
  with client_opens_tunnel [OF assms(1-3) this hc(3,4)] hc(1) show ?thesis by blast
qed

text \<open>
  C3. The tunnel outlives every rotation. The client process has run in any way since its start:
  rotations, emergencies, canary rounds, other connections. A fingerprint is configured, as
  every import link does. A dial of the transport that the manager now holds then opens, at a
  server that knows the client's keys, whatever paths and session parameter the rotations have
  chosen: the GET is authenticated, creates the session and hands exactly this session to the
  relay, and the streaming POST opens its upload stream, which is lossless from there on
  (\<open>stream_upload_lossless\<close>).
\<close>

theorem running_client_opens_tunnel:
  assumes crypto: "crypto_ok c" and reg: "registered c cl srv" "TokenHeader srv = DefaultTokenHeader"
    and client: "draws_ok DefaultRanges d" "tc_SessionKeyName (cs_Transport s) \<noteq> ''off''" "ct_Fingerprint (cs_TLS s) \<noteq> ''''"
      "\<And>sid t. snd (dial sid t) = t" "(nv_step F dial)\<^sup>*\<^sup>* (start_client F d cl s) t"
    and token: "GenerateToken c (nc_auth t) (Some ephPriv) (Some nonce) ts sid = Some token"
      "length sid = 16" "length nonce = 12" "0 \<le> ts" "ts < 2 ^ 63"
    and dialled: "transports (app_mgr (nc_app t)) = [(name, hc)]" "Dial hc (Some token) sid reply = Inr conn"
    and times: "in_time srv ts tget" "in_time srv ts tpost"
    and server: "reach (server_validate c srv) cfg sv out" "Get sid (mgr sv) = None"
  shows "\<exists>r sv1 sv2. ServeHTTP (server_validate c srv tget) tget (get_request conn pad addr) sv = Some (DownloadLoop r 0, sv1) \<and>
    (length (accept_ch sv) < 64 \<longrightarrow> accept_ch sv1 = accept_ch sv @ [newSplitConn r addr]) \<and>
    ServeHTTP (server_validate c srv tpost) tpost (stream_request conn pad2 addr2 body) sv1 = Some (UploadPump r body, sv2) \<and>
    upload_stream r body body sv2 [] \<and> uploadMode conn = uploadModeStream"
  using running_opens_tunnel [OF crypto reg client dialled(1), of cfg] token dialled(2) times server
  unfolding opens_tunnel_def by blast

theorem running_client_opens_tunnel_witness:
  "\<exists>conn r sv1 sv2. ServeHTTP (server_validate demo_crypto (demo_server\<lparr>TokenHeader := ''nv_token''\<rparr>) 1000000000000) 1000000000000
      (get_request conn [] '''') (NewServer demo_config) = Some (DownloadLoop r 0, sv1) \<and>
    ServeHTTP (server_validate demo_crypto (demo_server\<lparr>TokenHeader := ''nv_token''\<rparr>) 1001000000000) 1001000000000
      (stream_request conn [] '''' [1, 2, 3]) sv1 = Some (UploadPump r [1, 2, 3], sv2) \<and>
    upload_stream r [1, 2, 3] [1, 2, 3] sv2 []"
proof -
  let ?srv = "demo_server\<lparr>TokenHeader := ''nv_token''\<rparr>" and ?tok = "demo_token 990 (replicate 16 4)"
  have dr: "draws_ok DefaultRanges draws0" using DefaultRanges_ok by blast
  have st: "\<And>sid t. snd (no_dial sid t) = t" by (simp add: no_dial_def)
  have s: "tc_SessionKeyName (cs_Transport demo_settings) \<noteq> ''off''" "ct_Fingerprint (cs_TLS demo_settings) \<noteq> ''''"
    by (simp_all add: demo_settings_def)
  obtain t where t: "(nv_step real_ops no_dial)\<^sup>*\<^sup>* (start_client real_ops draws0 demo_client demo_settings) t"
    using rotation_installs_or_races [OF demo_settled dr dr, of real_ops no_dial] unfolding demo_nv_def by blast
  obtain hc where hc: "transports (app_mgr (nc_app t)) = [(''xhttp'', hc)]" "nc_auth t = demo_client"
    using running_transport [OF dr s(1) st t] by blast
  have reg: "registered demo_crypto demo_client ?srv" using demo_registered by (simp add: registered_def)
  obtain conn where conn: "Dial hc (Some ?tok) (replicate 16 4) (Reply 200) = Inr conn"
    by (cases "Dial hc (Some ?tok) (replicate 16 4) (Reply 200)")
      (simp_all add: Dial_def startDownload_def reply_err_def Let_def split: if_splits)
  have new: "Get (replicate 16 4) (mgr (NewServer demo_config)) = None"
    by (simp add: NewServer_def NewManager_def Get_def Let_def)
  have tok: "GenerateToken demo_crypto (nc_auth t) (Some (replicate 32 1)) (Some (replicate 12 2)) 990 (replicate 16 4) = Some ?tok"
    unfolding hc(2) by (rule demo_token)
  have "\<exists>r sv1 sv2. ServeHTTP (server_validate demo_crypto ?srv 1000000000000) 1000000000000 (get_request conn [] '''')
        (NewServer demo_config) = Some (DownloadLoop r 0, sv1) \<and>
      (length (accept_ch (NewServer demo_config)) < 64 \<longrightarrow> accept_ch sv1 = accept_ch (NewServer demo_config) @ [newSplitConn r '''']) \<and>
      ServeHTTP (server_validate demo_crypto ?srv 1001000000000) 1001000000000 (stream_request conn [] '''' [1, 2, 3]) sv1 =
        Some (UploadPump r [1, 2, 3], sv2) \<and>
      upload_stream r [1, 2, 3] [1, 2, 3] sv2 [] \<and> uploadMode conn = uploadModeStream"
    by (rule running_client_opens_tunnel [OF demo_crypto_ok reg _ dr s st t tok _ _ _ _ hc(1) conn _ _ reach.started new])
      (simp_all add: DefaultTokenHeader_def in_time_def demo_server_def)
  then show ?thesis by blast
qed

section \<open>From setup to the tunnel\<close>



end
